(* ===== verification/Prelude.thy ===== *)
theory Prelude
  imports
    Main
    "HOL-Library.Sublist"
    "HOL-Library.Char_ord"
    "HOL-Library.List_Lexorder"
    "HOL-Library.Multiset"
begin

text \<open>
  The shared vocabulary of the development. Go strings are byte sequences, so they are modelled
  as \<^typ>\<open>string\<close> (a list of 8-bit characters). The section on strings holds the functions of
  Go's \<^verbatim>\<open>strings\<close> package the program calls, with the behaviour the package documents; the byte
  sequences of Unicode white space are listed explicitly, because \<^verbatim>\<open>TrimSpace\<close> and \<^verbatim>\<open>Fields\<close>
  recognise them. Everything here is executable.
\<close>

named_theorems go_simps \<open>rewrite rules for the Go string functions\<close>
named_theorems printable_intros \<open>how strings of printable bytes are built\<close>

section \<open>Results\<close>

text \<open>A Go function returning \<open>(T, error)\<close> is a function into \<open>'e + 'a\<close>: \<open>Inl\<close> is the error.\<close>

type_synonym ('e, 'a) result = "'e + 'a"

definition rbind :: "('e, 'a) result \<Rightarrow> ('a \<Rightarrow> ('e, 'b) result) \<Rightarrow> ('e, 'b) result" where
  "rbind m f = (case m of Inl e \<Rightarrow> Inl e | Inr a \<Rightarrow> f a)"

lemma rbind_simps [simp]:
  "rbind (Inl e) f = Inl e"
  "rbind (Inr a) f = f a"
  by (simp_all add: rbind_def)

lemma rbind_Inr_iff: "rbind m f = Inr b \<longleftrightarrow> (\<exists>a. m = Inr a \<and> f a = Inr b)"
  by (cases m) auto

lemma rbind_Inl_iff: "rbind m f = Inl e \<longleftrightarrow> m = Inl e \<or> (\<exists>a. m = Inr a \<and> f a = Inl e)"
  by (cases m) auto

definition the_result :: "('e, 'a) result \<Rightarrow> 'a option" where
  "the_result m = (case m of Inl _ \<Rightarrow> None | Inr a \<Rightarrow> Some a)"

definition is_ok :: "('e, 'a) result \<Rightarrow> bool" where
  "is_ok m = (case m of Inl _ \<Rightarrow> False | Inr _ \<Rightarrow> True)"

lemma is_ok_simps [simp]: "\<not> is_ok (Inl e)" "is_ok (Inr a)"
  by (simp_all add: is_ok_def)

lemma is_ok_iff: "is_ok m \<longleftrightarrow> (\<exists>a. m = Inr a)"
  by (cases m) auto

section \<open>Bytes\<close>

abbreviation code :: "char \<Rightarrow> nat" where "code c \<equiv> of_char c"

text \<open>Printable, non-blank ASCII: the byte range \<open>[\x21-\x7e]\<close>.\<close>

definition printable :: "char \<Rightarrow> bool" where
  "printable c \<longleftrightarrow> CHR 0x21 \<le> c \<and> c \<le> CHR 0x7E"

text \<open>A token: a string of printable bytes. It holds no blank and no control byte.\<close>

definition token :: "string \<Rightarrow> bool" where
  "token s \<longleftrightarrow> list_all printable s"

lemma token_Nil [simp, printable_intros]: "token []"
  by (simp add: token_def)

lemma token_Cons [simp]: "token (c # s) \<longleftrightarrow> printable c \<and> token s"
  by (simp add: token_def)

lemma token_append [simp]: "token (s @ t) \<longleftrightarrow> token s \<and> token t"
  by (auto simp: token_def)

lemma token_set: "token s \<Longrightarrow> c \<in> set s \<Longrightarrow> printable c"
  by (simp add: token_def list_all_iff)

lemma token_no_newline: "token s \<Longrightarrow> CHR 0x0A \<notin> set s"
  by (auto simp: token_def list_all_iff printable_def)

lemma token_no_space: "token s \<Longrightarrow> CHR '' '' \<notin> set s"
  by (auto simp: token_def list_all_iff printable_def)

lemma token_mono: "set s \<subseteq> set t \<Longrightarrow> token t \<Longrightarrow> token s"
  by (auto simp: token_def list_all_iff)

section \<open>Go strings\<close>

abbreviation has_prefix :: "string \<Rightarrow> string \<Rightarrow> bool" where
  "has_prefix s p \<equiv> prefix p s"

abbreviation has_suffix :: "string \<Rightarrow> string \<Rightarrow> bool" where
  "has_suffix s p \<equiv> suffix p s"

abbreviation contains :: "string \<Rightarrow> string \<Rightarrow> bool" where
  "contains s p \<equiv> sublist p s"

lemma contains_char: "contains s [c] \<longleftrightarrow> c \<in> set s"
  by (auto simp: sublist_def in_set_conv_decomp)

definition trim_prefix :: "string \<Rightarrow> string \<Rightarrow> string" where
  "trim_prefix s p = (if prefix p s then drop (length p) s else s)"

definition trim_suffix :: "string \<Rightarrow> string \<Rightarrow> string" where
  "trim_suffix s p = (if suffix p s then take (length s - length p) s else s)"

text \<open>\<^verbatim>\<open>strings.Cut(s, sep)\<close> for a one-byte separator: before, after, found.\<close>

definition str_cut :: "string \<Rightarrow> char \<Rightarrow> string \<times> string \<times> bool" where
  "str_cut s c = (takeWhile (\<lambda>x. x \<noteq> c) s, tl (dropWhile (\<lambda>x. x \<noteq> c) s), c \<in> set s)"

lemma str_cut_append [go_simps]: "c \<notin> set s \<Longrightarrow> str_cut (s @ c # t) c = (s, t, True)"
  by (simp add: str_cut_def takeWhile_tail dropWhile_append)

lemma str_cut_absent [go_simps]: "c \<notin> set s \<Longrightarrow> str_cut s c = (s, [], False)"
proof -
  assume c: "c \<notin> set s"
  then have "dropWhile (\<lambda>x. x \<noteq> c) s = []" by (auto simp: dropWhile_eq_Nil_conv)
  moreover have "takeWhile (\<lambda>x. x \<noteq> c) s = s" using c by (auto simp: takeWhile_eq_all_conv)
  ultimately show ?thesis using c by (simp only: str_cut_def) simp
qed

lemma str_cut_True: "str_cut s c = (a, b, True) \<Longrightarrow> s = a @ c # b"
proof -
  assume cut: "str_cut s c = (a, b, True)"
  then have "c \<in> set s" by (simp add: str_cut_def)
  then obtain ys zs where s: "s = ys @ c # zs" and c: "c \<notin> set ys" by (meson split_list_first)
  from str_cut_append [OF c, of zs] cut s show ?thesis by simp
qed

text \<open>\<^verbatim>\<open>strings.Split\<close>/\<^verbatim>\<open>SplitSeq\<close> at the bytes that satisfy a predicate; never empty.\<close>

fun split_pred :: "(char \<Rightarrow> bool) \<Rightarrow> string \<Rightarrow> string list" where
  "split_pred p [] = [[]]"
| "split_pred p (x # xs) =
     (if p x then [] # split_pred p xs
      else (case split_pred p xs of [] \<Rightarrow> [[x]] | y # ys \<Rightarrow> (x # y) # ys))"

definition split_on :: "char \<Rightarrow> string \<Rightarrow> string list" where
  "split_on c = split_pred (\<lambda>x. x = c)"

definition fields_func :: "(char \<Rightarrow> bool) \<Rightarrow> string \<Rightarrow> string list" where
  "fields_func p s = filter (\<lambda>f. f \<noteq> []) (split_pred p s)"

fun join :: "string \<Rightarrow> string list \<Rightarrow> string" where
  "join sep [] = []"
| "join sep [x] = x"
| "join sep (x # y # zs) = x @ sep @ join sep (y # zs)"

lemma split_pred_not_Nil [simp]: "split_pred p s \<noteq> []"
  by (cases s) (auto split: list.splits)

lemma split_pred_none: "list_all (\<lambda>x. \<not> p x) s \<Longrightarrow> split_pred p s = [s]"
  by (induction s) auto

lemma split_pred_append:
  "list_all (\<lambda>x. \<not> p x) s \<Longrightarrow> p c \<Longrightarrow> split_pred p (s @ c # t) = s # split_pred p t"
  by (induction s) auto

lemma split_pred_pieces: "f \<in> set (split_pred p s) \<Longrightarrow> x \<in> set f \<Longrightarrow> \<not> p x"
  by (induction s arbitrary: f) (fastforce split: if_splits list.splits)+

lemma split_pred_set: "f \<in> set (split_pred p s) \<Longrightarrow> set f \<subseteq> set s"
proof (induction s arbitrary: f)
  case Nil
  then show ?case by simp
next
  case (Cons x xs)
  obtain y ys where y: "split_pred p xs = y # ys"
    by (meson list.exhaust split_pred_not_Nil)
  with Cons have "set y \<subseteq> set xs" "\<And>g. g \<in> set ys \<Longrightarrow> set g \<subseteq> set xs" by auto
  with Cons.prems y show ?case by (fastforce split: if_splits)
qed

text \<open>Splitting undoes joining, when the pieces do not hold the separator.\<close>

lemma split_on_join:
  assumes "xs \<noteq> []" and "\<And>x. x \<in> set xs \<Longrightarrow> c \<notin> set x"
  shows "split_on c (join [c] xs) = xs"
  using assms
proof (induction "[c]" xs rule: join.induct)
  case 1
  then show ?case by simp
next
  case (2 x)
  then show ?case by (auto simp: split_on_def list_all_iff intro!: split_pred_none)
next
  case (3 x y zs)
  have "split_on c (x @ c # join [c] (y # zs)) = x # split_on c (join [c] (y # zs))"
    unfolding split_on_def by (rule split_pred_append) (use 3 in \<open>auto simp: list_all_iff\<close>)
  with 3 show ?case by simp
qed

lemma join_split_on: "join [c] (split_on c s) = s"
proof (induction s)
  case Nil
  then show ?case by (simp add: split_on_def)
next
  case (Cons x xs)
  obtain y ys where y: "split_on c xs = y # ys"
    by (metis list.exhaust split_pred_not_Nil split_on_def)
  with Cons show ?case by (cases ys) (auto simp: split_on_def)
qed

text \<open>Splitting at a separator, wherever the pieces come from; a line of a text is a piece but the last.\<close>

lemma split_on_append: "split_on c (a @ c # b) = split_on c a @ split_on c b"
proof (induction a)
  case (Cons x xs)
  obtain y ys where y: "split_on c xs = y # ys" by (metis list.exhaust split_pred_not_Nil split_on_def)
  with Cons show ?case by (simp add: split_on_def)
qed (simp add: split_on_def)

lemma join_append:
  "vs \<noteq> [] \<Longrightarrow> join sep (us @ x # vs) = (if us = [] then [] else join sep us @ sep) @ x @ sep @ join sep vs"
proof (induction us)
  case Nil
  then show ?case by (cases vs) simp_all
next
  case (Cons u us)
  then show ?case by (cases us) simp_all
qed

lemma line_iff:
  assumes "c \<notin> set x"
  shows "x \<in> set (butlast (split_on c s)) \<longleftrightarrow> prefix (x @ [c]) s \<or> sublist (c # x @ [c]) s"
proof
  have x: "split_on c x = [x]"
    unfolding split_on_def using assms by (intro split_pred_none) (auto simp: list_all_iff)
  have ne: "split_on c t \<noteq> []" for t by (simp add: split_on_def)
  assume "prefix (x @ [c]) s \<or> sublist (c # x @ [c]) s"
  then obtain a b where "s = x @ c # b \<or> s = a @ c # x @ c # b" by (auto simp: prefix_def sublist_def)
  then show "x \<in> set (butlast (split_on c s))"
    by (elim disjE) (simp_all only: split_on_append x butlast_append ne append_is_Nil_conv, simp_all)
next
  assume "x \<in> set (butlast (split_on c s))"
  then obtain us ws where "butlast (split_on c s) = us @ x # ws" by (meson split_list)
  moreover have "split_on c s \<noteq> []" by (simp add: split_on_def)
  ultimately obtain vs where sp: "split_on c s = us @ x # vs" and vs: "vs \<noteq> []"
    by (metis append_Cons append_assoc append_butlast_last_id snoc_eq_iff_butlast)
  have "s = (if us = [] then [] else join [c] us @ [c]) @ x @ [c] @ join [c] vs"
    using join_split_on [of c s] unfolding sp join_append [OF vs] by simp
  then show "prefix (x @ [c]) s \<or> sublist (c # x @ [c]) s"
  proof (cases "us = []")
    case True
    with \<open>s = _\<close> have "s = (x @ [c]) @ join [c] vs" by simp
    then show ?thesis unfolding prefix_def by blast
  next
    case False
    with \<open>s = _\<close> have "s = join [c] us @ (c # x @ [c]) @ join [c] vs" by simp
    then show ?thesis unfolding sublist_def by blast
  qed
qed

lemma token_join [printable_intros]: "token sep \<Longrightarrow> list_all token xs \<Longrightarrow> token (join sep xs)"
  by (induction sep xs rule: join.induct) auto

lemma cut_inject: "c \<notin> set (a :: string) \<Longrightarrow> c \<notin> set b \<Longrightarrow> a @ c # x = b @ c # y \<Longrightarrow> a = b \<and> x = y"
  using str_cut_append [of c a x] str_cut_append [of c b y] by (metis prod.inject)

subsection \<open>Lines\<close>

definition newline :: char where "newline = CHR 0x0A"

definition unlines :: "string list \<Rightarrow> string" where
  "unlines ls = concat (map (\<lambda>l. l @ [newline]) ls)"

lemma split_unlines: "list_all (\<lambda>l. newline \<notin> set l) ls \<Longrightarrow> split_on newline (unlines ls) = ls @ [[]]"
proof (induction ls)
  case Nil
  then show ?case by (simp add: unlines_def split_on_def)
next
  case (Cons l ls)
  have "split_on newline (l @ newline # unlines ls) = l # split_on newline (unlines ls)"
    unfolding split_on_def by (rule split_pred_append) (use Cons.prems in \<open>auto simp: list_all_iff\<close>)
  with Cons show ?case by (simp add: unlines_def)
qed

subsection \<open>White space\<close>

text \<open>
  The UTF-8 encodings of the code points \<^verbatim>\<open>unicode.IsSpace\<close> accepts. Every sequence of more than
  one byte starts with a lead byte, so it cannot begin inside another encoded character; matching
  it at a byte position is the same as decoding there.
\<close>

definition space_seqs :: "string list" where
  "space_seqs =
     [[CHR 0x09], [CHR 0x0A], [CHR 0x0B], [CHR 0x0C], [CHR 0x0D], [CHR 0x20],
      [CHR 0xC2, CHR 0x85], [CHR 0xC2, CHR 0xA0], [CHR 0xE1, CHR 0x9A, CHR 0x80],
      [CHR 0xE2, CHR 0x80, CHR 0x80], [CHR 0xE2, CHR 0x80, CHR 0x81], [CHR 0xE2, CHR 0x80, CHR 0x82],
      [CHR 0xE2, CHR 0x80, CHR 0x83], [CHR 0xE2, CHR 0x80, CHR 0x84], [CHR 0xE2, CHR 0x80, CHR 0x85],
      [CHR 0xE2, CHR 0x80, CHR 0x86], [CHR 0xE2, CHR 0x80, CHR 0x87], [CHR 0xE2, CHR 0x80, CHR 0x88],
      [CHR 0xE2, CHR 0x80, CHR 0x89], [CHR 0xE2, CHR 0x80, CHR 0x8A], [CHR 0xE2, CHR 0x80, CHR 0xA8],
      [CHR 0xE2, CHR 0x80, CHR 0xA9], [CHR 0xE2, CHR 0x80, CHR 0xAF], [CHR 0xE2, CHR 0x81, CHR 0x9F],
      [CHR 0xE3, CHR 0x80, CHR 0x80]]"

text \<open>The number of leading bytes that form one blank of \<open>ws\<close>, 0 when there is none.\<close>

definition blank_len :: "string list \<Rightarrow> string \<Rightarrow> nat" where
  "blank_len ws s = (case find (\<lambda>w. prefix w s) ws of None \<Rightarrow> 0 | Some w \<Rightarrow> length w)"

function strip_front :: "string list \<Rightarrow> string \<Rightarrow> string" where
  "strip_front ws s =
     (if blank_len ws s = 0 \<or> s = [] then s else strip_front ws (drop (blank_len ws s) s))"
  by pat_completeness auto
termination
  by (relation "measure (\<lambda>(ws, s). length s)") auto

declare strip_front.simps [simp del]

definition trim_left :: "string \<Rightarrow> string" where
  "trim_left s = strip_front space_seqs s"

definition trim_right :: "string \<Rightarrow> string" where
  "trim_right s = rev (strip_front (map rev space_seqs) (rev s))"

definition trim_space :: "string \<Rightarrow> string" where
  "trim_space s = trim_right (trim_left s)"

text \<open>\<^verbatim>\<open>strings.Fields\<close>/\<^verbatim>\<open>FieldsSeq\<close>: the maximal runs of non-blank bytes; \<open>cur\<close> is the run being read.\<close>

function fields_from :: "string \<Rightarrow> string \<Rightarrow> string list" where
  "fields_from cur s =
     (if s = [] then (if cur = [] then [] else [cur])
      else if blank_len space_seqs s = 0 then fields_from (cur @ [hd s]) (tl s)
      else (if cur = [] then [] else [cur]) @ fields_from [] (drop (blank_len space_seqs s) s))"
  by pat_completeness auto
termination
  by (relation "measure (\<lambda>(cur, s). length s)") auto

declare fields_from.simps [simp del]

definition str_fields :: "string \<Rightarrow> string list" where
  "str_fields s = fields_from [] s"

subsection \<open>Printable strings are left alone\<close>

lemma blank_len_printable:
  assumes "\<And>w. w \<in> set ws \<Longrightarrow> w \<noteq> [] \<and> \<not> printable (hd w)" and "s = [] \<or> printable (hd s)"
  shows "blank_len ws s = 0"
proof -
  have "find (\<lambda>w. prefix w s) ws = None"
    unfolding find_None_iff using assms by (auto simp: prefix_def)
  then show ?thesis by (simp add: blank_len_def)
qed

lemma space_seqs_front: "w \<in> set space_seqs \<Longrightarrow> w \<noteq> [] \<and> \<not> printable (hd w)"
  by (auto simp: space_seqs_def printable_def)

lemma space_seqs_back: "w \<in> set (map rev space_seqs) \<Longrightarrow> w \<noteq> [] \<and> \<not> printable (hd w)"
  by (auto simp: space_seqs_def printable_def)

lemma blank_len_space [simp]: "s = [] \<or> printable (hd s) \<Longrightarrow> blank_len space_seqs s = 0"
  by (rule blank_len_printable [OF space_seqs_front])

lemma strip_front_stop: "blank_len ws s = 0 \<Longrightarrow> strip_front ws s = s"
  by (subst strip_front.simps) (simp only: simp_thms if_True)

lemma trim_left_printable [go_simps]: "s = [] \<or> printable (hd s) \<Longrightarrow> trim_left s = s"
  unfolding trim_left_def by (intro strip_front_stop blank_len_space)

lemma trim_right_printable [go_simps]: "s = [] \<or> printable (last s) \<Longrightarrow> trim_right s = s"
proof -
  assume "s = [] \<or> printable (last s)"
  then have "rev s = [] \<or> printable (hd (rev s))" by (auto simp: hd_rev)
  then have "blank_len (map rev space_seqs) (rev s) = 0"
    by (intro blank_len_printable space_seqs_back)
  then have "strip_front (map rev space_seqs) (rev s) = rev s" by (rule strip_front_stop)
  then show ?thesis by (simp only: trim_right_def rev_rev_ident)
qed

lemma trim_space_printable [go_simps]:
  "printable (hd s) \<Longrightarrow> printable (last s) \<Longrightarrow> trim_space s = s"
  by (simp add: trim_space_def trim_left_printable trim_right_printable)

lemma trim_space_token [go_simps]: "token s \<Longrightarrow> trim_space s = s"
proof (cases "s = []")
  case True
  then show ?thesis by (simp add: trim_space_def trim_left_printable trim_right_printable)
next
  case False
  moreover assume "token s"
  ultimately show ?thesis
    by (intro trim_space_printable) (auto intro: token_set)
qed

lemma fields_from_token: "token s \<Longrightarrow> cur @ s \<noteq> [] \<Longrightarrow> fields_from cur s = [cur @ s]"
proof (induction s arbitrary: cur)
  case Nil
  then show ?case by (simp add: fields_from.simps)
next
  case (Cons x xs)
  then show ?case by (subst fields_from.simps) simp
qed

lemma str_fields_token [go_simps]: "token s \<Longrightarrow> s \<noteq> [] \<Longrightarrow> str_fields s = [s]"
  by (simp add: str_fields_def fields_from_token)

end
