(* ===== verification/Regexp.thy ===== *)
theory Regexp
  imports Prelude
begin

text \<open>
  The anchored regular expressions (\<open>^...$\<close>) the program compiles with \<^verbatim>\<open>regexp.MustCompile\<close>: their
  syntax, the set of strings each one accepts (\<open>lang\<close>), and an executable matcher by derivatives
  (\<open>matches\<close>), proved equal to the language. The classes of the program are ASCII, so matching bytes
  is matching runes. \<open>alpha\<close> collects the byte ranges an expression mentions: every accepted
  string is built from them, which is how the validation theorems learn what a field can hold.
\<close>

section \<open>Syntax and language\<close>

type_synonym ranges = "(char \<times> char) list"

definition in_ranges :: "char \<Rightarrow> ranges \<Rightarrow> bool" where
  "in_ranges c rs \<longleftrightarrow> list_ex (\<lambda>(lo, hi). lo \<le> c \<and> c \<le> hi) rs"

datatype rexp = Zero | Eps | Cls ranges | Alt rexp rexp | Cat rexp rexp | Star rexp

inductive_set star :: "string set \<Rightarrow> string set" for A where
  star_Nil: "[] \<in> star A"
| star_append: "x \<in> A \<Longrightarrow> y \<in> star A \<Longrightarrow> x @ y \<in> star A"

primrec lang :: "rexp \<Rightarrow> string set" where
  "lang Zero = {}"
| "lang Eps = {[]}"
| "lang (Cls rs) = {[c] | c. in_ranges c rs}"
| "lang (Alt r s) = lang r \<union> lang s"
| "lang (Cat r s) = {x @ y | x y. x \<in> lang r \<and> y \<in> lang s}"
| "lang (Star r) = star (lang r)"

text \<open>The derived forms \<open>r+\<close>, \<open>r?\<close>, \<open>r{n}\<close> and a literal.\<close>

definition Plus :: "rexp \<Rightarrow> rexp" where "Plus r = Cat r (Star r)"
definition Opt :: "rexp \<Rightarrow> rexp" where "Opt r = Alt Eps r"
primrec Rep :: "nat \<Rightarrow> rexp \<Rightarrow> rexp" where
  "Rep 0 r = Eps"
| "Rep (Suc n) r = Cat r (Rep n r)"
primrec Lit :: "string \<Rightarrow> rexp" where
  "Lit [] = Eps"
| "Lit (c # cs) = Cat (Cls [(c, c)]) (Lit cs)"

section \<open>The matcher\<close>

text \<open>Smart constructors keep derivatives small.\<close>

fun alt :: "rexp \<Rightarrow> rexp \<Rightarrow> rexp" where
  "alt Zero r = r"
| "alt r Zero = r"
| "alt r s = Alt r s"

fun cat :: "rexp \<Rightarrow> rexp \<Rightarrow> rexp" where
  "cat Zero r = Zero"
| "cat Eps r = r"
| "cat r s = Cat r s"

primrec nullable :: "rexp \<Rightarrow> bool" where
  "nullable Zero \<longleftrightarrow> False"
| "nullable Eps \<longleftrightarrow> True"
| "nullable (Cls rs) \<longleftrightarrow> False"
| "nullable (Alt r s) \<longleftrightarrow> nullable r \<or> nullable s"
| "nullable (Cat r s) \<longleftrightarrow> nullable r \<and> nullable s"
| "nullable (Star r) \<longleftrightarrow> True"

primrec deriv :: "char \<Rightarrow> rexp \<Rightarrow> rexp" where
  "deriv c Zero = Zero"
| "deriv c Eps = Zero"
| "deriv c (Cls rs) = (if in_ranges c rs then Eps else Zero)"
| "deriv c (Alt r s) = alt (deriv c r) (deriv c s)"
| "deriv c (Cat r s) =
     (if nullable r then alt (cat (deriv c r) s) (deriv c s) else cat (deriv c r) s)"
| "deriv c (Star r) = cat (deriv c r) (Star r)"

primrec matches :: "rexp \<Rightarrow> string \<Rightarrow> bool" where
  "matches r [] \<longleftrightarrow> nullable r"
| "matches r (c # cs) \<longleftrightarrow> matches (deriv c r) cs"

section \<open>The matcher accepts the language\<close>

lemma lang_alt [simp]: "lang (alt r s) = lang r \<union> lang s"
  by (cases "(r, s)" rule: alt.cases) auto

lemma lang_cat [simp]: "lang (cat r s) = lang (Cat r s)"
  by (cases "(r, s)" rule: cat.cases) auto

lemma nullable_lang: "nullable r \<longleftrightarrow> [] \<in> lang r"
  by (induction r) (auto intro: star.intros)

lemma star_Cons_iff:
  "c # s \<in> star A \<longleftrightarrow> (\<exists>x y. c # x \<in> A \<and> y \<in> star A \<and> s = x @ y)"
proof
  assume "c # s \<in> star A"
  then show "\<exists>x y. c # x \<in> A \<and> y \<in> star A \<and> s = x @ y"
  proof (induction "c # s" rule: star.induct)
    case (star_append x y)
    then show ?case by (cases x) auto
  qed
next
  assume "\<exists>x y. c # x \<in> A \<and> y \<in> star A \<and> s = x @ y"
  then show "c # s \<in> star A"
    using star_append [of "c # _" A] by fastforce
qed

lemma lang_deriv: "lang (deriv c r) = {s. c # s \<in> lang r}"
proof (induction r)
  case (Cat r s)
  have "c # w \<in> lang (Cat r s) \<longleftrightarrow>
      (\<exists>x y. c # x \<in> lang r \<and> y \<in> lang s \<and> w = x @ y) \<or> ([] \<in> lang r \<and> c # w \<in> lang s)" for w
    by (simp add: Cons_eq_append_conv) blast
  with Cat show ?case by (auto simp: nullable_lang)
next
  case (Star r)
  then show ?case by (auto simp: star_Cons_iff)
qed auto

theorem matches_lang: "matches r s \<longleftrightarrow> s \<in> lang r"
  by (induction s arbitrary: r) (auto simp: nullable_lang lang_deriv)

section \<open>What accepted strings are made of\<close>

primrec alpha :: "rexp \<Rightarrow> ranges" where
  "alpha Zero = []"
| "alpha Eps = []"
| "alpha (Cls rs) = rs"
| "alpha (Alt r s) = alpha r @ alpha s"
| "alpha (Cat r s) = alpha r @ alpha s"
| "alpha (Star r) = alpha r"

lemma in_ranges_append [simp]: "in_ranges c (rs @ ss) \<longleftrightarrow> in_ranges c rs \<or> in_ranges c ss"
  by (auto simp: in_ranges_def)

lemma star_all: "s \<in> star A \<Longrightarrow> (\<And>x. x \<in> A \<Longrightarrow> list_all P x) \<Longrightarrow> list_all P s"
  by (induction rule: star.induct) auto

lemma lang_alpha: "s \<in> lang r \<Longrightarrow> list_all (\<lambda>c. in_ranges c (alpha r)) s"
proof (induction r arbitrary: s)
  case (Star r)
  then show ?case by (auto intro: star_all)
qed (fastforce simp: list_all_iff)+

lemma matches_alpha: "matches r s \<Longrightarrow> list_all (\<lambda>c. in_ranges c (alpha r)) s"
  by (simp add: matches_lang lang_alpha)

text \<open>All ranges of an expression inside the printable range: it accepts tokens only.\<close>

definition token_ranges :: "ranges \<Rightarrow> bool" where
  "token_ranges rs \<longleftrightarrow> list_all (\<lambda>(lo, hi). CHR 0x21 \<le> lo \<and> hi \<le> CHR 0x7E) rs"

lemma token_ranges_printable: "token_ranges rs \<Longrightarrow> in_ranges c rs \<Longrightarrow> printable c"
  by (fastforce simp: token_ranges_def in_ranges_def printable_def list_all_iff list_ex_iff)

lemma matches_token: "matches r s \<Longrightarrow> token_ranges (alpha r) \<Longrightarrow> token s"
  using matches_alpha [of r s] by (auto simp: token_def list_all_iff intro: token_ranges_printable)

text \<open>A byte outside every range of an expression is in no accepted string.\<close>

lemma matches_excludes: "matches r s \<Longrightarrow> \<not> in_ranges c (alpha r) \<Longrightarrow> c \<notin> set s"
  using matches_alpha [of r s] by (auto simp: list_all_iff)

section \<open>Derived forms\<close>

lemma star_snoc_class: "s \<in> star {[c] | c. P c} \<longleftrightarrow> list_all P s"
proof
  assume "s \<in> star {[c] | c. P c}"
  then show "list_all P s" by (induction rule: star.induct) auto
next
  assume "list_all P s"
  then show "s \<in> star {[c] | c. P c}"
  proof (induction s)
    case (Cons c s)
    then show ?case using star_append [of "[c]"] by fastforce
  qed (simp add: star_Nil)
qed

lemma lang_Star_Cls [simp]: "s \<in> lang (Star (Cls rs)) \<longleftrightarrow> list_all (\<lambda>c. in_ranges c rs) s"
  by (simp add: star_snoc_class)

lemma lang_Cat_Cls:
  "s \<in> lang (Cat (Cls rs) r) \<longleftrightarrow> s \<noteq> [] \<and> in_ranges (hd s) rs \<and> tl s \<in> lang r"
proof (cases s)
  case (Cons a t)
  have "s \<in> lang (Cat (Cls rs) r) \<longleftrightarrow> t \<in> lang (deriv a (Cat (Cls rs) r))"
    by (simp only: lang_deriv Cons mem_Collect_eq)
  with Cons show ?thesis by auto
qed auto

lemma lang_Plus_Cls [simp]:
  "s \<in> lang (Plus (Cls rs)) \<longleftrightarrow> s \<noteq> [] \<and> list_all (\<lambda>c. in_ranges c rs) s"
  unfolding Plus_def lang_Cat_Cls lang_Star_Cls by (cases s) auto

lemma lang_Lit [simp]: "lang (Lit s) = {s}"
proof (induction s)
  case (Cons c s)
  have "in_ranges x [(c, c)] \<longleftrightarrow> x = c" for x
    by (auto simp: in_ranges_def)
  then have "w \<in> lang (Lit (c # s)) \<longleftrightarrow> w = c # s" for w
    by (cases w) (simp_all only: Lit.simps lang_Cat_Cls Cons.IH singleton_iff list.sel list.inject
        list.distinct simp_thms)
  then show ?case by blast
qed simp

lemma lang_Opt [simp]: "lang (Opt r) = insert [] (lang r)"
  by (auto simp: Opt_def)

lemma lang_Rep_Cls [simp]:
  "s \<in> lang (Rep n (Cls rs)) \<longleftrightarrow> length s = n \<and> list_all (\<lambda>c. in_ranges c rs) s"
proof (induction n arbitrary: s)
  case 0
  then show ?case by auto
next
  case (Suc n)
  then show ?case by (cases s) (auto simp: lang_Cat_Cls simp del: lang.simps(5))
qed

text \<open>A first class followed by a starred class: the shape of most of the program's expressions.\<close>

lemma matches_head_star:
  "matches (Cat (Cls rs) (Star (Cls ss))) s \<longleftrightarrow>
     s \<noteq> [] \<and> in_ranges (hd s) rs \<and> list_all (\<lambda>c. in_ranges c ss) (tl s)"
  by (simp only: matches_lang lang_Cat_Cls lang_Star_Cls)

end
