(* ===== verification/Timestamp.thy ===== *)
theory Timestamp
  imports Prelude
begin

text \<open>
  \<^verbatim>\<open>Timestamp\<close> of \<^verbatim>\<open>step.go\<close>: the rendering of \<open>SOURCE_DATE_EPOCH\<close> that \<open>vmlinux\<close> embeds, with the parts of
  \<^verbatim>\<open>strconv\<close> and \<^verbatim>\<open>time\<close> it uses (\<open>ParseInt\<close> on 64 bits, the proleptic Gregorian calendar in UTC, the
  layout \<open>Mon Jan _2 15:04:05 MST 2006\<close>). The calendar is defined by counting off years and months
  and proved against the closed form \<open>days_before_year\<close>.
\<close>

section \<open>strconv.ParseInt(s, 10, 64)\<close>

definition is_digit :: "char \<Rightarrow> bool" where
  "is_digit c \<longleftrightarrow> 0x30 \<le> (code c :: nat) \<and> code c \<le> (0x39 :: nat)"

definition digits_val :: "string \<Rightarrow> nat" where
  "digits_val ds = foldl (\<lambda>n c. 10 * n + (code c - 0x30)) 0 ds"

definition parse_int64 :: "string \<Rightarrow> int option" where
  "parse_int64 s =
     (let neg = prefix ''-'' s;
          ds = (if prefix ''-'' s \<or> prefix ''+'' s then tl s else s);
          v = int (digits_val ds)
      in if ds = [] \<or> \<not> list_all is_digit ds then None
         else if neg then (if v \<le> 2 ^ 63 then Some (- v) else None)
         else (if v < 2 ^ 63 then Some v else None))"

section \<open>The calendar\<close>

definition leap :: "nat \<Rightarrow> bool" where
  "leap y \<longleftrightarrow> y mod 4 = 0 \<and> (y mod 100 \<noteq> 0 \<or> y mod 400 = 0)"

definition year_days :: "nat \<Rightarrow> nat" where
  "year_days y = (if leap y then 366 else 365)"

definition month_lengths :: "nat \<Rightarrow> nat list" where
  "month_lengths y = [31, if leap y then 29 else 28, 31, 30, 31, 30, 31, 31, 30, 31, 30, 31]"

lemma year_days_pos [simp]: "0 < year_days y" by (simp add: year_days_def)

text \<open>The year that day \<open>d\<close> (counted from 1 January of \<open>y\<close>) falls in, and the day of that year.\<close>

function split_year :: "nat \<Rightarrow> nat \<Rightarrow> nat \<times> nat" where
  "split_year y d = (if d < year_days y then (y, d) else split_year (Suc y) (d - year_days y))"
  by pat_completeness auto
termination
  by (relation "measure snd") (auto simp: year_days_def)

declare split_year.simps [simp del]

primrec split_month :: "nat list \<Rightarrow> nat \<Rightarrow> nat \<times> nat" where
  "split_month [] d = (0, d)"
| "split_month (l # ls) d =
     (if d < l then (0, d) else let (m, r) = split_month ls (d - l) in (Suc m, r))"

record civil =
  year :: nat
  month :: nat
  mday :: nat
  wday :: nat
  hour :: nat
  minute :: nat
  second :: nat

text \<open>\<^verbatim>\<open>time.Unix(sec, 0).UTC()\<close> for a non-negative \<open>sec\<close>; months and days count from 0.\<close>

definition civil_of :: "nat \<Rightarrow> civil" where
  "civil_of sec =
     (let days = sec div 86400; s = sec mod 86400;
          (y, yd) = split_year 1970 days;
          (m, d) = split_month (month_lengths y) yd
      in \<lparr>year = y, month = m, mday = d, wday = (days + 4) mod 7,
          hour = s div 3600, minute = s div 60 mod 60, second = s mod 60\<rparr>)"

section \<open>The layout\<close>

definition digit :: "nat \<Rightarrow> char" where
  "digit n = ''0123456789'' ! (n mod 10)"

definition pad2 :: "nat \<Rightarrow> string" where
  "pad2 n = [digit (n div 10), digit n]"

definition space2 :: "nat \<Rightarrow> string" where
  "space2 n = [if n < 10 then CHR '' '' else digit (n div 10), digit n]"

definition pad4 :: "nat \<Rightarrow> string" where
  "pad4 n = [digit (n div 1000), digit (n div 100), digit (n div 10), digit n]"

definition day_names :: "string list" where
  "day_names = [''Sun'', ''Mon'', ''Tue'', ''Wed'', ''Thu'', ''Fri'', ''Sat'']"

definition month_names :: "string list" where
  "month_names = [''Jan'', ''Feb'', ''Mar'', ''Apr'', ''May'', ''Jun'',
                  ''Jul'', ''Aug'', ''Sep'', ''Oct'', ''Nov'', ''Dec'']"

definition format_date :: "civil \<Rightarrow> string" where
  "format_date t =
     day_names ! wday t @ '' '' @ month_names ! month t @ '' '' @ space2 (Suc (mday t)) @ '' '' @
     pad2 (hour t) @ '':'' @ pad2 (minute t) @ '':'' @ pad2 (second t) @ '' UTC '' @ pad4 (year t)"

section \<open>Timestamp\<close>

datatype ts_error = TsParse string | TsRange string

definition Timestamp :: "string \<Rightarrow> (ts_error, string) result" where
  "Timestamp epoch =
     (case parse_int64 epoch of
        None \<Rightarrow> Inl (TsParse epoch)
      | Some sec \<Rightarrow>
          if sec < 0 then Inl (TsRange epoch)
          else let ts = civil_of (nat sec)
               in if year ts > 9999 then Inl (TsRange epoch) else Inr (format_date ts))"

text \<open>The first instant of the year 10000.\<close>

definition epoch_limit :: int where
  "epoch_limit = 253402300800"

section \<open>The calendar is right\<close>

definition days_before_year :: "nat \<Rightarrow> nat" where
  "days_before_year y = (let n = y - 1 in 365 * y + n div 4 - n div 100 + n div 400)"

lemma days_before_Suc:
  assumes "0 < y"
  shows "days_before_year (Suc y) = days_before_year y + year_days y"
proof -
  from assms obtain n where y: "y = Suc n" by (cases y) auto
  have le: "n div 100 \<le> n div 4" by (simp add: div_le_mono2)
  have m: "Suc n mod 400 = 0 \<Longrightarrow> Suc n mod 100 = 0" "Suc n mod 100 = 0 \<Longrightarrow> Suc n mod 4 = 0"
    by (auto simp: mod_eq_0_iff_dvd elim: dvd_trans [rotated])
  show ?thesis
    using le m unfolding y days_before_year_def year_days_def leap_def
    by (auto simp: Let_def div_Suc ac_simps)
qed

lemma split_year_spec:
  assumes "0 < y"
  shows "case split_year y d of (y', d') \<Rightarrow>
    y \<le> y' \<and> d' < year_days y' \<and> days_before_year y' + d' = days_before_year y + d"
  using assms
proof (induction y d rule: split_year.induct)
  case (1 y d)
  show ?case
  proof (cases "d < year_days y")
    case True
    then show ?thesis by (subst split_year.simps) simp
  next
    case False
    with 1 show ?thesis by (subst split_year.simps) (auto simp: days_before_Suc split: prod.splits)
  qed
qed

lemma days_before_mono: "0 < y \<Longrightarrow> y \<le> y' \<Longrightarrow> days_before_year y \<le> days_before_year y'"
proof (induction y' arbitrary: y)
  case (Suc y')
  then show ?case by (cases "y = Suc y'") (auto simp: days_before_Suc intro: trans_le_add1)
qed simp

lemma days_before_1970: "days_before_year 1970 = 719527" and
  days_before_10000: "days_before_year 10000 = 3652424"
  by (simp_all add: days_before_year_def)

lemma split_month_spec:
  assumes "d < sum_list ls" and "split_month ls d = (m, r)"
  shows "m < length ls \<and> r < ls ! m \<and> sum_list (take m ls) + r = d"
  using assms
proof (induction ls arbitrary: d m r)
  case (Cons l ls)
  show ?case
  proof (cases "d < l")
    case True
    with Cons.prems show ?thesis by simp
  next
    case False
    with Cons.prems obtain m' where "m = Suc m'" "split_month ls (d - l) = (m', r)"
      by (auto split: prod.splits)
    moreover have "d - l < sum_list ls" using False Cons.prems by auto
    ultimately have "m' < length ls \<and> r < ls ! m' \<and> sum_list (take m' ls) + r = d - l"
      by (intro Cons.IH)
    with False \<open>m = Suc m'\<close> show ?thesis by auto
  qed
qed simp

lemma sum_month_lengths: "sum_list (month_lengths y) = year_days y"
  by (simp add: month_lengths_def year_days_def)

lemma length_month_lengths [simp]: "length (month_lengths y) = 12"
  by (simp add: month_lengths_def)

text \<open>The seconds a civil date names: the left inverse of \<open>civil_of\<close>.\<close>

definition seconds_of :: "civil \<Rightarrow> nat" where
  "seconds_of t =
     (days_before_year (year t) + (sum_list (take (month t) (month_lengths (year t))) + mday t)
      - days_before_year 1970) * 86400
     + hour t * 3600 + minute t * 60 + second t"

definition civil_ok :: "civil \<Rightarrow> bool" where
  "civil_ok t \<longleftrightarrow> 1970 \<le> year t \<and> month t < 12 \<and> mday t < month_lengths (year t) ! month t \<and>
     wday t < 7 \<and> hour t < 24 \<and> minute t < 60 \<and> second t < 60"

lemma hms_recombine: "s div 3600 * 3600 + s div 60 mod 60 * 60 + s mod 60 = (s :: nat)"
proof -
  have "s div 3600 = s div 60 div 60" by (simp add: div_mult2_eq [symmetric])
  moreover have "60 * (s div 60) + s mod 60 = s" by simp
  moreover have "60 * (s div 60 div 60) + s div 60 mod 60 = s div 60" by simp
  ultimately show ?thesis by linarith
qed

lemma civil_of_spec: "civil_ok (civil_of sec) \<and> seconds_of (civil_of sec) = sec"
proof -
  obtain y yd where y: "split_year 1970 (sec div 86400) = (y, yd)" by fastforce
  obtain m d where m: "split_month (month_lengths y) yd = (m, d)" by fastforce
  from split_year_spec [of 1970 "sec div 86400"] y
  have y1: "1970 \<le> y" "yd < year_days y" "days_before_year y + yd = 719527 + sec div 86400"
    by (simp_all add: days_before_1970)
  from split_month_spec [OF _ m] y1
  have m1: "m < 12" "d < month_lengths y ! m" "sum_list (take m (month_lengths y)) + d = yd"
    by (simp_all add: sum_month_lengths)
  have "days_before_year y + (sum_list (take m (month_lengths y)) + d) - 719527 = sec div 86400"
    using y1 m1 by simp
  moreover have "sec mod 86400 div 3600 < 24" by (simp add: less_mult_imp_div_less)
  moreover have "sec div 86400 * 86400 + (sec mod 86400 div 3600 * 3600
      + sec mod 86400 div 60 mod 60 * 60 + sec mod 86400 mod 60) = sec"
    unfolding hms_recombine by simp
  ultimately show ?thesis
    using y1(1) m1(1,2)
    by (simp add: civil_of_def y m civil_ok_def seconds_of_def days_before_1970 Let_def)
qed

lemmas civil_of_ok = civil_of_spec [THEN conjunct1]
lemmas seconds_of_civil = civil_of_spec [THEN conjunct2]

lemma year_limit: "year (civil_of n) > 9999 \<longleftrightarrow> 253402300800 \<le> n"
proof -
  obtain y yd where y: "split_year 1970 (n div 86400) = (y, yd)" by fastforce
  then have yr: "year (civil_of n) = y" by (simp add: civil_of_def Let_def split: prod.splits)
  from split_year_spec [of 1970 "n div 86400"] y
  have y1: "1970 \<le> y" "yd < year_days y" "days_before_year y + yd = 719527 + n div 86400"
    by (simp_all add: days_before_1970)
  have "10000 \<le> y \<longleftrightarrow> 2932897 \<le> n div 86400"
  proof
    assume "10000 \<le> y"
    then show "2932897 \<le> n div 86400"
      using days_before_mono [of 10000 y] y1 by (simp add: days_before_10000)
  next
    assume "2932897 \<le> n div 86400"
    then have "days_before_year 10000 < days_before_year (Suc y)"
      using y1 by (simp add: days_before_10000 days_before_Suc)
    moreover have "days_before_year (Suc y) \<le> days_before_year 10000" if "\<not> 10000 \<le> y"
      using that by (intro days_before_mono) simp_all
    ultimately show "10000 \<le> y" by fastforce
  qed
  then show ?thesis unfolding yr by linarith
qed

section \<open>The layout loses nothing\<close>

lemma digit_eq_iff [simp]: "digit m = digit n \<longleftrightarrow> m mod 10 = n mod 10"
  unfolding digit_def by (subst nth_eq_iff_index_eq) simp_all

lemma digit_not_space [simp]: "digit n \<noteq> CHR '' ''"
proof -
  have "digit n \<in> set ''0123456789''" unfolding digit_def by (rule nth_mem) simp
  then show ?thesis by auto
qed

lemma join_digit: "m div 10 = n div 10 \<Longrightarrow> m mod 10 = n mod 10 \<Longrightarrow> m = (n :: nat)"
  by (metis div_mult_mod_eq)

lemma top_digit: "m < 10 * k \<Longrightarrow> n < 10 * k \<Longrightarrow> m div k mod 10 = n div k mod 10 \<Longrightarrow> m div k = n div (k :: nat)"
  by (simp add: less_mult_imp_div_less mult.commute)

lemma two_digits:
  fixes m n :: nat
  assumes "m div 10 mod 10 = n div 10 mod 10" "m mod 10 = n mod 10" "m < 100" "n < 100"
  shows "m = n"
proof (rule join_digit)
  show "m div 10 = n div 10" by (rule top_digit) (use assms in simp_all)
qed (rule assms(2))

lemma pad2_inject: "m < 100 \<Longrightarrow> n < 100 \<Longrightarrow> pad2 m = pad2 n \<Longrightarrow> m = n"
  by (rule two_digits) (simp_all add: pad2_def)

lemma space2_inject:
  assumes "m < 100" "n < 100" "space2 m = space2 n"
  shows "m = n"
proof (rule two_digits)
  show "m div 10 mod 10 = n div 10 mod 10"
    using assms(3) digit_not_space [of "m div 10"] digit_not_space [of "n div 10"]
    unfolding space2_def by (cases "m < 10"; cases "n < 10") (auto simp del: digit_not_space)
qed (use assms in \<open>simp_all add: space2_def\<close>)

lemma pad4_inject:
  assumes "m < 10000" "n < 10000" "pad4 m = pad4 n"
  shows "m = n"
proof -
  have d: "m div 1000 mod 10 = n div 1000 mod 10" "m div 100 mod 10 = n div 100 mod 10"
    "m div 10 mod 10 = n div 10 mod 10" "m mod 10 = n mod 10"
    using assms(3) by (simp_all add: pad4_def)
  have "m div 1000 = n div 1000" by (rule top_digit [OF _ _ d(1)]) (use assms in simp_all)
  then have "m div 100 = n div 100" by (intro join_digit [OF _ d(2)]) (simp add: div_mult2_eq [symmetric])
  then have "m div 10 = n div 10" by (intro join_digit [OF _ d(3)]) (simp add: div_mult2_eq [symmetric])
  then show ?thesis by (rule join_digit [OF _ d(4)])
qed

lemma nth_names_inject:
  "i < 12 \<Longrightarrow> j < 12 \<Longrightarrow> month_names ! i = month_names ! j \<Longrightarrow> i = j"
proof -
  have "distinct month_names" "length month_names = 12" by (simp_all add: month_names_def)
  then show "i < 12 \<Longrightarrow> j < 12 \<Longrightarrow> month_names ! i = month_names ! j \<Longrightarrow> i = j"
    by (simp add: nth_eq_iff_index_eq)
qed

lemma length_names:
  "i < 7 \<Longrightarrow> length (day_names ! i) = 3" "j < 12 \<Longrightarrow> length (month_names ! j) = 3"
  by (auto simp: day_names_def month_names_def less_Suc_eq numeral_eq_Suc)

lemma month_length_le: "m < 12 \<Longrightarrow> month_lengths y ! m \<le> 31"
  by (auto simp: month_lengths_def less_Suc_eq numeral_eq_Suc)

lemma format_date_fields:
  assumes "format_date t = format_date u" "civil_ok t" "civil_ok u" "year t \<le> 9999" "year u \<le> 9999"
  shows "month t = month u \<and> mday t = mday u \<and> hour t = hour u \<and> minute t = minute u \<and>
    second t = second u \<and> year t = year u"
proof -
  note ok = assms(2,3) [unfolded civil_ok_def]
  have len: "length (day_names ! wday t) = length (day_names ! wday u)"
    "length (month_names ! month t) = length (month_names ! month u)"
    "length (space2 a) = length (space2 b)" "length (pad2 a) = length (pad2 b)" for a b
    using ok by (simp_all add: length_names space2_def pad2_def)
  from assms(1) len
  have eq: "month_names ! month t = month_names ! month u" "space2 (Suc (mday t)) = space2 (Suc (mday u))"
    "pad2 (hour t) = pad2 (hour u)" "pad2 (minute t) = pad2 (minute u)"
    "pad2 (second t) = pad2 (second u)" "pad4 (year t) = pad4 (year u)"
    by (simp_all add: format_date_def)
  have "mday t < 31" "mday u < 31"
    using ok month_length_le [of "month t" "year t"] month_length_le [of "month u" "year u"] by simp_all
  then show ?thesis
    using ok assms(4,5) nth_names_inject [OF _ _ eq(1)] space2_inject [OF _ _ eq(2)]
      pad2_inject [OF _ _ eq(3)] pad2_inject [OF _ _ eq(4)] pad2_inject [OF _ _ eq(5)]
      pad4_inject [OF _ _ eq(6)] by simp
qed

lemma format_date_inject:
  assumes "format_date (civil_of m) = format_date (civil_of n)"
    "year (civil_of m) \<le> 9999" "year (civil_of n) \<le> 9999"
  shows "m = n"
proof -
  have "seconds_of (civil_of m) = seconds_of (civil_of n)"
    using format_date_fields [OF assms(1) civil_of_ok civil_of_ok assms(2,3)]
    by (simp add: seconds_of_def)
  then show ?thesis by (simp add: seconds_of_civil)
qed

lemma year_out_of_range: "0 \<le> sec \<Longrightarrow> 9999 < year (civil_of (nat sec)) \<longleftrightarrow> epoch_limit \<le> sec"
  using year_limit [of "nat sec"] by (auto simp: epoch_limit_def)

lemma Timestamp_Inr_iff:
  "Timestamp e = Inr t \<longleftrightarrow>
     (\<exists>sec. parse_int64 e = Some sec \<and> 0 \<le> sec \<and> sec < epoch_limit \<and> t = format_date (civil_of (nat sec)))"
  by (auto simp: Timestamp_def Let_def year_out_of_range split: option.splits if_splits)

lemma same_timestamp_same_second:
  assumes "Timestamp e1 = Inr t" and "Timestamp e2 = Inr t"
  shows "parse_int64 e1 = parse_int64 e2"
proof -
  from assms obtain m n where
    "parse_int64 e1 = Some m" "parse_int64 e2 = Some n" "0 \<le> m" "0 \<le> n"
    "m < epoch_limit" "n < epoch_limit"
    "format_date (civil_of (nat m)) = format_date (civil_of (nat n))"
    by (auto simp: Timestamp_Inr_iff)
  moreover from this have "year (civil_of (nat m)) \<le> 9999" "year (civil_of (nat n)) \<le> 9999"
    using year_out_of_range [of m] year_out_of_range [of n] by simp_all
  ultimately show ?thesis using format_date_inject by fastforce
qed

text \<open>
  \<open>Timestamp\<close> accepts exactly the decimal seconds from 1970 up to the end of the year 9999: it
  never rejects an instant of that range and never renders one outside it.
\<close>

theorem Timestamp_domain:
  "is_ok (Timestamp epoch) \<longleftrightarrow>
     (\<exists>sec. parse_int64 epoch = Some sec \<and> 0 \<le> sec \<and> sec < epoch_limit)"
  by (auto simp: is_ok_iff Timestamp_Inr_iff)

text \<open>
  Two epochs that render to the same build timestamp denote the same second: the string
  embedded in \<open>vmlinux\<close> determines the epoch.
\<close>

theorem Timestamp_injective:
  assumes "Timestamp e1 = Inr t" and "Timestamp e2 = Inr t"
  shows "parse_int64 e1 = parse_int64 e2"
  using assms by (rule same_timestamp_same_second)

lemmas Timestamp_eval = Timestamp_def parse_int64_def is_digit_def digits_val_def civil_of_def
  split_year.simps year_days_def leap_def month_lengths_def format_date_def day_names_def
  month_names_def space2_def pad2_def pad4_def digit_def Let_def

lemma Timestamp_default: "Timestamp ''1785542400'' = Inr ''Sat Aug  1 00:00:00 UTC 2026''"
  by (simp add: Timestamp_eval)

lemma parse_int64_plus: "parse_int64 ''+1785542400'' = parse_int64 ''1785542400''"
  by (simp add: parse_int64_def is_digit_def)

theorem Timestamp_injective_witness:
  "Timestamp ''1785542400'' = Inr ''Sat Aug  1 00:00:00 UTC 2026'' \<and>
   Timestamp ''+1785542400'' = Inr ''Sat Aug  1 00:00:00 UTC 2026'' \<and>
   parse_int64 ''1785542400'' = parse_int64 ''+1785542400''"
proof -
  have b: "Timestamp ''+1785542400'' = Inr ''Sat Aug  1 00:00:00 UTC 2026''"
    using Timestamp_default unfolding Timestamp_Inr_iff parse_int64_plus .
  from Timestamp_default b Timestamp_injective [OF Timestamp_default b] show ?thesis by simp
qed

end
