(* ===== verification/BuildSpec.thy ===== *)
theory BuildSpec
  imports Regexp Timestamp
begin

text \<open>
  \<^verbatim>\<open>spec.go\<close>: the \<^verbatim>\<open>Spec\<close> that describes a kernel build, its regular expressions and \<^verbatim>\<open>Validate\<close>, the
  defaults of \<^verbatim>\<open>llb.go\<close> that depend on the spec alone (\<open>archOrDefault\<close>, \<open>crossOrDefault\<close>,
  \<open>targetsOrDefault\<close>), \<^verbatim>\<open>SourceURLFor\<close>, \<^verbatim>\<open>SourceExt\<close> and \<^verbatim>\<open>DefaultSpec\<close>. The theorems say what a validated
  spec guarantees to the code that interpolates it: single printable tokens, no path traversal, no
  make flag or variable, canonical epochs.
\<close>

section \<open>The build description\<close>

record spec =
  Base :: string
  KernelVersion :: string
  SourceURL :: string
  SourceSHA256 :: string
  SourceLocalName :: string
  SourceDateEpoch :: string
  ConfigName :: string
  ExpectName :: string
  BaseMake :: string
  ApplyPatches :: bool
  HTTPSProxy :: string
  HTTPProxy :: string
  NoProxy :: string
  ToolchainReady :: bool
  Arch :: string
  CrossCompile :: string
  Targets :: "string list"
  ProxyCAFile :: string
  HelperRef :: string
  NetworkHost :: bool
  IgnoreCache :: bool
  SeedURL :: string
  SeedRegion :: string
  SeedPrefix :: string
  SeedPush :: bool

section \<open>Regular expressions\<close>

definition single :: "string \<Rightarrow> ranges" where
  "single cs = map (\<lambda>c. (c, c)) cs"

definition digit_range :: ranges where
  "digit_range = [(CHR ''0'', CHR ''9'')]"

definition alnum :: ranges where
  "alnum = [(CHR ''A'', CHR ''Z''), (CHR ''a'', CHR ''z''), (CHR ''0'', CHR ''9'')]"

definition visible :: ranges where
  "visible = [(CHR 0x21, CHR 0x7E)]"

text \<open>\<open>^[0-9]+\.[0-9]+(\.[0-9]+)?(-rc[0-9]+)?$\<close>\<close>

definition versionRe :: rexp where
  "versionRe =
     (let ds = Plus (Cls digit_range)
      in Cat ds (Cat (Lit ''.'') (Cat ds (Cat (Opt (Cat (Lit ''.'') ds)) (Opt (Cat (Lit ''-rc'') ds))))))"

text \<open>\<open>^[A-Za-z0-9][A-Za-z0-9._/-]*$\<close>\<close>

definition fileRe :: rexp where
  "fileRe = Cat (Cls alnum) (Star (Cls (alnum @ single ''._/-'')))"

definition prefixRe :: rexp where
  "prefixRe = Cat (Cls alnum) (Star (Cls (alnum @ single ''._/-'')))"

text \<open>\<open>^[0-9a-f]{64}$\<close>\<close>

definition sha256Re :: rexp where
  "sha256Re = Rep 64 (Cls (digit_range @ [(CHR ''a'', CHR ''f'')]))"

text \<open>\<open>^[A-Za-z0-9][A-Za-z0-9._-]*$\<close>\<close>

definition baseMakeRe :: rexp where
  "baseMakeRe = Cat (Cls alnum) (Star (Cls (alnum @ single ''._-'')))"

text \<open>\<open>^[A-Za-z0-9_.-]+-$\<close>\<close>

definition crossRe :: rexp where
  "crossRe = Cat (Plus (Cls (alnum @ single ''_.-''))) (Lit ''-'')"

text \<open>\<open>^(0|[1-9][0-9]*)$\<close>\<close>

definition epochRe :: rexp where
  "epochRe = Alt (Lit ''0'') (Cat (Cls [(CHR ''1'', CHR ''9'')]) (Star (Cls digit_range)))"

text \<open>\<open>^https://[A-Za-z0-9._~:/?#@!$&'()*+,;=%[\]-]+$\<close>\<close>

definition seedURLRe :: rexp where
  "seedURLRe = Cat (Lit ''https://'')
     (Plus (Cls (alnum @ single (''._~:/?#@!$&'' @ [CHR 0x27] @ ''()*+,;=%[]-''))))"

text \<open>\<open>^[A-Za-z0-9][A-Za-z0-9._:/@-]*$\<close>\<close>

definition imageRefRe :: rexp where
  "imageRefRe = Cat (Cls alnum) (Star (Cls (alnum @ single ''._:/@-'')))"

text \<open>\<open>^[a-z][a-z0-9+.-]*://[\x21-\x7e]+$\<close>\<close>

definition proxyRe :: rexp where
  "proxyRe = Cat (Cls [(CHR ''a'', CHR ''z'')])
     (Cat (Star (Cls ([(CHR ''a'', CHR ''z''), (CHR ''0'', CHR ''9'')] @ single ''+.-'')))
       (Cat (Lit ''://'') (Plus (Cls visible))))"

definition noProxyRe :: rexp where
  "noProxyRe = Star (Cls visible)"

definition tokenRe :: rexp where
  "tokenRe = Plus (Cls visible)"

section \<open>Derived values\<close>

definition archOrDefault :: "spec \<Rightarrow> string" where
  "archOrDefault s = (if Arch s = [] then ''x86_64'' else Arch s)"

definition crossOrDefault :: "spec \<Rightarrow> string" where
  "crossOrDefault s =
     (if CrossCompile s \<noteq> [] \<or> archOrDefault s = ''x86_64'' then CrossCompile s
      else if archOrDefault s = ''arm64'' then ''aarch64-linux-gnu-'' else [])"

definition targetsOrDefault :: "spec \<Rightarrow> string list" where
  "targetsOrDefault s =
     (if Targets s \<noteq> [] then Targets s
      else if archOrDefault s = ''arm64'' then [''vmlinux'', ''image''] else [''vmlinux''])"

datatype spec_error =
    EVersion string | EConfig string | EExpect string | EBaseMake string | ESrcName string
  | EEpoch string | ETimestamp ts_error | ENotHttps string | EUrlToken string | ESourceExt string
  | ESha string | ESeedUnpinned | ESeedURL string | ESeedPrefix string | ESeedRegion string
  | EProxy string string | ENoProxy string | EProxyCA string | EHelperRef string | EBase string
  | EArm64NotReady | EArch string | ECross string | ETarget string

text \<open>\<^verbatim>\<open>SourceExt\<close>: the first supported extension the name ends in.\<close>

definition SourceExt :: "string \<Rightarrow> (spec_error, string) result" where
  "SourceExt name =
     (case find (\<lambda>ext. has_suffix name (''.tar'' @ ext)) [''.gz'', ''.xz'', ''.zst''] of
        Some ext \<Rightarrow> Inr ext
      | None \<Rightarrow> Inl (ESourceExt name))"

definition SourceURLFor :: "string \<Rightarrow> string" where
  "SourceURLFor version =
     (if contains version ''-rc''
      then ''https://git.kernel.org/torvalds/t/linux-'' @ version @ ''.tar.gz''
      else let major = fst (str_cut version (CHR ''.''))
           in ''https://cdn.kernel.org/pub/linux/kernel/v'' @ major @ ''.x/linux-'' @ version @ ''.tar.gz'')"

section \<open>Validate\<close>

text \<open>A Go \<^verbatim>\<open>error\<close> that may be nil is an option; \<open>first_error\<close> is a sequence of early returns.\<close>

fun first_error :: "'e option list \<Rightarrow> 'e option" where
  "first_error [] = None"
| "first_error (None # es) = first_error es"
| "first_error (Some e # es) = Some e"

definition require :: "bool \<Rightarrow> 'e \<Rightarrow> 'e option" where
  "require ok e = (if ok then None else Some e)"

definition err_of :: "('e, 'a) result \<Rightarrow> 'e option" where
  "err_of m = (case m of Inl e \<Rightarrow> Some e | Inr _ \<Rightarrow> None)"

definition no_dotdot :: "string \<Rightarrow> bool" where
  "no_dotdot s \<longleftrightarrow> \<not> contains s ''..''"

definition known_targets :: "string list" where
  "known_targets = [''vmlinux'', ''image'', ''modules'', ''config'', ''kconfigs'']"

text \<open>The source is either a URL or a file of the \<open>src\<close> local.\<close>

definition source_errors :: "spec \<Rightarrow> spec_error option list" where
  "source_errors s =
     (if SourceLocalName s = []
      then [require (has_prefix (SourceURL s) ''https://'') (ENotHttps (SourceURL s)),
            require (matches tokenRe (SourceURL s)) (EUrlToken (SourceURL s)),
            err_of (SourceExt (SourceURL s))]
      else [err_of (SourceExt (SourceLocalName s))])"

definition seed_errors :: "spec \<Rightarrow> spec_error option list" where
  "seed_errors s =
     (if SeedURL s \<noteq> []
      then [require (matches seedURLRe (SeedURL s)) (ESeedURL (SeedURL s)),
            require (matches prefixRe (SeedPrefix s) \<and> no_dotdot (SeedPrefix s)) (ESeedPrefix (SeedPrefix s)),
            require (SeedRegion s = [] \<or> matches fileRe (SeedRegion s)) (ESeedRegion (SeedRegion s))]
      else [])"

definition arch_error :: "spec \<Rightarrow> spec_error option" where
  "arch_error s =
     (if archOrDefault s = ''x86_64'' then None
      else if archOrDefault s = ''arm64'' then require (ToolchainReady s) EArm64NotReady
      else Some (EArch (Arch s)))"

definition Validate :: "spec \<Rightarrow> spec_error option" where
  "Validate s = first_error (
     [require (matches versionRe (KernelVersion s)) (EVersion (KernelVersion s)),
      require (matches fileRe (ConfigName s) \<and> no_dotdot (ConfigName s)) (EConfig (ConfigName s)),
      require (ExpectName s = [] \<or> matches fileRe (ExpectName s) \<and> no_dotdot (ExpectName s))
        (EExpect (ExpectName s))]
     @ map (\<lambda>tok. require (matches baseMakeRe tok \<and> no_dotdot tok) (EBaseMake tok)) (str_fields (BaseMake s))
     @ [require (SourceLocalName s = [] \<or> matches fileRe (SourceLocalName s) \<and> no_dotdot (SourceLocalName s))
          (ESrcName (SourceLocalName s)),
        require (matches epochRe (SourceDateEpoch s)) (EEpoch (SourceDateEpoch s)),
        map_option ETimestamp (err_of (Timestamp (SourceDateEpoch s)))]
     @ source_errors s
     @ [require (SourceSHA256 s = [] \<or> matches sha256Re (SourceSHA256 s)) (ESha (SourceSHA256 s)),
        require (\<not> (SeedPush s \<and> SourceLocalName s = [] \<and> SourceSHA256 s = [])) ESeedUnpinned]
     @ seed_errors s
     @ [require (HTTPSProxy s = [] \<or> matches proxyRe (HTTPSProxy s)) (EProxy ''https-proxy'' (HTTPSProxy s)),
        require (HTTPProxy s = [] \<or> matches proxyRe (HTTPProxy s)) (EProxy ''http-proxy'' (HTTPProxy s)),
        require (matches noProxyRe (NoProxy s)) (ENoProxy (NoProxy s)),
        require (ProxyCAFile s = [] \<or> matches fileRe (ProxyCAFile s) \<and> no_dotdot (ProxyCAFile s)
            \<and> \<not> contains (ProxyCAFile s) ''/'') (EProxyCA (ProxyCAFile s)),
        require (HelperRef s = [] \<or> matches imageRefRe (HelperRef s) \<and> no_dotdot (HelperRef s))
          (EHelperRef (HelperRef s)),
        require (matches imageRefRe (Base s) \<and> no_dotdot (Base s)) (EBase (Base s)),
        arch_error s,
        require (CrossCompile s = [] \<or> matches crossRe (CrossCompile s) \<and> no_dotdot (CrossCompile s))
          (ECross (CrossCompile s))]
     @ map (\<lambda>t. require (t \<in> set known_targets) (ETarget t)) (Targets s))"

section \<open>DefaultSpec\<close>

definition defaultBaseDigest :: string where
  "defaultBaseDigest = ''sha256:33ceb71981b602c1a7443a53469e4dba065f7503eab3078a2d7a57a2ab987517''"

definition zero_spec :: spec where
  "zero_spec = \<lparr>Base = [], KernelVersion = [], SourceURL = [], SourceSHA256 = [], SourceLocalName = [],
     SourceDateEpoch = [], ConfigName = [], ExpectName = [], BaseMake = [], ApplyPatches = False,
     HTTPSProxy = [], HTTPProxy = [], NoProxy = [], ToolchainReady = False, Arch = [], CrossCompile = [],
     Targets = [], ProxyCAFile = [], HelperRef = [], NetworkHost = False, IgnoreCache = False,
     SeedURL = [], SeedRegion = [], SeedPrefix = [], SeedPush = False\<rparr>"

definition DefaultSpec :: spec where
  "DefaultSpec = zero_spec\<lparr>
     Base := ''docker.io/library/ubuntu:24.04@'' @ defaultBaseDigest,
     KernelVersion := ''6.18.20'',
     SourceSHA256 := ''a1415e257075c2fadf070f44bbb029469efbde5b6cf07d1433fe72207acff03c'',
     SourceURL := SourceURLFor ''6.18.20'',
     SourceDateEpoch := ''1785542400'',
     ConfigName := ''kernel.config'',
     SeedPrefix := ''kbuild-seed''\<rparr>"

section \<open>What validation gives\<close>

lemma first_error_None: "first_error es = None \<longleftrightarrow> list_all (\<lambda>e. e = None) es"
  by (induction es rule: first_error.induct) auto

lemma first_error_append: "first_error (es @ fs) = (case first_error es of None \<Rightarrow> first_error fs | Some e \<Rightarrow> Some e)"
  by (induction es rule: first_error.induct) auto

lemma require_None [simp]: "require ok e = None \<longleftrightarrow> ok"
  by (simp add: require_def)

lemma err_of_None [simp]: "err_of m = None \<longleftrightarrow> is_ok m"
  by (cases m) (auto simp: err_of_def)

lemma source_errors_None:
  "list_all (\<lambda>e. e = None) (source_errors s) \<longleftrightarrow>
     (if SourceLocalName s = []
      then has_prefix (SourceURL s) ''https://'' \<and> matches tokenRe (SourceURL s) \<and> is_ok (SourceExt (SourceURL s))
      else is_ok (SourceExt (SourceLocalName s)))"
  by (simp add: source_errors_def)

lemma seed_errors_None:
  "list_all (\<lambda>e. e = None) (seed_errors s) \<longleftrightarrow>
     (SeedURL s \<noteq> [] \<longrightarrow> matches seedURLRe (SeedURL s) \<and> matches prefixRe (SeedPrefix s) \<and>
        no_dotdot (SeedPrefix s) \<and> (SeedRegion s = [] \<or> matches fileRe (SeedRegion s)))"
  by (simp add: seed_errors_def)

lemma arch_error_None:
  "arch_error s = None \<longleftrightarrow>
     archOrDefault s = ''x86_64'' \<or> archOrDefault s = ''arm64'' \<and> ToolchainReady s"
  by (simp add: arch_error_def)

lemma Validate_None_iff:
  "Validate s = None \<longleftrightarrow>
     matches versionRe (KernelVersion s) \<and>
     (matches fileRe (ConfigName s) \<and> no_dotdot (ConfigName s)) \<and>
     (ExpectName s = [] \<or> matches fileRe (ExpectName s) \<and> no_dotdot (ExpectName s)) \<and>
     (\<forall>tok \<in> set (str_fields (BaseMake s)). matches baseMakeRe tok \<and> no_dotdot tok) \<and>
     (SourceLocalName s = [] \<or> matches fileRe (SourceLocalName s) \<and> no_dotdot (SourceLocalName s)) \<and>
     matches epochRe (SourceDateEpoch s) \<and> is_ok (Timestamp (SourceDateEpoch s)) \<and>
     list_all (\<lambda>e. e = None) (source_errors s) \<and>
     (SourceSHA256 s = [] \<or> matches sha256Re (SourceSHA256 s)) \<and>
     \<not> (SeedPush s \<and> SourceLocalName s = [] \<and> SourceSHA256 s = []) \<and>
     list_all (\<lambda>e. e = None) (seed_errors s) \<and>
     (HTTPSProxy s = [] \<or> matches proxyRe (HTTPSProxy s)) \<and>
     (HTTPProxy s = [] \<or> matches proxyRe (HTTPProxy s)) \<and>
     matches noProxyRe (NoProxy s) \<and>
     (ProxyCAFile s = [] \<or> matches fileRe (ProxyCAFile s) \<and> no_dotdot (ProxyCAFile s) \<and>
        \<not> contains (ProxyCAFile s) ''/'') \<and>
     (HelperRef s = [] \<or> matches imageRefRe (HelperRef s) \<and> no_dotdot (HelperRef s)) \<and>
     (matches imageRefRe (Base s) \<and> no_dotdot (Base s)) \<and>
     (archOrDefault s = ''x86_64'' \<or> archOrDefault s = ''arm64'' \<and> ToolchainReady s) \<and>
     (CrossCompile s = [] \<or> matches crossRe (CrossCompile s) \<and> no_dotdot (CrossCompile s)) \<and>
     (\<forall>t \<in> set (Targets s). t \<in> set known_targets)"
  unfolding Validate_def first_error_None arch_error_None [symmetric]
  by (simp only: list_all_append list.pred_inject list.pred_map o_def require_None err_of_None
      option.map_disc_iff simp_thms conj_assoc list_all_iff [of _ "str_fields _"] list_all_iff [of _ "Targets _"])

lemma valid_version: "Validate s = None \<Longrightarrow> matches versionRe (KernelVersion s)"
  and valid_config: "Validate s = None \<Longrightarrow> matches fileRe (ConfigName s) \<and> no_dotdot (ConfigName s)"
  and valid_expect: "Validate s = None \<Longrightarrow>
    ExpectName s = [] \<or> matches fileRe (ExpectName s) \<and> no_dotdot (ExpectName s)"
  and valid_base_make: "Validate s = None \<Longrightarrow> tok \<in> set (str_fields (BaseMake s)) \<Longrightarrow>
    matches baseMakeRe tok \<and> no_dotdot tok"
  and valid_src_name: "Validate s = None \<Longrightarrow>
    SourceLocalName s = [] \<or> matches fileRe (SourceLocalName s) \<and> no_dotdot (SourceLocalName s)"
  and valid_epoch: "Validate s = None \<Longrightarrow>
    matches epochRe (SourceDateEpoch s) \<and> is_ok (Timestamp (SourceDateEpoch s))"
  and valid_url: "Validate s = None \<Longrightarrow> SourceLocalName s = [] \<Longrightarrow>
    has_prefix (SourceURL s) ''https://'' \<and> matches tokenRe (SourceURL s) \<and> is_ok (SourceExt (SourceURL s))"
  and valid_local: "Validate s = None \<Longrightarrow> SourceLocalName s \<noteq> [] \<Longrightarrow> is_ok (SourceExt (SourceLocalName s))"
  and valid_sha: "Validate s = None \<Longrightarrow> SourceSHA256 s = [] \<or> matches sha256Re (SourceSHA256 s)"
  and valid_push: "Validate s = None \<Longrightarrow> SeedPush s \<Longrightarrow> SourceLocalName s = [] \<Longrightarrow> SourceSHA256 s \<noteq> []"
  and valid_seed: "Validate s = None \<Longrightarrow> SeedURL s \<noteq> [] \<Longrightarrow>
    matches seedURLRe (SeedURL s) \<and> matches prefixRe (SeedPrefix s) \<and> no_dotdot (SeedPrefix s) \<and>
    (SeedRegion s = [] \<or> matches fileRe (SeedRegion s))"
  and valid_https_proxy: "Validate s = None \<Longrightarrow> HTTPSProxy s = [] \<or> matches proxyRe (HTTPSProxy s)"
  and valid_http_proxy: "Validate s = None \<Longrightarrow> HTTPProxy s = [] \<or> matches proxyRe (HTTPProxy s)"
  and valid_no_proxy: "Validate s = None \<Longrightarrow> matches noProxyRe (NoProxy s)"
  and valid_proxy_ca: "Validate s = None \<Longrightarrow> ProxyCAFile s = [] \<or>
    matches fileRe (ProxyCAFile s) \<and> no_dotdot (ProxyCAFile s) \<and> \<not> contains (ProxyCAFile s) ''/''"
  and valid_helper: "Validate s = None \<Longrightarrow>
    HelperRef s = [] \<or> matches imageRefRe (HelperRef s) \<and> no_dotdot (HelperRef s)"
  and valid_base: "Validate s = None \<Longrightarrow> matches imageRefRe (Base s) \<and> no_dotdot (Base s)"
  and valid_arch: "Validate s = None \<Longrightarrow>
    archOrDefault s = ''x86_64'' \<or> archOrDefault s = ''arm64'' \<and> ToolchainReady s"
  and valid_cross: "Validate s = None \<Longrightarrow>
    CrossCompile s = [] \<or> matches crossRe (CrossCompile s) \<and> no_dotdot (CrossCompile s)"
  and valid_targets: "Validate s = None \<Longrightarrow> set (Targets s) \<subseteq> set known_targets"
  unfolding Validate_None_iff source_errors_None seed_errors_None by (simp_all add: subset_iff split: if_splits)

lemmas valid_dests = valid_version valid_config valid_expect valid_base_make valid_src_name valid_epoch
  valid_url valid_local valid_sha valid_push valid_seed valid_https_proxy valid_http_proxy
  valid_no_proxy valid_proxy_ca valid_helper valid_base valid_arch valid_cross valid_targets

text \<open>Every expression of the spec accepts printable tokens only.\<close>

lemmas re_defs = versionRe_def fileRe_def prefixRe_def sha256Re_def baseMakeRe_def crossRe_def epochRe_def
  seedURLRe_def imageRefRe_def proxyRe_def noProxyRe_def tokenRe_def

lemma alpha_Rep: "set (alpha (Rep n r)) \<subseteq> set (alpha r)"
  by (induction n) auto

lemma token_ranges_mono: "set rs \<subseteq> set ss \<Longrightarrow> token_ranges ss \<Longrightarrow> token_ranges rs"
  by (auto simp: token_ranges_def list_all_iff)

lemma re_tokens:
  "token_ranges (alpha versionRe)" "token_ranges (alpha fileRe)" "token_ranges (alpha prefixRe)"
  "token_ranges (alpha baseMakeRe)" "token_ranges (alpha crossRe)" "token_ranges (alpha epochRe)"
  "token_ranges (alpha seedURLRe)" "token_ranges (alpha imageRefRe)" "token_ranges (alpha proxyRe)"
  "token_ranges (alpha noProxyRe)" "token_ranges (alpha tokenRe)" "token_ranges (alpha sha256Re)"
proof -
  have "token_ranges (alpha (Cls (digit_range @ [(CHR ''a'', CHR ''f'')])))" by code_simp
  then show "token_ranges (alpha sha256Re)"
    unfolding sha256Re_def by (rule token_ranges_mono [OF alpha_Rep])
qed code_simp+

lemmas re_token = re_tokens [THEN matches_token [rotated]]

lemma first_alnum:
  assumes "matches (Cat (Cls alnum) r) s"
  shows "s \<noteq> [] \<and> in_ranges (hd s) alnum"
  using assms by (simp add: matches_lang lang_Cat_Cls del: lang.simps)

text \<open>A relative path below its root: a token that is not absolute and has no \<open>..\<close>.\<close>

definition rel_path :: "string \<Rightarrow> bool" where
  "rel_path p \<longleftrightarrow> p \<noteq> [] \<and> token p \<and> \<not> has_prefix p ''/'' \<and> \<not> contains p ''..''"

lemma in_alnum_not_slash: "in_ranges c alnum \<Longrightarrow> c \<noteq> CHR ''/'' \<and> c \<noteq> CHR ''-'' \<and> c \<noteq> CHR ''.''"
  by (auto simp: in_ranges_def alnum_def)

lemma file_rel_path: "matches fileRe p \<Longrightarrow> no_dotdot p \<Longrightarrow> rel_path p"
proof -
  assume p: "matches fileRe p" "no_dotdot p"
  then have "p \<noteq> []" "in_ranges (hd p) alnum" using first_alnum by (auto simp: fileRe_def)
  moreover have "token p" using p(1) by (rule re_token)
  ultimately show ?thesis
    using p(2) in_alnum_not_slash [of "hd p"] by (cases p) (auto simp: rel_path_def no_dotdot_def)
qed

text \<open>What make takes as a plain goal: not a flag, not a variable assignment, not a path.\<close>

definition make_target :: "string \<Rightarrow> bool" where
  "make_target t \<longleftrightarrow> t \<noteq> [] \<and> token t \<and> \<not> has_prefix t ''-'' \<and> CHR ''='' \<notin> set t \<and> CHR ''/'' \<notin> set t"

lemma version_token: "matches versionRe v \<Longrightarrow> token v"
  by (rule re_token)

lemma token_takeWhile: "token s \<Longrightarrow> token (takeWhile P s)"
  by (auto simp: token_def list_all_iff dest: set_takeWhileD)

lemma derived_url_valid:
  assumes "matches versionRe v"
  shows "has_prefix (SourceURLFor v) ''https://'' \<and> matches tokenRe (SourceURLFor v) \<and>
    SourceExt (SourceURLFor v) = Inr ''.gz''"
proof -
  have t: "token v" using assms by (rule version_token)
  have "token ''https://git.kernel.org/torvalds/t/linux-''" "token ''.x/linux-''" "token ''.tar.gz''"
    "token ''https://cdn.kernel.org/pub/linux/kernel/v''" by code_simp+
  with t have u: "token (SourceURLFor v)"
    unfolding SourceURLFor_def Let_def str_cut_def by (simp only: token_append token_takeWhile fst_conv split: if_splits) simp
  have "matches tokenRe (SourceURLFor v)"
    using u by (auto simp: matches_lang tokenRe_def token_def list_all_iff visible_def in_ranges_def printable_def
        SourceURLFor_def Let_def)
  moreover have "has_suffix (SourceURLFor v) ''.tar.gz''"
    by (auto simp: SourceURLFor_def Let_def suffix_def)
  ultimately show ?thesis
    by (auto simp: SourceURLFor_def Let_def SourceExt_def)
qed

subsection \<open>Canonical decimals\<close>

lemma digits_val_snoc [simp]: "digits_val (ds @ [d]) = 10 * digits_val ds + (code d - 0x30)"
  by (simp add: digits_val_def)

lemma digits_val_less: "list_all is_digit ds \<Longrightarrow> digits_val ds < 10 ^ length ds"
proof (induction ds rule: rev_induct)
  case Nil
  then show ?case by (simp add: digits_val_def)
next
  case (snoc d ds)
  then have "code d - 0x30 < (10::nat)" "digits_val ds < 10 ^ length ds" by (auto simp: is_digit_def)
  then show ?case by simp
qed

lemma digits_val_ge:
  "list_all is_digit ds \<Longrightarrow> 0x31 \<le> (code d :: nat) \<Longrightarrow> 10 ^ length ds \<le> digits_val (d # ds)"
proof (induction ds rule: rev_induct)
  case Nil
  then show ?case by (simp add: digits_val_def)
next
  case (snoc e ds)
  have "digits_val (d # ds @ [e]) = 10 * digits_val (d # ds) + (code e - 0x30)"
    using digits_val_snoc [of "d # ds" e] by simp
  with snoc show ?case by simp
qed

lemma decimal_step: "10 * a + x = 10 * b + y \<Longrightarrow> x < 10 \<Longrightarrow> y < 10 \<Longrightarrow> a = b \<and> x = (y :: nat)"
  by (metis div_mult_self4 div_less mod_mult_self4 mod_less add_0 add.right_neutral zero_neq_numeral)

lemma digits_val_inject:
  "length ds = length es \<Longrightarrow> list_all is_digit ds \<Longrightarrow> list_all is_digit es \<Longrightarrow>
   digits_val ds = digits_val es \<Longrightarrow> ds = es"
proof (induction ds arbitrary: es rule: rev_induct)
  case Nil
  then show ?case by simp
next
  case (snoc d ds)
  then obtain e es' where es: "es = es' @ [e]" by (cases es rule: rev_cases) auto
  have lt: "code d - 0x30 < (10::nat)" "code e - 0x30 < (10::nat)"
    using snoc.prems es by (auto simp: is_digit_def)
  have "10 * digits_val ds + (code d - 0x30) = 10 * digits_val es' + (code e - 0x30)"
    using snoc.prems es by simp
  from decimal_step [OF this lt]
  have "digits_val ds = digits_val es'" and "code d - 0x30 = (code e - 0x30 :: nat)" by simp_all
  moreover have "48 \<le> (code d :: nat)" "48 \<le> (code e :: nat)"
    using snoc.prems es by (auto simp: is_digit_def)
  with \<open>code d - 0x30 = (code e - 0x30 :: nat)\<close> have "(code d :: nat) = code e" by linarith
  ultimately show ?case using snoc es by simp
qed

definition canonical_decimal :: "string \<Rightarrow> bool" where
  "canonical_decimal ds \<longleftrightarrow> ds \<noteq> [] \<and> list_all is_digit ds \<and> (hd ds = CHR ''0'' \<longrightarrow> ds = ''0'')"

lemma canonical_length:
  assumes "canonical_decimal ds" "canonical_decimal es" "digits_val ds = digits_val es"
  shows "length ds = length es"
proof -
  have *: "length xs \<le> length ys" if "canonical_decimal xs" "canonical_decimal ys" "digits_val xs = digits_val ys" for xs ys
  proof (cases "xs = ''0''")
    case True
    with that show ?thesis by (cases ys) (auto simp: canonical_decimal_def)
  next
    case False
    with that obtain d ds where xs: "xs = d # ds" by (cases xs) (auto simp: canonical_decimal_def)
    with False that have "d \<noteq> CHR ''0''" "is_digit d" by (auto simp: canonical_decimal_def)
    then have "(code d :: nat) \<noteq> code (CHR ''0'')" by (simp only: of_char_eq_iff) simp
    with \<open>is_digit d\<close> have "0x31 \<le> (code d :: nat)" by (simp add: is_digit_def)
    then have "10 ^ length ds \<le> digits_val xs" using digits_val_ge [of ds d] that xs by (auto simp: canonical_decimal_def)
    also have "\<dots> < 10 ^ length ys" using that digits_val_less by (auto simp: canonical_decimal_def)
    finally show ?thesis using xs by simp
  qed
  from * [OF assms] * [OF assms(2,1) assms(3)[symmetric]] show ?thesis by simp
qed

lemma epochRe_canonical: "matches epochRe e \<Longrightarrow> canonical_decimal e"
proof -
  assume "matches epochRe e"
  then consider "e = ''0''" | "e \<noteq> []" "in_ranges (hd e) [(CHR ''1'', CHR ''9'')]"
      "list_all (\<lambda>c. in_ranges c digit_range) (tl e)"
    unfolding epochRe_def matches_lang by (auto simp: lang_Cat_Cls simp del: lang.simps(5,6) Lit.simps)
  then show ?thesis
    by cases (auto simp: canonical_decimal_def is_digit_def in_ranges_def digit_range_def neq_Nil_conv
        list_all_iff less_eq_char_def)
qed

lemma canonical_parse:
  assumes "canonical_decimal e" "parse_int64 e = Some n"
  shows "n = int (digits_val e)"
proof -
  obtain c cs where e: "e = c # cs" "is_digit c" using assms by (cases e) (auto simp: canonical_decimal_def)
  then have "c \<noteq> CHR ''-''" "c \<noteq> CHR ''+''" by (auto simp: is_digit_def)
  with assms e show ?thesis by (auto simp: parse_int64_def Let_def split: if_splits)
qed


lemma canonical_epoch_unique:
  assumes "matches epochRe e" "matches epochRe e'" "parse_int64 e = parse_int64 e'" "parse_int64 e \<noteq> None"
  shows "e = e'"
proof -
  from assms(4) obtain n where n: "parse_int64 e = Some n" by auto
  have c: "canonical_decimal e" "canonical_decimal e'" using assms(1,2) epochRe_canonical by auto
  have "digits_val e = digits_val e'"
    using canonical_parse [OF c(1) n] canonical_parse [OF c(2)] n assms(3) by simp
  moreover from canonical_length [OF c this] have "length e = length e'" .
  ultimately show ?thesis
    using c by (intro digits_val_inject) (simp_all add: canonical_decimal_def)
qed

lemma DefaultSpec_source: "SourceURL DefaultSpec = ''https://cdn.kernel.org/pub/linux/kernel/v6.x/linux-6.18.20.tar.gz''"
  by code_simp

lemma valid_DefaultSpec: "Validate DefaultSpec = None"
proof -
  have "is_ok (Timestamp (SourceDateEpoch DefaultSpec))"
    by (simp add: DefaultSpec_def Timestamp_default)
  moreover have "matches versionRe (KernelVersion DefaultSpec)" by code_simp
  moreover have "matches sha256Re (SourceSHA256 DefaultSpec)" by code_simp
  moreover have "matches imageRefRe (Base DefaultSpec)" by code_simp
  moreover have "no_dotdot (Base DefaultSpec)" by code_simp
  moreover have "matches fileRe (ConfigName DefaultSpec)" "no_dotdot (ConfigName DefaultSpec)" by code_simp+
  moreover have "matches epochRe (SourceDateEpoch DefaultSpec)" by code_simp
  moreover have "list_all (\<lambda>e. e = None) (source_errors DefaultSpec)" by code_simp
  moreover have "matches noProxyRe []" "str_fields [] = []" by code_simp+
  ultimately show ?thesis
    unfolding Validate_None_iff seed_errors_None
    by (simp add: DefaultSpec_def zero_spec_def archOrDefault_def)
qed

section \<open>Properties of validation\<close>



text \<open>
  C19. The files a validated spec names in the build context (config, expectations, local tarball, proxy
  CA) are relative paths without \<open>..\<close>; the CA is a plain file name.
\<close>

theorem Validate_paths:
  assumes "Validate s = None"
  shows "rel_path (ConfigName s) \<and> (ExpectName s = [] \<or> rel_path (ExpectName s)) \<and>
    (SourceLocalName s = [] \<or> rel_path (SourceLocalName s)) \<and>
    (ProxyCAFile s = [] \<or> rel_path (ProxyCAFile s) \<and> CHR ''/'' \<notin> set (ProxyCAFile s))"
  using valid_config [OF assms] valid_expect [OF assms] valid_src_name [OF assms] valid_proxy_ca [OF assms]
  by (auto simp: file_rel_path sublist_def dest!: split_list)

theorem Validate_paths_witness: "Validate DefaultSpec = None \<and> rel_path (ConfigName DefaultSpec)"
  using Validate_paths [OF valid_DefaultSpec] valid_DefaultSpec by simp

text \<open>
  No token of a validated \<open>BASE_MAKE\<close> can be read by make as a flag or a variable assignment: each is a
  plain target name.
\<close>

theorem Validate_base_make:
  assumes "Validate s = None" and "tok \<in> set (str_fields (BaseMake s))"
  shows "make_target tok"
proof -
  from valid_base_make [OF assms] have m: "matches baseMakeRe tok" by simp
  then have "tok \<noteq> []" "in_ranges (hd tok) alnum" using first_alnum by (auto simp: baseMakeRe_def)
  moreover have "\<not> in_ranges (CHR ''='') (alpha baseMakeRe)" "\<not> in_ranges (CHR ''/'') (alpha baseMakeRe)"
    by code_simp+
  ultimately show ?thesis
    using matches_excludes [OF m] in_alnum_not_slash [of "hd tok"] re_token(4) [OF m]
    by (cases tok) (auto simp: make_target_def)
qed

lemma valid_base_make_example:
  "Validate (DefaultSpec\<lparr>BaseMake := ''x86_64_defconfig kvm_guest.config''\<rparr>) = None"
proof -
  have "\<forall>tok \<in> set (str_fields ''x86_64_defconfig kvm_guest.config''). matches baseMakeRe tok \<and> no_dotdot tok"
    by code_simp
  moreover have "source_errors (DefaultSpec\<lparr>BaseMake := b\<rparr>) = source_errors DefaultSpec"
    "seed_errors (DefaultSpec\<lparr>BaseMake := b\<rparr>) = seed_errors DefaultSpec"
    "archOrDefault (DefaultSpec\<lparr>BaseMake := b\<rparr>) = archOrDefault DefaultSpec" for b
    by (simp_all add: source_errors_def seed_errors_def archOrDefault_def)
  ultimately show ?thesis
    using valid_DefaultSpec unfolding Validate_None_iff by simp
qed

theorem Validate_base_make_witness:
  "make_target ''kvm_guest.config'' \<and>
   ''kvm_guest.config'' \<in> set (str_fields ''x86_64_defconfig kvm_guest.config'')"
proof -
  have t: "''kvm_guest.config'' \<in> set (str_fields (BaseMake (DefaultSpec\<lparr>BaseMake := ''x86_64_defconfig kvm_guest.config''\<rparr>)))"
    by code_simp
  from Validate_base_make [OF valid_base_make_example t] t show ?thesis by simp
qed

text \<open>
  The source URL derived from a well-formed kernel version always passes the source checks of
  \<open>Validate\<close>: https, one token, and the \<open>.tar.gz\<close> the extractor supports.
\<close>

theorem SourceURLFor_valid:
  assumes "matches versionRe v"
  shows "has_prefix (SourceURLFor v) ''https://'' \<and> matches tokenRe (SourceURLFor v) \<and>
    SourceExt (SourceURLFor v) = Inr ''.gz''"
  using assms by (rule derived_url_valid)

theorem SourceURLFor_valid_witness:
  "matches versionRe ''7.1-rc3'' \<and>
   SourceURLFor ''7.1-rc3'' = ''https://git.kernel.org/torvalds/t/linux-7.1-rc3.tar.gz'' \<and>
   SourceExt (SourceURLFor ''7.1-rc3'') = Inr ''.gz''"
proof -
  have v: "matches versionRe ''7.1-rc3''" by code_simp
  have u: "SourceURLFor ''7.1-rc3'' = ''https://git.kernel.org/torvalds/t/linux-7.1-rc3.tar.gz''" by code_simp
  from SourceURLFor_valid [OF v] v u show ?thesis by simp
qed

text \<open>
  Validated epochs are canonical: two validated specs whose epochs render to the same build
  timestamp carry the same epoch string, so one instant never splits the cache key.
\<close>

theorem Validate_epoch_canonical:
  assumes "Validate s = None" "Validate s' = None"
    and "Timestamp (SourceDateEpoch s) = Timestamp (SourceDateEpoch s')"
  shows "SourceDateEpoch s = SourceDateEpoch s'"
proof -
  from valid_epoch [OF assms(1)] obtain t where t: "Timestamp (SourceDateEpoch s) = Inr t"
    by (auto simp: is_ok_iff)
  have "parse_int64 (SourceDateEpoch s) = parse_int64 (SourceDateEpoch s')"
    using same_timestamp_same_second [OF t] t assms(3) by simp
  moreover have "parse_int64 (SourceDateEpoch s) \<noteq> None"
    using t by (auto simp: Timestamp_Inr_iff)
  ultimately show ?thesis
    using valid_epoch assms(1,2) by (intro canonical_epoch_unique) auto
qed

theorem Validate_epoch_canonical_witness:
  "Validate DefaultSpec = None \<and> SourceDateEpoch DefaultSpec = ''1785542400''"
  using Validate_epoch_canonical [OF valid_DefaultSpec valid_DefaultSpec refl] valid_DefaultSpec
  by (simp add: DefaultSpec_def)

text \<open>
  The out-of-the-box build is valid, and so is the build of any other well-formed kernel version with
  its derived, unpinned source.
\<close>

theorem DefaultSpec_valid_for_version:
  assumes "matches versionRe v"
  shows "Validate (DefaultSpec\<lparr>KernelVersion := v, SourceURL := SourceURLFor v, SourceSHA256 := []\<rparr>) = None"
proof -
  have "list_all (\<lambda>e. e = None) (source_errors (DefaultSpec\<lparr>KernelVersion := v, SourceURL := SourceURLFor v, SourceSHA256 := []\<rparr>))"
    using derived_url_valid [OF assms]
    by (simp add: source_errors_None DefaultSpec_def zero_spec_def)
  then show ?thesis
    using valid_DefaultSpec assms
    by (simp add: Validate_None_iff seed_errors_def archOrDefault_def DefaultSpec_def zero_spec_def)
qed

theorem DefaultSpec_valid_for_version_witness:
  "Validate (DefaultSpec\<lparr>KernelVersion := ''7.1-rc3'', SourceURL := SourceURLFor ''7.1-rc3'', SourceSHA256 := []\<rparr>) = None"
proof -
  have "matches versionRe ''7.1-rc3''" by code_simp
  then show ?thesis by (rule DefaultSpec_valid_for_version)
qed

end
