(* ===== verification/Sha256.thy ===== *)
theory Sha256
  imports Prelude "HOL-Library.Word"
begin

text \<open>
  SHA-256 (FIPS 180-4) on 32-bit words, as \<^verbatim>\<open>crypto/sha256.Sum256\<close> computes it, and the lower-case
  hexadecimal rendering of byte strings. The program names cache mounts and seed objects by a prefix of a
  digest and pins tarballs, stamps and trees by whole digests. The digest of a message is 32 bytes; nothing
  below assumes that it has no collisions.
\<close>

unbundle bit_operations_syntax

type_synonym word32 = "32 word"
type_synonym byte = "8 word"

section \<open>The compression function\<close>

text \<open>
  The constants are those of the standard, computed from their definition: the first 32 bits of the
  fractional parts of the square roots of the first 8 primes (initial hash) and of the cube roots of the
  first 64 primes (rounds). \<open>int_root k b n r\<close> completes \<open>r\<close> to the integer \<open>k\<close>-th root of \<open>n\<close>, bit by bit.
\<close>

definition small_primes :: "int list" where
  "small_primes = filter (\<lambda>p. list_all (\<lambda>d. p mod d \<noteq> 0) [2..p - 1]) [2..311]"

fun int_root :: "nat \<Rightarrow> nat \<Rightarrow> int \<Rightarrow> int \<Rightarrow> int" where
  "int_root k 0 n r = r"
| "int_root k (Suc b) n r = int_root k b n (if (r + 2 ^ b) ^ k \<le> n then r + 2 ^ b else r)"

definition frac_root :: "nat \<Rightarrow> int \<Rightarrow> word32" where
  "frac_root k p = word_of_int (int_root k 36 (p * 2 ^ (32 * k)) 0)"

definition round_constants :: "word32 list" where
  "round_constants = map (frac_root 3) small_primes"

definition initial_hash :: "word32 list" where
  "initial_hash = map (frac_root 2) [2, 3, 5, 7, 11, 13, 17, 19]"

definition rotr :: "nat \<Rightarrow> word32 \<Rightarrow> word32" where
  "rotr n x = drop_bit n x OR push_bit (32 - n) x"

definition ch :: "word32 \<Rightarrow> word32 \<Rightarrow> word32 \<Rightarrow> word32" where
  "ch x y z = (x AND y) XOR (NOT x AND z)"

definition maj :: "word32 \<Rightarrow> word32 \<Rightarrow> word32 \<Rightarrow> word32" where
  "maj x y z = (x AND y) XOR (x AND z) XOR (y AND z)"

definition big_sigma0 :: "word32 \<Rightarrow> word32" where
  "big_sigma0 x = rotr 2 x XOR rotr 13 x XOR rotr 22 x"

definition big_sigma1 :: "word32 \<Rightarrow> word32" where
  "big_sigma1 x = rotr 6 x XOR rotr 11 x XOR rotr 25 x"

definition small_sigma0 :: "word32 \<Rightarrow> word32" where
  "small_sigma0 x = rotr 7 x XOR rotr 18 x XOR drop_bit 3 x"

definition small_sigma1 :: "word32 \<Rightarrow> word32" where
  "small_sigma1 x = rotr 17 x XOR rotr 19 x XOR drop_bit 10 x"

text \<open>The message schedule, newest word first: 16 words of the block, then 48 derived ones.\<close>

fun extend :: "nat \<Rightarrow> word32 list \<Rightarrow> word32 list" where
  "extend 0 w = w"
| "extend (Suc n) w = extend n ((small_sigma1 (w ! 1) + w ! 6 + small_sigma0 (w ! 14) + w ! 15) # w)"

definition schedule :: "word32 list \<Rightarrow> word32 list" where
  "schedule block = rev (extend 48 (rev block))"

fun sha_round :: "word32 \<times> word32 \<Rightarrow> word32 list \<Rightarrow> word32 list" where
  "sha_round (k, w) [a, b, c, d, e, f, g, h] =
     (let t1 = h + big_sigma1 e + ch e f g + k + w; t2 = big_sigma0 a + maj a b c
      in [t1 + t2, a, b, c, d + t1, e, f, g])"
| "sha_round _ st = st"

definition compress :: "word32 list \<Rightarrow> word32 list \<Rightarrow> word32 list" where
  "compress block st = map2 (+) st (fold sha_round (zip round_constants (schedule block)) st)"

section \<open>Padding and blocks\<close>

definition bytes_of :: "string \<Rightarrow> byte list" where
  "bytes_of s = map (\<lambda>c. word_of_nat (code c)) s"

text \<open>The message length in bits, as a big-endian 64-bit word.\<close>

definition len_bytes :: "nat \<Rightarrow> byte list" where
  "len_bytes n = map (\<lambda>i. ucast (drop_bit i (word_of_nat (8 * n) :: 64 word))) [56, 48, 40, 32, 24, 16, 8, 0]"

definition pad :: "byte list \<Rightarrow> byte list" where
  "pad m = m @ [0x80] @ replicate ((119 - length m mod 64) mod 64) 0 @ len_bytes (length m)"

fun words_of :: "byte list \<Rightarrow> word32 list" where
  "words_of (a # b # c # d # bs) =
     (push_bit 24 (ucast a) OR push_bit 16 (ucast b) OR push_bit 8 (ucast c) OR ucast d) # words_of bs"
| "words_of _ = []"

function blocks :: "'a list \<Rightarrow> 'a list list" where
  "blocks ws = (if ws = [] then [] else take 16 ws # blocks (drop 16 ws))"
  by pat_completeness auto
termination by (relation "measure length") auto

declare blocks.simps [simp del]

definition word_bytes :: "word32 \<Rightarrow> byte list" where
  "word_bytes w = map (\<lambda>n. ucast (drop_bit n w)) [24, 16, 8, 0]"

definition Sum256 :: "byte list \<Rightarrow> byte list" where
  "Sum256 m = concat (map word_bytes (fold compress (blocks (words_of (pad m))) initial_hash))"

section \<open>Hexadecimal\<close>

definition hex_digits :: string where "hex_digits = ''0123456789abcdef''"

definition hex_byte :: "byte \<Rightarrow> string" where
  "hex_byte b = [hex_digits ! (unat b div 16), hex_digits ! (unat b mod 16)]"

text \<open>\<^verbatim>\<open>hex.EncodeToString\<close>; with \<open>take n\<close> it is the \<^verbatim>\<open>%.nx\<close> verb on a byte array.\<close>

definition hex :: "byte list \<Rightarrow> string" where
  "hex bs = concat (map hex_byte bs)"

definition sha256_hex :: "string \<Rightarrow> string" where
  "sha256_hex s = hex (Sum256 (bytes_of s))"

section \<open>Lengths and alphabets\<close>

lemma length_sha_round [simp]: "length (sha_round kw st) = length st"
  by (cases "(kw, st)" rule: sha_round.cases) (simp_all add: Let_def)

lemma length_fold_round [simp]: "length (fold sha_round kws st) = length st"
  by (induction kws arbitrary: st) simp_all

lemma length_fold_compress: "length (fold compress bs st) = length st"
  by (induction bs arbitrary: st) (simp_all add: compress_def)

lemma length_Sum256 [simp]: "length (Sum256 m) = 32"
proof -
  have "length (concat (map word_bytes ws)) = 4 * length ws" for ws
    by (induction ws) (simp_all add: word_bytes_def)
  then show ?thesis by (simp add: Sum256_def length_fold_compress initial_hash_def)
qed

definition hex_char :: "char \<Rightarrow> bool" where
  "hex_char c \<longleftrightarrow> c \<in> set hex_digits"

lemma length_hex [simp]: "length (hex bs) = 2 * length bs"
  by (induction bs) (simp_all add: hex_def hex_byte_def)

lemma unat_byte: "unat (b :: byte) < 256"
  using unsigned_less [of b] by simp

lemma length_hex_digits: "length hex_digits = 16"
  by (simp add: hex_digits_def)

lemma hex_byte_chars: "list_all hex_char (hex_byte b)"
proof -
  have "unat b div 16 < 16" "unat b mod 16 < 16" using unat_byte [of b] by auto
  then show ?thesis using nth_mem [of _ hex_digits] by (simp add: hex_byte_def hex_char_def length_hex_digits)
qed

lemma hex_chars: "list_all hex_char (hex bs)"
  by (induction bs) (use hex_byte_chars in \<open>simp_all add: hex_def\<close>)

lemma hex_char_printable: "hex_char c \<Longrightarrow> printable c"
  by (auto simp: hex_char_def hex_digits_def printable_def)

lemma token_hex [simp]: "token (hex bs)"
  using hex_chars [of bs] by (auto simp: token_def list_all_iff intro: hex_char_printable)

lemma hex_digits_inject: "i < 16 \<Longrightarrow> j < 16 \<Longrightarrow> hex_digits ! i = hex_digits ! j \<Longrightarrow> i = j"
  by (subst (asm) nth_eq_iff_index_eq) (simp_all add: hex_digits_def)

lemma hex_byte_inject: "hex_byte a = hex_byte b \<Longrightarrow> a = b"
proof -
  assume eq: "hex_byte a = hex_byte b"
  have "unat a div 16 < 16" "unat b div 16 < 16" using unat_byte by (auto simp: less_mult_imp_div_less)
  with eq have "unat a div 16 = unat b div 16" "unat a mod 16 = unat b mod 16"
    by (auto simp: hex_byte_def intro!: hex_digits_inject)
  then show "a = b" by (metis div_mult_mod_eq word_unat_eq_iff)
qed

lemma hex_inject: "hex as = hex bs \<longleftrightarrow> as = bs"
proof
  show "as = bs" if "hex as = hex bs"
    using that
  proof (induction as arbitrary: bs)
    case Nil
    then show ?case by (cases bs) (simp_all add: hex_def hex_byte_def)
  next
    case (Cons a as)
    then obtain b bs' where bs: "bs = b # bs'"
      by (cases bs) (simp_all add: hex_def hex_byte_def)
    with Cons.prems have "hex_byte a = hex_byte b \<and> hex as = hex bs'"
      by (simp add: hex_def) (simp add: hex_byte_def)
    with Cons.IH bs show ?case by (auto dest: hex_byte_inject)
  qed
qed simp

end
