(* ===== verification/Seed.thy ===== *)
theory Seed
  imports BuildSpec Sha256
begin

text \<open>
  The names of persistent object trees and the seed configuration. \<^verbatim>\<open>llb.go\<close> renders the seed configuration
  into a secret (\<open>SeedCfg\<close>); \<^verbatim>\<open>kbuild-step\<close> reads it back (\<open>loadSeedCfg\<close>, \<open>checkSeedPush\<close>, \<open>s3Client\<close>). Two builds
  share a cache mount or a seed object only if they agree on version, architecture, patching and (up to a
  collision of a 64-bit digest prefix) the toolchain.
\<close>

section \<open>Names of object trees\<close>

definition toolchain_identity :: "spec \<Rightarrow> string" where
  "toolchain_identity s = Base s @ [CHR 0x00] @ crossOrDefault s @ [CHR 0x00]
     @ (if ToolchainReady s then ''ready'' else ''apt'')"

definition toolchainHash :: "spec \<Rightarrow> byte list" where
  "toolchainHash s = Sum256 (bytes_of (toolchain_identity s))"

definition patchedSuffix :: "spec \<Rightarrow> string" where
  "patchedSuffix s = (if ApplyPatches s then ''-patched'' else [])"

text \<open>The common part of the mount id and the seed key: \<^verbatim>\<open>%s-%s-%.8x%s\<close>.\<close>

definition tree_name :: "spec \<Rightarrow> string" where
  "tree_name s = KernelVersion s @ ''-'' @ archOrDefault s @ ''-'' @ hex (take 8 (toolchainHash s)) @ patchedSuffix s"

definition mount_id :: "spec \<Rightarrow> string" where
  "mount_id s = ''kernel-build-'' @ tree_name s"

definition seed_key :: "spec \<Rightarrow> string" where
  "seed_key s = SeedPrefix s @ ''/linux-'' @ tree_name s @ ''.tzst''"

section \<open>The seed configuration\<close>

definition SeedCfg :: "spec \<Rightarrow> string option" where
  "SeedCfg s =
     (if SeedURL s = [] then None
      else let push = (if SeedPush s then ''1'' else ''0'');
               region = (if SeedRegion s = [] then ''auto'' else SeedRegion s)
           in Some (''SEED_URL='' @ SeedURL s @ [newline] @ ''SEED_KEY='' @ seed_key s @ [newline]
                @ ''SEED_REGION='' @ region @ [newline] @ ''SEED_PUSH='' @ push @ [newline]))"

record seedCfg =
  sc_url :: string
  sc_key :: string
  sc_region :: string
  sc_push :: bool

type_synonym secrets = "string \<rightharpoonup> string"

definition seed_line :: "string \<Rightarrow> seedCfg \<Rightarrow> seedCfg" where
  "seed_line line c =
     (case str_cut (trim_space line) (CHR ''='') of (k, v, _) \<Rightarrow>
        if k = ''SEED_URL'' then c\<lparr>sc_url := v\<rparr>
        else if k = ''SEED_KEY'' then c\<lparr>sc_key := v\<rparr>
        else if k = ''SEED_REGION'' then c\<lparr>sc_region := v\<rparr>
        else if k = ''SEED_PUSH'' then c\<lparr>sc_push := (v = ''1'')\<rparr>
        else c)"

definition loadSeedCfg :: "secrets \<Rightarrow> seedCfg option" where
  "loadSeedCfg sec =
     (case sec ''seed_cfg'' of
        None \<Rightarrow> None
      | Some raw \<Rightarrow>
          let c = fold seed_line (split_on newline raw) \<lparr>sc_url = [], sc_key = [], sc_region = [], sc_push = False\<rparr>
          in if sc_url c = [] \<or> sc_key c = [] then None
             else if list_all (\<lambda>name. sec name \<noteq> None) [''seed_access_key'', ''seed_secret_key''] then Some c
             else None)"

datatype seed_error = SNoSecrets | SNotPush | SBadURL string | SReadSecret string | SAws string

text \<open>\<open>seed_push\<close> is the value of the environment variable \<^verbatim>\<open>SEED_PUSH\<close>, empty when unset.\<close>

definition checkSeedPush :: "string \<Rightarrow> seedCfg option \<Rightarrow> seed_error option" where
  "checkSeedPush seed_push seed =
     (if seed_push \<noteq> ''1'' then None
      else case seed of None \<Rightarrow> Some SNoSecrets | Some c \<Rightarrow> if sc_push c then None else Some SNotPush)"

text \<open>
  \<open>s3Client\<close>: the AWS configuration loader (\<open>load\<close>, from region, access key and secret key) and the client
  constructor (\<open>mk\<close>, from configuration, endpoint and path style) are those of the AWS SDK.
\<close>

definition s3Client ::
  "(string \<Rightarrow> string \<Rightarrow> string \<Rightarrow> (seed_error, 'cfg) result) \<Rightarrow> ('cfg \<Rightarrow> string \<Rightarrow> bool \<Rightarrow> 'cl) \<Rightarrow>
   secrets \<Rightarrow> seedCfg \<Rightarrow> (seed_error, 'cl \<times> string) result" where
  "s3Client load mk sec c =
     (case str_cut (trim_prefix (sc_url c) ''https://'') (CHR ''/'') of (endpoint, bucket, found) \<Rightarrow>
        if \<not> found \<or> bucket = [] then Inl (SBadURL (sc_url c))
        else case sec ''seed_access_key'' of
          None \<Rightarrow> Inl (SReadSecret ''seed_access_key'')
        | Some ak \<Rightarrow> (case sec ''seed_secret_key'' of
            None \<Rightarrow> Inl (SReadSecret ''seed_secret_key'')
          | Some sk \<Rightarrow>
              let region = (if sc_region c = [] then ''auto'' else sc_region c)
              in rbind (load region (trim_space ak) (trim_space sk))
                   (\<lambda>cfg. Inr (mk cfg (''https://'' @ endpoint) True, bucket))))"

section \<open>Reading names back\<close>

lemma length_hash_hex: "length (hex (take 8 (toolchainHash s))) = 16"
  by (simp add: toolchainHash_def)

lemma hash_hex_no_h: "CHR ''h'' \<notin> set (hex (take 8 (toolchainHash s)))"
proof -
  have "\<not> hex_char (CHR ''h'')" by (simp add: hex_char_def hex_digits_def)
  then show ?thesis using hex_chars [of "take 8 (toolchainHash s)"] unfolding list_all_iff by blast
qed

lemma hash_hex_not_patched:
  assumes "a @ hex (take 8 (toolchainHash s)) = b @ ''-patched''"
  shows False
proof -
  let ?h = "hex (take 8 (toolchainHash s))"
  have "drop (length (a @ ?h) - 3) (a @ ?h) = ''hed''" unfolding assms by simp
  then have "drop 13 ?h = ''hed''" using length_hash_hex [of s] by simp
  then have "set ''hed'' \<subseteq> set ?h" by (metis set_drop_subset)
  then show False using hash_hex_no_h [of s] by simp
qed

lemma arch_dash_inject:
  assumes "v @ ''-'' @ a @ ''-'' = w @ ''-'' @ b @ ''-''"
    and "a \<in> {''x86_64'', ''arm64''}" and "b \<in> {''x86_64'', ''arm64''}"
  shows "v = w \<and> a = b"
proof (cases "a = b")
  case True
  with assms(1) show ?thesis by simp
next
  case False
  have "last (butlast (v @ ''-'' @ a @ ''-'')) = last (butlast (w @ ''-'' @ b @ ''-''))" by (simp only: assms(1))
  moreover have "take 1 (drop (length (v @ ''-'' @ a @ ''-'') - 7) (v @ ''-'' @ a @ ''-'')) =
      take 1 (drop (length (v @ ''-'' @ a @ ''-'') - 7) (w @ ''-'' @ b @ ''-''))"
    by (simp only: assms(1))
  ultimately show ?thesis using False assms by (auto simp: butlast_append)
qed

lemma tree_name_inject:
  assumes "tree_name s = tree_name t" and "Validate s = None" and "Validate t = None"
  shows "KernelVersion s = KernelVersion t \<and> archOrDefault s = archOrDefault t \<and>
    ApplyPatches s = ApplyPatches t \<and> take 8 (toolchainHash s) = take 8 (toolchainHash t)"
proof -
  let ?h = "\<lambda>s. hex (take 8 (toolchainHash s))"
  let ?p = "\<lambda>s. KernelVersion s @ ''-'' @ archOrDefault s @ ''-''"
  have eq: "?p s @ ?h s @ patchedSuffix s = ?p t @ ?h t @ patchedSuffix t"
    using assms(1) by (simp add: tree_name_def)
  have "ApplyPatches s = ApplyPatches t"
    using eq hash_hex_not_patched [of "?p s" s "?p t @ ?h t"] hash_hex_not_patched [of "?p t" t "?p s @ ?h s"]
    by (cases "ApplyPatches s"; cases "ApplyPatches t") (simp_all add: patchedSuffix_def)
  moreover from this have "patchedSuffix s = patchedSuffix t" by (simp add: patchedSuffix_def)
  with eq have "?p s @ ?h s = ?p t @ ?h t" by simp
  then have "?p s = ?p t \<and> ?h s = ?h t"
    by (subst (asm) append_eq_append_conv) (simp_all add: toolchainHash_def)
  ultimately show ?thesis
    using arch_dash_inject [of "KernelVersion s" "archOrDefault s" "KernelVersion t" "archOrDefault t"]
      valid_arch [OF assms(2)] valid_arch [OF assms(3)] by (auto simp: hex_inject)
qed

lemma cross_token: "Validate s = None \<Longrightarrow> token (crossOrDefault s)"
proof -
  assume v: "Validate s = None"
  have "token ''aarch64-linux-gnu-''" by code_simp
  moreover have "token (CrossCompile s)" using valid_cross [OF v] by (elim disjE conjE) (simp, rule re_token(5))
  ultimately show ?thesis by (simp only: crossOrDefault_def token_Nil if_split simp_thms)
qed

lemma identity_inject:
  assumes "toolchain_identity s = toolchain_identity t" and "Validate s = None" and "Validate t = None"
  shows "Base s = Base t \<and> crossOrDefault s = crossOrDefault t \<and> ToolchainReady s = ToolchainReady t"
proof -
  have nul: "CHR 0x00 \<notin> set x" if "token x" for x
    using token_set [OF that, of "CHR 0x00"] by (auto simp: printable_def)
  note tok = re_token(8) [OF conjunct1 [OF valid_base]] cross_token
  let ?m = "\<lambda>s. if ToolchainReady s then ''ready'' else ''apt''"
  have "Base s @ CHR 0x00 # (crossOrDefault s @ CHR 0x00 # ?m s) = Base t @ CHR 0x00 # (crossOrDefault t @ CHR 0x00 # ?m t)"
    using assms(1) unfolding toolchain_identity_def by (simp only: append_Cons append_Nil append_assoc)
  from cut_inject [OF nul nul this, OF tok(1) [OF assms(2)] tok(1) [OF assms(3)]]
  have 1: "Base s = Base t" and 2: "crossOrDefault s @ CHR 0x00 # ?m s = crossOrDefault t @ CHR 0x00 # ?m t" by simp_all
  from cut_inject [OF nul nul 2, OF tok(2) [OF assms(2)] tok(2) [OF assms(3)]] 1 show ?thesis by (simp split: if_splits)
qed

section \<open>The round trip\<close>

lemma prefix_token: "matches prefixRe p \<Longrightarrow> token p"
  by (rule re_token)

lemma tree_name_token: "Validate s = None \<Longrightarrow> token (tree_name s)"
  using valid_arch [of s] version_token [OF valid_version, of s]
  by (auto simp: tree_name_def patchedSuffix_def printable_def)

lemma seed_key_token: "Validate s = None \<Longrightarrow> SeedURL s \<noteq> [] \<Longrightarrow> token (seed_key s)"
  using valid_seed [of s] tree_name_token [of s] prefix_token
  by (auto simp: seed_key_def printable_def)

lemma seed_line_eqs:
  assumes "token v"
  shows "seed_line (''SEED_URL='' @ v) c = c\<lparr>sc_url := v\<rparr>"
    and "seed_line (''SEED_KEY='' @ v) c = c\<lparr>sc_key := v\<rparr>"
    and "seed_line (''SEED_REGION='' @ v) c = c\<lparr>sc_region := v\<rparr>"
    and "seed_line (''SEED_PUSH='' @ v) c = c\<lparr>sc_push := v = ''1''\<rparr>"
proof -
  have cut: "str_cut (trim_space (k @ CHR ''='' # v)) (CHR ''='') = (k, v, True)"
    if "token k" "CHR ''='' \<notin> set k" for k
    using that assms by (simp add: trim_space_token str_cut_append printable_def)
  show "seed_line (''SEED_URL='' @ v) c = c\<lparr>sc_url := v\<rparr>"
    using cut [of "''SEED_URL''"] by (simp add: seed_line_def printable_def)
  show "seed_line (''SEED_KEY='' @ v) c = c\<lparr>sc_key := v\<rparr>"
    using cut [of "''SEED_KEY''"] by (simp add: seed_line_def printable_def)
  show "seed_line (''SEED_REGION='' @ v) c = c\<lparr>sc_region := v\<rparr>"
    using cut [of "''SEED_REGION''"] by (simp add: seed_line_def printable_def)
  show "seed_line (''SEED_PUSH='' @ v) c = c\<lparr>sc_push := v = ''1''\<rparr>"
    using cut [of "''SEED_PUSH''"] by (simp add: seed_line_def printable_def)
qed

lemma seed_line_empty: "seed_line [] c = c"
  by (simp add: seed_line_def trim_space_token str_cut_def)

lemma SeedCfg_lines:
  assumes "SeedURL s \<noteq> []"
  shows "SeedCfg s = Some (join [newline] [''SEED_URL='' @ SeedURL s, ''SEED_KEY='' @ seed_key s,
    ''SEED_REGION='' @ (if SeedRegion s = [] then ''auto'' else SeedRegion s),
    ''SEED_PUSH='' @ (if SeedPush s then ''1'' else ''0''), []])"
  using assms by (simp add: SeedCfg_def)

definition seed_of :: "spec \<Rightarrow> seedCfg" where
  "seed_of s = \<lparr>sc_url = SeedURL s, sc_key = seed_key s,
     sc_region = (if SeedRegion s = [] then ''auto'' else SeedRegion s), sc_push = SeedPush s\<rparr>"

lemma load_SeedCfg:
  assumes v: "Validate s = None" and u: "SeedURL s \<noteq> []" and c: "sec ''seed_cfg'' = SeedCfg s"
    and k: "sec ''seed_access_key'' \<noteq> None" "sec ''seed_secret_key'' \<noteq> None"
  shows "loadSeedCfg sec = Some (seed_of s)"
proof -
  let ?r = "if SeedRegion s = [] then ''auto'' else SeedRegion s"
  let ?p = "if SeedPush s then ''1'' else ''0''"
  let ?ls = "[''SEED_URL='' @ SeedURL s, ''SEED_KEY='' @ seed_key s, ''SEED_REGION='' @ ?r, ''SEED_PUSH='' @ ?p, []]"
  have tok: "token (SeedURL s)" "token (seed_key s)" "token ?r" "token ?p"
    using valid_seed [OF v u] seed_key_token [OF v u] re_token(2,7) by (auto simp: printable_def)
  then have "list_all token ?ls" by (simp add: printable_def)
  then have "split_on newline (join [newline] ?ls) = ?ls"
    by (intro split_on_join) (auto simp: list_all_iff newline_def dest: token_no_newline)
  moreover have "fold seed_line ?ls \<lparr>sc_url = [], sc_key = [], sc_region = [], sc_push = False\<rparr> = seed_of s"
    using tok by (simp only: fold.simps o_apply id_apply seed_line_eqs seed_line_empty seed_of_def
        seedCfg.update_convs simp_thms if_True if_False) simp
  moreover have "seed_key s \<noteq> []" by (simp add: seed_key_def)
  ultimately show ?thesis
    using c k u unfolding SeedCfg_lines [OF u] loadSeedCfg_def by (simp only: option.case Let_def) (auto simp: seed_of_def)
qed

section \<open>Properties of names and of the seed configuration\<close>

text \<open>
  C12. Object trees are never shared across compilers: two validated specs with the same cache-mount id build
  the same version for the same architecture with the same patch bit, and use the same base image, cross
  prefix and toolchain mode, unless two different identity strings collide on the first 8 bytes of SHA-256.
\<close>

theorem mount_id_separates:
  assumes "Validate s = None" and "Validate t = None" and "mount_id s = mount_id t"
  shows "KernelVersion s = KernelVersion t \<and> archOrDefault s = archOrDefault t \<and> ApplyPatches s = ApplyPatches t \<and>
    (Base s = Base t \<and> crossOrDefault s = crossOrDefault t \<and> ToolchainReady s = ToolchainReady t \<or>
     toolchain_identity s \<noteq> toolchain_identity t \<and>
     take 8 (Sum256 (bytes_of (toolchain_identity s))) = take 8 (Sum256 (bytes_of (toolchain_identity t))))"
proof -
  have "tree_name s = tree_name t" using assms(3) by (simp add: mount_id_def)
  from tree_name_inject [OF this assms(1,2)] show ?thesis
    using identity_inject [OF _ assms(1,2)] unfolding toolchainHash_def by blast
qed

definition seeded_spec :: spec where
  "seeded_spec = DefaultSpec\<lparr>SeedURL := ''https://r2.example.com/seeds'', SeedPush := True\<rparr>"

lemma valid_with_seed:
  assumes "matches seedURLRe u"
  shows "Validate (DefaultSpec\<lparr>SeedURL := u, SeedPush := p\<rparr>) = None"
proof -
  let ?s = "DefaultSpec\<lparr>SeedURL := u, SeedPush := p\<rparr>"
  have "matches prefixRe (SeedPrefix DefaultSpec) \<and> no_dotdot (SeedPrefix DefaultSpec)" by code_simp
  moreover have "source_errors ?s = source_errors DefaultSpec" "archOrDefault ?s = archOrDefault DefaultSpec"
    by (simp_all add: source_errors_def archOrDefault_def)
  moreover have "SourceSHA256 DefaultSpec \<noteq> []" "SeedRegion DefaultSpec = []"
    by (simp_all add: DefaultSpec_def zero_spec_def)
  ultimately show ?thesis
    using valid_DefaultSpec assms unfolding Validate_None_iff seed_errors_None by simp
qed

lemma valid_seeded_spec: "Validate seeded_spec = None"
  unfolding seeded_spec_def by (rule valid_with_seed) code_simp

theorem mount_id_separates_witness:
  "mount_id seeded_spec = mount_id DefaultSpec \<and> KernelVersion seeded_spec = KernelVersion DefaultSpec"
proof -
  have "mount_id seeded_spec = mount_id DefaultSpec"
    by (simp add: seeded_spec_def mount_id_def tree_name_def toolchainHash_def toolchain_identity_def
        patchedSuffix_def archOrDefault_def crossOrDefault_def)
  from mount_id_separates [OF valid_seeded_spec valid_DefaultSpec this] this show ?thesis by blast
qed

text \<open>
  C15. The seed configuration survives its trip through the secret: for every validated spec with a seed URL,
  the step reads back exactly the URL, key, region and push bit of the spec, and a build that asks for a push
  passes the push check.
\<close>

theorem SeedCfg_roundtrip:
  assumes "Validate s = None" and "SeedURL s \<noteq> []" and "sec ''seed_cfg'' = SeedCfg s"
    and "sec ''seed_access_key'' \<noteq> None" and "sec ''seed_secret_key'' \<noteq> None"
  shows "loadSeedCfg sec = Some (seed_of s) \<and>
    checkSeedPush (if SeedPush s then ''1'' else []) (loadSeedCfg sec) = None"
  using load_SeedCfg [OF assms] by (simp add: checkSeedPush_def seed_of_def)

theorem SeedCfg_roundtrip_witness:
  "loadSeedCfg [''seed_cfg'' \<mapsto> the (SeedCfg seeded_spec), ''seed_access_key'' \<mapsto> ''ak'', ''seed_secret_key'' \<mapsto> ''sk'']
    = Some (seed_of seeded_spec)"
proof -
  have u: "SeedURL seeded_spec \<noteq> []" by (simp add: seeded_spec_def)
  have c: "SeedCfg seeded_spec = Some (the (SeedCfg seeded_spec))" unfolding SeedCfg_lines [OF u] by simp
  show ?thesis
    by (rule conjunct1 [OF SeedCfg_roundtrip [OF valid_seeded_spec u]]) (simp_all add: c [symmetric])
qed

text \<open>
  A requested push never passes silently: with \<^verbatim>\<open>SEED_PUSH=1\<close> in the environment the check succeeds only
  if the configuration, both credentials, a URL and a key are present and the configuration itself says push.
\<close>

theorem checkSeedPush_sound:
  "checkSeedPush ''1'' (loadSeedCfg sec) = None \<longleftrightarrow>
     (\<exists>c. loadSeedCfg sec = Some c \<and> sc_push c \<and> sc_url c \<noteq> [] \<and> sc_key c \<noteq> [] \<and> sec ''seed_cfg'' \<noteq> None \<and>
        sec ''seed_access_key'' \<noteq> None \<and> sec ''seed_secret_key'' \<noteq> None)"
  by (auto simp: checkSeedPush_def loadSeedCfg_def Let_def split: option.splits if_splits)

text \<open>
  Validation does not ask for a bucket: a seed URL that names only a host is accepted, and the step then
  fails to build its S3 client, whatever the SDK and the secrets are.
\<close>

theorem seed_url_without_bucket:
  "Validate (DefaultSpec\<lparr>SeedURL := ''https://r2.example.com'', SeedPush := p\<rparr>) = None \<and>
   s3Client load mk sec (seed_of (DefaultSpec\<lparr>SeedURL := ''https://r2.example.com'', SeedPush := p\<rparr>)) =
     Inl (SBadURL ''https://r2.example.com'')"
proof
  show "Validate (DefaultSpec\<lparr>SeedURL := ''https://r2.example.com'', SeedPush := p\<rparr>) = None"
    by (rule valid_with_seed) code_simp
  have "str_cut (trim_prefix ''https://r2.example.com'' ''https://'') (CHR ''/'') = (''r2.example.com'', [], False)"
    by code_simp
  then show "s3Client load mk sec (seed_of (DefaultSpec\<lparr>SeedURL := ''https://r2.example.com'', SeedPush := p\<rparr>)) =
     Inl (SBadURL ''https://r2.example.com'')"
    by (simp add: s3Client_def seed_of_def)
qed

end
