(* ===== verification/Graph.thy ===== *)
theory Graph
  imports Seed
begin

text \<open>
  \<^verbatim>\<open>KernelLLB\<close> of \<^verbatim>\<open>llb.go\<close>: the build graph as a value. The calls of BuildKit's \<^verbatim>\<open>llb\<close> package are constructors,
  so a graph is the sequence of calls the program makes; \<open>key_view\<close> is the part of a graph BuildKit hashes
  (proxy settings and progress names are excluded from cache keys). The theorems say which settings of a spec
  reach that part, and that the environment of the compile vertex is the contract \<^verbatim>\<open>kbuild-step\<close> reads.
\<close>

section \<open>The llb calls\<close>

datatype mount_opt = Readonly | SourcePath string | PersistentCacheLocked string

datatype llb_state =
    Image string
  | Scratch
  | Local string "string list" string string  \<comment> \<open>name, follow paths, shared key hint, custom name\<close>
  | NetHost llb_state
  | File_Copy llb_state llb_state string string string  \<comment> \<open>base, source, from, to, custom name\<close>
  | Run_Root llb_state "run_opt list"
  | Run_Mount llb_state "run_opt list" string llb_state  \<comment> \<open>the captured mount of an exec\<close>
and run_opt =
    Args "string list" | CustomName string | AddEnv string string | Dir string
  | AddMount string llb_state "mount_opt list"
  | AddSecret string string bool  \<comment> \<open>path, id, optional\<close>
  | WithProxy string string string  \<comment> \<open>http, https, no-proxy\<close>
  | Ignore_Cache

section \<open>Scripts\<close>

definition aptDeps :: string where
  "aptDeps = ''bc bison build-essential dwarves flex libelf-dev '' @ ''libssl-dev ca-certificates cpio kmod''"

definition sh :: "string \<Rightarrow> run_opt" where
  "sh script = Args [''bash'', ''-c'', script]"

definition if_ca :: string where
  \<open>if_ca = ''if [ -n "${CA_FILE:-}" ] && [ -f "/certs/${CA_FILE}" ]; then''\<close>

definition toolchainScript :: string where
  \<open>toolchainScript = unlines
     [''set -eux'',
      if_ca,
      ''  apt-get update -qq'',
      ''  apt-get install -y --no-install-recommends ca-certificates'',
      ''  cat "/certs/${CA_FILE}" >> /etc/ssl/certs/ca-certificates.crt'',
      ''  sed -i '' @ [CHR 0x27] @ ''s|http://|https://|g'' @ [CHR 0x27] @ '' /etc/apt/sources.list.d/ubuntu.sources'',
      ''fi'',
      ''apt-get update -qq'',
      ''apt-get install -y --no-install-recommends '' @ aptDeps,
      if_ca,
      ''  mkdir -p /usr/local/share/ca-certificates'',
      ''  cp "/certs/${CA_FILE}" /usr/local/share/ca-certificates/kbuild-proxy-ca.crt'',
      ''  update-ca-certificates'',
      ''fi'',
      ''rm -rf /var/lib/apt/lists/*'']\<close>

definition caOnlyScript :: string where
  \<open>caOnlyScript = unlines
     [''set -eux'',
      if_ca,
      ''  mkdir -p /etc/ssl/certs'',
      ''  cat "/certs/${CA_FILE}" >> /etc/ssl/certs/ca-certificates.crt'',
      ''fi'']\<close>

section \<open>The parts of the graph\<close>

text \<open>All three standard proxy variables, when any is set; loopback is always excluded.\<close>

definition proxy_opts :: "spec \<Rightarrow> run_opt list" where
  "proxy_opts s =
     (if HTTPSProxy s \<noteq> [] \<or> HTTPProxy s \<noteq> [] \<or> NoProxy s \<noteq> []
      then let noProxy = ''localhost,127.0.0.1'' @ (if NoProxy s \<noteq> [] then '','' @ NoProxy s else [])
           in [WithProxy (HTTPProxy s) (HTTPSProxy s) noProxy]
      else [])"

definition base_state :: "spec \<Rightarrow> llb_state" where
  "base_state s = (if NetworkHost s then NetHost (Image (Base s)) else Image (Base s))"

definition ca_opts :: "spec \<Rightarrow> run_opt list" where
  "ca_opts s =
     (if ProxyCAFile s \<noteq> []
      then let caState = Local ''context'' [ProxyCAFile s] ''kbuild-ca'' (''[internal] load '' @ ProxyCAFile s)
           in [AddMount ''/certs'' caState [Readonly], AddEnv ''CA_FILE'' (ProxyCAFile s)]
      else [])"

definition toolchain_state :: "spec \<Rightarrow> llb_state" where
  "toolchain_state s =
     (if \<not> ToolchainReady s \<or> ProxyCAFile s \<noteq> []
      then Run_Root (base_state s)
        ([sh (if ToolchainReady s then caOnlyScript else toolchainScript),
          AddEnv ''DEBIAN_FRONTEND'' ''noninteractive'',
          CustomName ''[toolchain] install build deps'']
         @ proxy_opts s
         @ (if IgnoreCache s then [Ignore_Cache] else [])
         @ ca_opts s)
      else base_state s)"

text \<open>\<open>(srcID, srcURL, srcSHA)\<close>\<close>

definition source_identity :: "spec \<Rightarrow> string \<times> string \<times> string" where
  "source_identity s =
     (if SourceLocalName s \<noteq> [] then (''local:'' @ SourceLocalName s, [], [])
      else if SourceSHA256 s = [] then (SourceURL s, SourceURL s, SourceSHA256 s)
      else (SourceSHA256 s, SourceURL s, SourceSHA256 s))"

definition follow_paths :: "spec \<Rightarrow> string list" where
  "follow_paths s = [ConfigName s] @ (if ExpectName s \<noteq> [] then [ExpectName s] else [])
     @ (if ApplyPatches s then [''patches''] else [])"

definition context_state :: "spec \<Rightarrow> llb_state" where
  "context_state s = Local ''context'' (follow_paths s) ''kbuild-context''
     (''[internal] load '' @ join '', '' (follow_paths s))"

definition helper_state :: "spec \<Rightarrow> llb_state" where
  "helper_state s =
     (if HelperRef s \<noteq> []
      then File_Copy Scratch (Image (HelperRef s)) ''/kbuild-step'' ''/kbuild-step''
        (''[internal] load kbuild-step from '' @ HelperRef s)
      else Local ''helper'' [''kbuild-step''] ''kbuild-helper'' ''[internal] load kbuild-step'')"

definition HelperPath :: string where "HelperPath = ''/helper/kbuild-step''"

definition env_opts :: "spec \<Rightarrow> run_opt list" where
  "env_opts s =
     (case source_identity s of (srcID, srcURL, srcSHA) \<Rightarrow>
       [AddEnv ''SOURCE_DATE_EPOCH'' (SourceDateEpoch s),
        AddEnv ''KBUILD_BUILD_USER'' ''builder'',
        AddEnv ''KBUILD_BUILD_HOST'' ''linux'',
        AddEnv ''TZ'' ''UTC'',
        AddEnv ''SRC_ID'' srcID,
        AddEnv ''SRC_URL'' srcURL,
        AddEnv ''SRC_SHA256'' srcSHA,
        AddEnv ''SRC_LOCAL'' (SourceLocalName s),
        AddEnv ''KARCH'' (archOrDefault s),
        AddEnv ''CROSS_COMPILE'' (crossOrDefault s),
        AddEnv ''TARGETS'' (join '','' (targetsOrDefault s)),
        AddEnv ''APPLY_PATCHES'' (if ApplyPatches s then ''1'' else ''0''),
        AddEnv ''BASE_MAKE'' (BaseMake s)])"

definition mount_opts :: "spec \<Rightarrow> run_opt list" where
  "mount_opts s =
     [Dir ''/build'',
      AddMount ''/helper'' (helper_state s) [Readonly],
      AddMount ''/kernel.config'' (context_state s) [SourcePath (ConfigName s), Readonly],
      AddMount ''/build'' Scratch [PersistentCacheLocked (mount_id s)],
      AddSecret ''/run/secrets/seed_access_key'' ''seed_access_key'' True,
      AddSecret ''/run/secrets/seed_secret_key'' ''seed_secret_key'' True,
      AddSecret ''/run/secrets/seed_cfg'' ''seed_cfg'' True]"

definition optional_mounts :: "spec \<Rightarrow> run_opt list" where
  "optional_mounts s =
     (if ApplyPatches s then [AddMount ''/patches'' (context_state s) [SourcePath ''patches'', Readonly]] else [])
     @ (if ExpectName s \<noteq> []
        then [AddMount ''/kernel.expect'' (context_state s) [SourcePath (ExpectName s), Readonly]] else [])
     @ (if SourceLocalName s \<noteq> []
        then [AddMount ''/src'' (Local ''src'' [SourceLocalName s] ''kbuild-src'' (''[internal] load '' @ SourceLocalName s))
                [Readonly]] else [])"

definition action_opts :: "string \<Rightarrow> spec \<Rightarrow> run_opt list" where
  "action_opts nonce s = (if SeedPush s then [AddEnv ''SEED_PUSH'' ''1'', AddEnv ''SEED_ACTION'' nonce] else [])"

text \<open>All options of the compile vertex, in the order of the code; \<open>nonce\<close> is what \<^verbatim>\<open>rand.Text\<close> returns.\<close>

definition run_opts :: "string \<Rightarrow> spec \<Rightarrow> run_opt list" where
  "run_opts nonce s =
     [Args [HelperPath],
      CustomName (''[compile] linux-'' @ KernelVersion s @ '' '' @ archOrDefault s @ '' -> ''
        @ join '','' (targetsOrDefault s))]
     @ env_opts s @ mount_opts s @ optional_mounts s @ proxy_opts s
     @ (if IgnoreCache s then [Ignore_Cache] else [])
     @ action_opts nonce s"

datatype graph_error = GSpec spec_error | GUnpinned string

definition KernelLLB :: "string \<Rightarrow> spec \<Rightarrow> (graph_error, llb_state) result" where
  "KernelLLB nonce s =
     (case Validate s of
        Some e \<Rightarrow> Inl (GSpec e)
      | None \<Rightarrow>
          if \<not> contains (Base s) ''@'' then Inl (GUnpinned (Base s))
          else Inr (Run_Mount (toolchain_state s) (run_opts nonce s) ''/out'' Scratch))"

section \<open>What BuildKit hashes\<close>

fun key_view :: "llb_state \<Rightarrow> llb_state" and key_opt :: "run_opt \<Rightarrow> run_opt list" where
  "key_view (Image r) = Image r"
| "key_view Scratch = Scratch"
| "key_view (Local n f h c) = Local n f h []"
| "key_view (NetHost b) = NetHost (key_view b)"
| "key_view (File_Copy b src p q c) = File_Copy (key_view b) (key_view src) p q []"
| "key_view (Run_Root b os) = Run_Root (key_view b) (concat (map key_opt os))"
| "key_view (Run_Mount b os p m) = Run_Mount (key_view b) (concat (map key_opt os)) p (key_view m)"
| "key_opt (CustomName c) = []"
| "key_opt (WithProxy a b c) = []"
| "key_opt (AddMount p st os) = [AddMount p (key_view st) os]"
| "key_opt (Args as) = [Args as]"
| "key_opt (AddEnv k v) = [AddEnv k v]"
| "key_opt (Dir d) = [Dir d]"
| "key_opt (AddSecret p i opt) = [AddSecret p i opt]"
| "key_opt Ignore_Cache = [Ignore_Cache]"

section \<open>The settings that reach the cache key\<close>

record key_fields =
  kBase :: string
  kNetworkHost :: bool
  kToolchainReady :: bool
  kProxyCAFile :: string
  kIgnoreCache :: bool
  kVersion :: string
  kArch :: string
  kCross :: string
  kTargets :: "string list"
  kEpoch :: string
  kSource :: "string \<times> string \<times> string"
  kLocal :: string
  kConfig :: string
  kExpect :: string
  kBaseMake :: string
  kPatches :: bool
  kHelper :: string
  kSeedPush :: bool

definition key_fields_of :: "spec \<Rightarrow> key_fields" where
  "key_fields_of s = \<lparr>kBase = Base s, kNetworkHost = NetworkHost s, kToolchainReady = ToolchainReady s,
     kProxyCAFile = ProxyCAFile s, kIgnoreCache = IgnoreCache s, kVersion = KernelVersion s,
     kArch = archOrDefault s, kCross = crossOrDefault s, kTargets = targetsOrDefault s,
     kEpoch = SourceDateEpoch s, kSource = source_identity s, kLocal = SourceLocalName s, kConfig = ConfigName s,
     kExpect = ExpectName s, kBaseMake = BaseMake s, kPatches = ApplyPatches s, kHelper = HelperRef s,
     kSeedPush = SeedPush s\<rparr>"

definition graph :: "string \<Rightarrow> spec \<Rightarrow> llb_state" where
  "graph nonce s = Run_Mount (toolchain_state s) (run_opts nonce s) ''/out'' Scratch"

lemma KernelLLB_Inr_iff:
  "KernelLLB nonce s = Inr g \<longleftrightarrow> Validate s = None \<and> CHR ''@'' \<in> set (Base s) \<and> g = graph nonce s"
proof -
  have "contains (Base s) ''@'' \<longleftrightarrow> CHR ''@'' \<in> set (Base s)" by (rule contains_char)
  then show ?thesis by (auto simp: KernelLLB_def graph_def split: option.splits)
qed

text \<open>Environment options are keyed as they are; mounts are keyed by the content of their source.\<close>

lemma key_env [simp]: "concat (map key_opt (env_opts s)) = env_opts s"
  by (simp add: env_opts_def split: prod.splits)

lemma key_action [simp]: "concat (map key_opt (action_opts n s)) = action_opts n s"
  by (simp add: action_opts_def)

lemma key_proxy [simp]: "concat (map key_opt (proxy_opts s)) = []"
  by (simp add: proxy_opts_def Let_def)

lemma key_run_opts:
  "concat (map key_opt (run_opts n s)) =
     Args [HelperPath] # env_opts s @ concat (map key_opt (mount_opts s)) @ concat (map key_opt (optional_mounts s))
     @ (if IgnoreCache s then [Ignore_Cache] else []) @ action_opts n s"
  by (simp add: run_opts_def)

definition ctx_key :: "spec \<Rightarrow> llb_state" where
  "ctx_key s = Local ''context'' (follow_paths s) ''kbuild-context'' []"

lemma key_context: "key_view (context_state s) = ctx_key s"
  by (simp add: context_state_def ctx_key_def)

lemma key_base [simp]: "key_view (base_state s) = base_state s"
  by (simp add: base_state_def)

definition tc_tail :: "spec \<Rightarrow> run_opt list" where
  "tc_tail s = (if IgnoreCache s then [Ignore_Cache] else [])
     @ (if ProxyCAFile s \<noteq> [] then
          [AddMount ''/certs'' (Local ''context'' [ProxyCAFile s] ''kbuild-ca'' []) [Readonly],
           AddEnv ''CA_FILE'' (ProxyCAFile s)] else [])"

lemma key_toolchain:
  "key_view (toolchain_state s) =
     (if \<not> ToolchainReady s \<or> ProxyCAFile s \<noteq> []
      then Run_Root (base_state s)
        ([sh (if ToolchainReady s then caOnlyScript else toolchainScript), AddEnv ''DEBIAN_FRONTEND'' ''noninteractive'']
         @ tc_tail s)
      else base_state s)"
  by (simp add: toolchain_state_def ca_opts_def Let_def sh_def tc_tail_def)

lemma tc_tail_inject: "tc_tail s = tc_tail t \<Longrightarrow> ProxyCAFile s = ProxyCAFile t"
  by (simp add: tc_tail_def split: if_splits)

lemma scripts_differ: "caOnlyScript \<noteq> toolchainScript"
  by code_simp

lemma toolchain_key_inject:
  assumes "key_view (toolchain_state s) = key_view (toolchain_state t)"
  shows "Base s = Base t \<and> NetworkHost s = NetworkHost t \<and> ToolchainReady s = ToolchainReady t \<and>
    ProxyCAFile s = ProxyCAFile t"
proof -
  have b: "base_state s \<noteq> Run_Root a os" for s a os by (simp add: base_state_def)
  have base: "base_state s = base_state t \<Longrightarrow> Base s = Base t \<and> NetworkHost s = NetworkHost t"
    by (simp add: base_state_def split: if_splits)
  show ?thesis
  proof (cases "ToolchainReady s \<and> ProxyCAFile s = []"; cases "ToolchainReady t \<and> ProxyCAFile t = []")
    assume "ToolchainReady s \<and> ProxyCAFile s = []" "ToolchainReady t \<and> ProxyCAFile t = []"
    then show ?thesis using assms base unfolding key_toolchain by simp
  next
    assume "ToolchainReady s \<and> ProxyCAFile s = []" "\<not> (ToolchainReady t \<and> ProxyCAFile t = [])"
    then show ?thesis using assms b [of s] unfolding key_toolchain by simp
  next
    assume "\<not> (ToolchainReady s \<and> ProxyCAFile s = [])" "ToolchainReady t \<and> ProxyCAFile t = []"
    then show ?thesis using assms b [of t, symmetric] unfolding key_toolchain by simp
  next
    assume "\<not> (ToolchainReady s \<and> ProxyCAFile s = [])" "\<not> (ToolchainReady t \<and> ProxyCAFile t = [])"
    then have eq: "base_state s = base_state t"
        "(if ToolchainReady s then caOnlyScript else toolchainScript) = (if ToolchainReady t then caOnlyScript else toolchainScript)"
        "tc_tail s = tc_tail t"
      using assms unfolding key_toolchain by (simp_all add: sh_def)
    then have "ToolchainReady s = ToolchainReady t"
      using scripts_differ by (cases "ToolchainReady s"; cases "ToolchainReady t") auto
    with base [OF eq(1)] tc_tail_inject [OF eq(3)] show ?thesis by simp
  qed
qed

lemma targets_no_comma:
  assumes "Validate s = None" and "t \<in> set (targetsOrDefault s)"
  shows "CHR '','' \<notin> set t \<and> t \<in> set known_targets"
proof -
  have known: "''vmlinux'' \<in> set known_targets \<and> ''image'' \<in> set known_targets" by (simp add: known_targets_def)
  have "t \<in> set known_targets"
    using set_mp [OF valid_targets [OF assms(1)], of t] assms(2) known [THEN conjunct1] known [THEN conjunct2]
    by (cases "Targets s = []"; cases "archOrDefault s = ''arm64''")
      (simp_all only: targetsOrDefault_def simp_thms if_True if_False list.set insert_iff empty_iff, blast+)
  moreover have "\<forall>t \<in> set known_targets. CHR '','' \<notin> set t" by (simp add: known_targets_def)
  ultimately show ?thesis by blast
qed

lemma split_targets:
  assumes "Validate s = None"
  shows "split_on (CHR '','') (join '','' (targetsOrDefault s)) = targetsOrDefault s"
  by (rule split_on_join) (use targets_no_comma [OF assms] in \<open>auto simp: targetsOrDefault_def\<close>)

lemma mount_id_cong:
  "KernelVersion s = KernelVersion t \<Longrightarrow> archOrDefault s = archOrDefault t \<Longrightarrow> Base s = Base t \<Longrightarrow>
   crossOrDefault s = crossOrDefault t \<Longrightarrow> ToolchainReady s = ToolchainReady t \<Longrightarrow>
   ApplyPatches s = ApplyPatches t \<Longrightarrow> mount_id s = mount_id t"
  by (simp add: mount_id_def tree_name_def toolchainHash_def toolchain_identity_def patchedSuffix_def)

lemma context_cong:
  "ConfigName s = ConfigName t \<Longrightarrow> ExpectName s = ExpectName t \<Longrightarrow> ApplyPatches s = ApplyPatches t \<Longrightarrow>
   context_state s = context_state t"
  by (simp add: context_state_def follow_paths_def)

lemma graph_key_cong:
  assumes "key_fields_of s = key_fields_of t"
  shows "key_view (graph n s) = key_view (graph n t)"
proof -
  note f = assms [unfolded key_fields_of_def, simplified]
  have "mount_id s = mount_id t" using f by (intro mount_id_cong) simp_all
  moreover have "context_state s = context_state t" using f by (intro context_cong) simp_all
  moreover have "helper_state s = helper_state t" using f by (simp add: helper_state_def)
  ultimately have m: "mount_opts s = mount_opts t" "optional_mounts s = optional_mounts t"
    using f by (simp_all add: mount_opts_def optional_mounts_def)
  have "env_opts s = env_opts t" using f by (simp add: env_opts_def split: prod.splits)
  moreover have "action_opts n s = action_opts n t" using f by (simp add: action_opts_def)
  moreover have "key_view (toolchain_state s) = key_view (toolchain_state t)"
    using f by (simp add: key_toolchain tc_tail_def base_state_def)
  ultimately show ?thesis using f m by (simp add: graph_def key_run_opts)
qed

text \<open>Reading the settings back from the options of the compile vertex.\<close>

lemma length_env_opts: "length (env_opts s) = 13"
  by (simp add: env_opts_def split: prod.splits)

lemma length_mount_keys: "length (concat (map key_opt (mount_opts s))) = 7"
  by (simp add: mount_opts_def)

lemma env_inject:
  assumes "env_opts s = env_opts t"
  shows "SourceDateEpoch s = SourceDateEpoch t \<and> source_identity s = source_identity t \<and>
    SourceLocalName s = SourceLocalName t \<and> archOrDefault s = archOrDefault t \<and>
    crossOrDefault s = crossOrDefault t \<and> join '','' (targetsOrDefault s) = join '','' (targetsOrDefault t) \<and>
    ApplyPatches s = ApplyPatches t \<and> BaseMake s = BaseMake t"
proof -
  obtain a b c where s: "source_identity s = (a, b, c)" by (rule prod_cases3)
  obtain a' b' c' where t: "source_identity t = (a', b', c')" by (rule prod_cases3)
  show ?thesis using assms unfolding env_opts_def s t by (simp split: if_splits)
qed

lemma mounts_inject:
  assumes "concat (map key_opt (mount_opts s)) = concat (map key_opt (mount_opts t))"
  shows "key_view (helper_state s) = key_view (helper_state t) \<and> follow_paths s = follow_paths t \<and>
    ConfigName s = ConfigName t \<and> mount_id s = mount_id t"
  using assms by (simp add: mount_opts_def key_context ctx_key_def)

lemma helper_inject: "key_view (helper_state s) = key_view (helper_state t) \<Longrightarrow> HelperRef s = HelperRef t"
  by (simp add: helper_state_def split: if_splits)

lemma follow_inject:
  "follow_paths s = follow_paths t \<Longrightarrow> ApplyPatches s = ApplyPatches t \<Longrightarrow> ExpectName s = ExpectName t"
  by (simp add: follow_paths_def split: if_splits)

lemma tail_inject:
  assumes "(if IgnoreCache s then [Ignore_Cache] else []) @ action_opts n s =
    (if IgnoreCache t then [Ignore_Cache] else []) @ action_opts n t"
  shows "IgnoreCache s = IgnoreCache t \<and> SeedPush s = SeedPush t"
  using assms by (simp add: action_opts_def split: if_splits)

lemma graph_key_inject:
  assumes v: "Validate s = None" "Validate t = None" and eq: "key_view (graph n s) = key_view (graph n t)"
  shows "key_fields_of s = key_fields_of t"
proof -
  have tc: "key_view (toolchain_state s) = key_view (toolchain_state t)"
    and os: "concat (map key_opt (run_opts n s)) = concat (map key_opt (run_opts n t))"
    using eq by (simp_all add: graph_def)
  have 1: "env_opts s = env_opts t"
    and 2: "concat (map key_opt (mount_opts s)) = concat (map key_opt (mount_opts t))"
    and 3: "concat (map key_opt (optional_mounts s)) @ (if IgnoreCache s then [Ignore_Cache] else []) @ action_opts n s =
      concat (map key_opt (optional_mounts t)) @ (if IgnoreCache t then [Ignore_Cache] else []) @ action_opts n t"
    using os unfolding key_run_opts
    by (simp_all only: list.inject append_eq_append_conv length_env_opts length_mount_keys simp_thms)
  note env = env_inject [OF 1] and mnt = mounts_inject [OF 2]
  have x: "ExpectName s = ExpectName t" using follow_inject env mnt by blast
  have "context_state s = context_state t" by (rule context_cong) (use env mnt x in simp_all)
  with env x have "optional_mounts s = optional_mounts t" by (simp add: optional_mounts_def)
  with 3 have tl: "IgnoreCache s = IgnoreCache t \<and> SeedPush s = SeedPush t" by (intro tail_inject [of _ n]) simp
  have "tree_name s = tree_name t" using mnt by (simp add: mount_id_def)
  note ver = tree_name_inject [OF this v]
  have "join '','' (targetsOrDefault s) = join '','' (targetsOrDefault t)" using env by blast
  then have "targetsOrDefault s = targetsOrDefault t" by (metis split_targets v)
  moreover have "HelperRef s = HelperRef t" using mnt by (intro helper_inject) blast
  ultimately show ?thesis
    using toolchain_key_inject [OF tc] env mnt x tl ver unfolding key_fields_of_def by (elim conjE) (simp only: refl)
qed

section \<open>Environment and mounts of an exec\<close>

fun env_pairs :: "run_opt list \<Rightarrow> (string \<times> string) list" where
  "env_pairs [] = []"
| "env_pairs (AddEnv k v # os) = (k, v) # env_pairs os"
| "env_pairs (_ # os) = env_pairs os"

text \<open>The last assignment of a variable counts.\<close>

definition env_of :: "run_opt list \<Rightarrow> string \<rightharpoonup> string" where
  "env_of os = map_of (rev (env_pairs os))"

fun mounts_of :: "run_opt list \<Rightarrow> (string \<times> llb_state \<times> mount_opt list) list" where
  "mounts_of [] = []"
| "mounts_of (AddMount p st os # rest) = (p, st, os) # mounts_of rest"
| "mounts_of (_ # rest) = mounts_of rest"

lemma env_pairs_append [simp]: "env_pairs (as @ bs) = env_pairs as @ env_pairs bs"
  by (induction as rule: env_pairs.induct) simp_all

lemma mounts_of_append [simp]: "mounts_of (as @ bs) = mounts_of as @ mounts_of bs"
  by (induction as rule: mounts_of.induct) simp_all

fun args_of :: "run_opt list \<Rightarrow> string list list" where
  "args_of [] = []"
| "args_of (Args a # os) = a # args_of os"
| "args_of (_ # os) = args_of os"

lemma args_of_append [simp]: "args_of (as @ bs) = args_of as @ args_of bs"
  by (induction as rule: args_of.induct) simp_all

lemma args_none:
  "args_of (env_opts s) = []" "args_of (mount_opts s) = []" "args_of (optional_mounts s) = []"
  "args_of (proxy_opts s) = []" "args_of (action_opts n s) = []"
  by (simp_all add: env_opts_def mount_opts_def optional_mounts_def proxy_opts_def action_opts_def Let_def
      split: prod.splits)

definition contract_env :: "spec \<Rightarrow> (string \<times> string) list" where
  "contract_env s =
     [(''SOURCE_DATE_EPOCH'', SourceDateEpoch s), (''KBUILD_BUILD_USER'', ''builder''),
      (''KBUILD_BUILD_HOST'', ''linux''), (''TZ'', ''UTC''),
      (''SRC_ID'', fst (source_identity s)), (''SRC_URL'', fst (snd (source_identity s))),
      (''SRC_SHA256'', snd (snd (source_identity s))), (''SRC_LOCAL'', SourceLocalName s),
      (''KARCH'', archOrDefault s), (''CROSS_COMPILE'', crossOrDefault s),
      (''TARGETS'', join '','' (targetsOrDefault s)), (''APPLY_PATCHES'', if ApplyPatches s then ''1'' else ''0''),
      (''BASE_MAKE'', BaseMake s)]"

lemma env_pairs_run_opts:
  "env_pairs (run_opts n s) = contract_env s @ (if SeedPush s then [(''SEED_PUSH'', ''1''), (''SEED_ACTION'', n)] else [])"
proof -
  have "env_pairs (env_opts s) = contract_env s"
    by (simp add: env_opts_def contract_env_def split: prod.splits)
  moreover have "env_pairs (proxy_opts s) = []" "env_pairs (mount_opts s) = []" "env_pairs (optional_mounts s) = []"
    by (simp_all add: proxy_opts_def mount_opts_def optional_mounts_def Let_def)
  moreover have "env_pairs (action_opts n s) = (if SeedPush s then [(''SEED_PUSH'', ''1''), (''SEED_ACTION'', n)] else [])"
    by (simp add: action_opts_def)
  ultimately show ?thesis by (simp add: run_opts_def)
qed

lemma contract_names:
  "map fst (contract_env s) = [''SOURCE_DATE_EPOCH'', ''KBUILD_BUILD_USER'', ''KBUILD_BUILD_HOST'', ''TZ'', ''SRC_ID'',
     ''SRC_URL'', ''SRC_SHA256'', ''SRC_LOCAL'', ''KARCH'', ''CROSS_COMPILE'', ''TARGETS'', ''APPLY_PATCHES'', ''BASE_MAKE'']"
  by (simp add: contract_env_def)

lemma distinct_env_names: "distinct (map fst (env_pairs (run_opts n s)))"
proof -
  have "distinct ([''SOURCE_DATE_EPOCH'', ''KBUILD_BUILD_USER'', ''KBUILD_BUILD_HOST'', ''TZ'', ''SRC_ID'',
     ''SRC_URL'', ''SRC_SHA256'', ''SRC_LOCAL'', ''KARCH'', ''CROSS_COMPILE'', ''TARGETS'', ''APPLY_PATCHES'', ''BASE_MAKE'']
     @ [''SEED_PUSH'', ''SEED_ACTION''])" by code_simp
  then show ?thesis unfolding env_pairs_run_opts map_append contract_names by (cases "SeedPush s") simp_all
qed

lemma env_of_run_opts: "env_of (run_opts n s) = map_of (env_pairs (run_opts n s))"
proof -
  have "map_of (rev xs) = map_of xs" if "distinct (map fst xs)" for xs :: "(string \<times> string) list"
    using that by (intro iffD2 [OF map_of_inject_set]) (simp_all add: rev_map [symmetric])
  then show ?thesis unfolding env_of_def using distinct_env_names by blast
qed

lemma env_values:
  "env_of (run_opts n s) ''KARCH'' = Some (archOrDefault s)"
  "env_of (run_opts n s) ''CROSS_COMPILE'' = Some (crossOrDefault s)"
  "env_of (run_opts n s) ''TARGETS'' = Some (join '','' (targetsOrDefault s))"
  "env_of (run_opts n s) ''SOURCE_DATE_EPOCH'' = Some (SourceDateEpoch s)"
  "env_of (run_opts n s) ''SEED_PUSH'' = (if SeedPush s then Some ''1'' else None)"
  "env_of (run_opts n s) ''SRC_ID'' = Some (fst (source_identity s))"
  "env_of (run_opts n s) ''BASE_MAKE'' = Some (BaseMake s)"
  "env_of (run_opts n s) ''APPLY_PATCHES'' = Some (if ApplyPatches s then ''1'' else ''0'')"
  by (simp_all add: env_of_run_opts env_pairs_run_opts contract_env_def)

section \<open>Properties of the graph\<close>


definition proxied_spec :: spec where
  "proxied_spec = DefaultSpec\<lparr>HTTPSProxy := ''http://10.0.0.1:3128'', NoProxy := ''mirror.local''\<rparr>"

lemma pinned_DefaultSpec: "CHR ''@'' \<in> set (Base DefaultSpec)"
  by code_simp

lemma graph_DefaultSpec: "KernelLLB n DefaultSpec = Inr (graph n DefaultSpec)"
  using valid_DefaultSpec pinned_DefaultSpec by (simp add: KernelLLB_Inr_iff)

lemma graph_proxied_spec: "KernelLLB n proxied_spec = Inr (graph n proxied_spec)"
proof -
  have "matches proxyRe ''http://10.0.0.1:3128''" "matches noProxyRe ''mirror.local''" by code_simp+
  moreover have "source_errors proxied_spec = source_errors DefaultSpec" "seed_errors proxied_spec = seed_errors DefaultSpec"
    "archOrDefault proxied_spec = archOrDefault DefaultSpec"
    by (simp_all add: proxied_spec_def source_errors_def seed_errors_def archOrDefault_def)
  ultimately have "Validate proxied_spec = None"
    using valid_DefaultSpec unfolding Validate_None_iff by (simp add: proxied_spec_def del: matches.simps)
  then show ?thesis using pinned_DefaultSpec by (simp add: KernelLLB_Inr_iff proxied_spec_def)
qed


text \<open>
  Where the object tree is seeded from leaves no trace in the graph at all: changing the seed URL, region
  and prefix of a spec changes nothing, as long as both specs are accepted.
\<close>

theorem KernelLLB_seed_neutral:
  assumes "KernelLLB n s = Inr g" and "KernelLLB n (s\<lparr>SeedURL := u, SeedRegion := r, SeedPrefix := p\<rparr>) = Inr h"
  shows "g = h"
proof -
  let ?t = "s\<lparr>SeedURL := u, SeedRegion := r, SeedPrefix := p\<rparr>"
  have d: "archOrDefault ?t = archOrDefault s" "crossOrDefault ?t = crossOrDefault s"
      "targetsOrDefault ?t = targetsOrDefault s" "source_identity ?t = source_identity s"
    by (simp_all add: archOrDefault_def crossOrDefault_def targetsOrDefault_def source_identity_def)
  have "mount_id ?t = mount_id s" "context_state ?t = context_state s" "helper_state ?t = helper_state s"
    using d by (auto intro: mount_id_cong context_cong simp: helper_state_def)
  then have "mount_opts ?t = mount_opts s" "optional_mounts ?t = optional_mounts s" "env_opts ?t = env_opts s"
      "action_opts n ?t = action_opts n s" "proxy_opts ?t = proxy_opts s" "toolchain_state ?t = toolchain_state s"
    using d by (simp_all add: mount_opts_def optional_mounts_def env_opts_def action_opts_def proxy_opts_def
        toolchain_state_def base_state_def ca_opts_def)
  then have "graph n ?t = graph n s" using d by (simp add: graph_def run_opts_def)
  with assms show ?thesis unfolding KernelLLB_Inr_iff by simp
qed

theorem KernelLLB_seed_neutral_witness:
  "graph ''n'' (DefaultSpec\<lparr>SeedURL := ''https://r2.example.com/seeds'', SeedRegion := [], SeedPrefix := ''p''\<rparr>) =
   graph ''n'' DefaultSpec"
proof -
  let ?t = "DefaultSpec\<lparr>SeedURL := ''https://r2.example.com/seeds'', SeedRegion := [], SeedPrefix := ''p''\<rparr>"
  have "matches seedURLRe ''https://r2.example.com/seeds''" "matches prefixRe ''p''" "no_dotdot ''p''" by code_simp+
  moreover have "source_errors ?t = source_errors DefaultSpec" "archOrDefault ?t = archOrDefault DefaultSpec"
    by (simp_all add: source_errors_def archOrDefault_def)
  ultimately have "Validate ?t = None"
    using valid_DefaultSpec unfolding Validate_None_iff seed_errors_None by (simp del: matches.simps)
  then have "KernelLLB ''n'' ?t = Inr (graph ''n'' ?t)" using pinned_DefaultSpec by (simp add: KernelLLB_Inr_iff)
  from KernelLLB_seed_neutral [OF graph_DefaultSpec this] show ?thesis by simp
qed





section \<open>The identity of the source\<close>

text \<open>A digest or a URL, and never the identity of a local archive.\<close>

lemma remote_identity:
  assumes "Validate x = None" "SourceLocalName x = []"
  shows "token (fst (source_identity x))" "take 6 (fst (source_identity x)) \<noteq> ''local:''"
    "CHR ''h'' \<in> set (fst (source_identity x)) \<longleftrightarrow> SourceSHA256 x = []"
proof -
  have url: "take 5 (SourceURL x) = ''https''" "token (SourceURL x)" "take 6 (SourceURL x) \<noteq> ''local:''"
    using valid_url [OF assms] re_token(11) by (auto simp: prefix_def)
  then have h: "CHR ''h'' \<in> set (SourceURL x)" using set_take_subset [of 5 "SourceURL x"] by auto
  have sha: "CHR ''l'' \<notin> set (SourceSHA256 x)" "CHR ''h'' \<notin> set (SourceSHA256 x)" "token (SourceSHA256 x)" if "SourceSHA256 x \<noteq> []"
  proof -
    have m: "matches sha256Re (SourceSHA256 x)" using valid_sha [OF assms(1)] that by blast
    have "\<not> in_ranges c (alpha sha256Re)" if "c = CHR ''l'' \<or> c = CHR ''h''" for c
    proof -
      have "in_ranges c (alpha sha256Re) \<Longrightarrow> in_ranges c (alpha (Cls (digit_range @ [(CHR ''a'', CHR ''f'')])))"
        unfolding sha256Re_def using alpha_Rep [of 64 "Cls (digit_range @ [(CHR ''a'', CHR ''f'')])"]
        by (auto simp: in_ranges_def list_ex_iff)
      then show ?thesis using that by (auto simp: in_ranges_def digit_range_def)
    qed
    with m show "CHR ''l'' \<notin> set (SourceSHA256 x)" "CHR ''h'' \<notin> set (SourceSHA256 x)" by (auto dest: matches_excludes)
    show "token (SourceSHA256 x)" using m by (rule re_token)
  qed
  have i: "fst (source_identity x) = (if SourceSHA256 x = [] then SourceURL x else SourceSHA256 x)"
    using assms(2) by (simp add: source_identity_def)
  show "token (fst (source_identity x))" "CHR ''h'' \<in> set (fst (source_identity x)) \<longleftrightarrow> SourceSHA256 x = []"
    unfolding i using url(2) h sha(2,3) by auto
  have "take 6 (SourceSHA256 x) \<noteq> ''local:''" if "SourceSHA256 x \<noteq> []"
    using sha(1) [OF that] set_take_subset [of 6 "SourceSHA256 x"] by (metis in_mono list.set_intros(1))
  then show "take 6 (fst (source_identity x)) \<noteq> ''local:''" unfolding i using url(3) by simp
qed

lemma remote_identity_inject:
  assumes "Validate s = None" "Validate t = None" "SourceLocalName s = []" "SourceLocalName t = []"
    "fst (source_identity s) = fst (source_identity t)"
  shows "SourceSHA256 s = SourceSHA256 t \<and> (SourceSHA256 s = [] \<longrightarrow> SourceURL s = SourceURL t)"
proof -
  have "SourceSHA256 s = [] \<longleftrightarrow> SourceSHA256 t = []"
    using remote_identity(3) [OF assms(1,3)] remote_identity(3) [OF assms(2,4)] assms(5) by simp
  then show ?thesis using assms(3-5) by (auto simp: source_identity_def split: if_splits)
qed

end
