(* ===== verification/Kernelfile.thy ===== *)
theory Kernelfile
  imports BuildSpec
begin

text \<open>
  \<^verbatim>\<open>ParseKernelfile\<close> of \<^verbatim>\<open>step.go\<close>: the line scanner (\<^verbatim>\<open>bufio.Scanner\<close> with its 64 KiB token limit), comment
  stripping, the duplicate-key check, the effect of each key and the derivation of the source after
  the last line. The specification \<open>kf_spec\<close> says what a file means as a map from keys to values; the
  main theorem is that the parser accepts exactly the well-formed files and computes that meaning.
\<close>

section \<open>The scanner\<close>

definition max_token :: nat where "max_token = 65536"

definition drop_cr :: "string \<Rightarrow> string" where
  "drop_cr l = (if l \<noteq> [] \<and> last l = CHR 0x0D then butlast l else l)"

text \<open>The text between newlines; a final newline does not start another line.\<close>

definition raw_lines :: "string \<Rightarrow> string list" where
  "raw_lines s = (let ps = split_on newline s in if last ps = [] then butlast ps else ps)"

text \<open>The lines \<open>Scan\<close> delivers, and whether it then stops with \<open>ErrTooLong\<close>.\<close>

fun scan :: "string list \<Rightarrow> string list \<times> bool" where
  "scan [] = ([], False)"
| "scan (p # ps) =
     (if length p \<ge> max_token then ([], True)
      else let (ls, err) = scan ps in (drop_cr p # ls, err))"

section \<open>One line\<close>

definition bom :: string where "bom = [CHR 0xEF, CHR 0xBB, CHR 0xBF]"

definition blank :: "char \<Rightarrow> bool" where "blank c \<longleftrightarrow> c = CHR '' '' \<or> c = CHR 0x09"

text \<open>Cut at the first \<open>#\<close>, if it starts the line or follows a blank.\<close>

definition strip_comment :: "string \<Rightarrow> string" where
  "strip_comment t =
     (let before = takeWhile (\<lambda>c. c \<noteq> CHR ''#'') t
      in if CHR ''#'' \<in> set t \<and> (before = [] \<or> blank (last before)) then before else t)"

definition line_text :: "nat \<Rightarrow> string \<Rightarrow> string" where
  "line_text n raw = trim_space (strip_comment (if n = 1 then trim_prefix raw bom else raw))"

datatype kf_line = Blank_Line | Bad_Line | Pair string string

definition read_line :: "nat \<Rightarrow> string \<Rightarrow> kf_line" where
  "read_line n raw =
     (let t = line_text n raw
      in if t = [] then Blank_Line
         else if \<not> list_ex blank t then Bad_Line
         else let key = takeWhile (\<lambda>c. \<not> blank c) t;
                  val = trim_space (tl (dropWhile (\<lambda>c. \<not> blank c) t))
              in if val = [] then Bad_Line else Pair key val)"

section \<open>The keys\<close>

datatype kf_error =
    KWantKeyValue nat string | KDuplicate nat string nat | KPatches nat string | KNoTarget nat
  | KToolchain nat string | KUnknown nat string | KTooLong

record pstate =
  pspec :: spec
  sawKernel :: bool
  sawURL :: bool
  sawSHA :: bool
  seen :: "(string \<times> nat) list"

definition is_target_sep :: "char \<Rightarrow> bool" where
  "is_target_sep r \<longleftrightarrow> r = CHR '' '' \<or> r = CHR 0x09 \<or> r = CHR '',''"

definition set_key :: "nat \<Rightarrow> string \<Rightarrow> string \<Rightarrow> pstate \<Rightarrow> (kf_error, pstate) result" where
  "set_key n key val st =
     (let sp = pspec st in
      if key = ''KERNEL'' then Inr (st\<lparr>pspec := sp\<lparr>KernelVersion := val\<rparr>, sawKernel := True\<rparr>)
      else if key = ''SOURCE_URL'' then Inr (st\<lparr>pspec := sp\<lparr>SourceURL := val\<rparr>, sawURL := True\<rparr>)
      else if key = ''SHA256'' then Inr (st\<lparr>pspec := sp\<lparr>SourceSHA256 := val\<rparr>, sawSHA := True\<rparr>)
      else if key = ''EPOCH'' then Inr (st\<lparr>pspec := sp\<lparr>SourceDateEpoch := val\<rparr>\<rparr>)
      else if key = ''CONFIG'' then Inr (st\<lparr>pspec := sp\<lparr>ConfigName := val\<rparr>\<rparr>)
      else if key = ''EXPECT'' then Inr (st\<lparr>pspec := sp\<lparr>ExpectName := val\<rparr>\<rparr>)
      else if key = ''BASE_MAKE'' then Inr (st\<lparr>pspec := sp\<lparr>BaseMake := val\<rparr>\<rparr>)
      else if key = ''PATCHES'' then
        (if val = ''on'' then Inr (st\<lparr>pspec := sp\<lparr>ApplyPatches := True\<rparr>\<rparr>)
         else if val = ''off'' then Inr (st\<lparr>pspec := sp\<lparr>ApplyPatches := False\<rparr>\<rparr>)
         else Inl (KPatches n val))
      else if key = ''ARCH'' then Inr (st\<lparr>pspec := sp\<lparr>Arch := val\<rparr>\<rparr>)
      else if key = ''CROSS_COMPILE'' then Inr (st\<lparr>pspec := sp\<lparr>CrossCompile := val\<rparr>\<rparr>)
      else if key = ''TARGETS'' then
        (let tgts = fields_func is_target_sep val
         in if tgts = [] then Inl (KNoTarget n) else Inr (st\<lparr>pspec := sp\<lparr>Targets := tgts\<rparr>\<rparr>))
      else if key = ''PROXY_CA'' then Inr (st\<lparr>pspec := sp\<lparr>ProxyCAFile := val\<rparr>\<rparr>)
      else if key = ''BASE'' then Inr (st\<lparr>pspec := sp\<lparr>Base := val\<rparr>\<rparr>)
      else if key = ''TOOLCHAIN'' then
        (if val = ''ready'' then Inr (st\<lparr>pspec := sp\<lparr>ToolchainReady := True\<rparr>\<rparr>)
         else if val = ''apt'' then Inr (st\<lparr>pspec := sp\<lparr>ToolchainReady := False\<rparr>\<rparr>)
         else Inl (KToolchain n val))
      else Inl (KUnknown n key))"

section \<open>The loop\<close>

definition parse_line :: "nat \<Rightarrow> string \<Rightarrow> pstate \<Rightarrow> (kf_error, pstate) result" where
  "parse_line n raw st =
     (case read_line n raw of
        Blank_Line \<Rightarrow> Inr st
      | Bad_Line \<Rightarrow> Inl (KWantKeyValue n (line_text n raw))
      | Pair key val \<Rightarrow>
          (case map_of (seen st) key of
             Some first \<Rightarrow> Inl (KDuplicate n key first)
           | None \<Rightarrow> set_key n key val (st\<lparr>seen := (key, n) # seen st\<rparr>)))"

fun parse_lines :: "nat \<Rightarrow> string list \<Rightarrow> pstate \<Rightarrow> (kf_error, pstate) result" where
  "parse_lines n [] st = Inr st"
| "parse_lines n (l # ls) st = rbind (parse_line n l st) (parse_lines (Suc n) ls)"

text \<open>After EOF: derive the URL of a new kernel version, drop a pin that belongs to another tarball.\<close>

definition finish :: "pstate \<Rightarrow> spec" where
  "finish st =
     (let sp = pspec st;
          sp = (if sawKernel st \<and> \<not> sawURL st then sp\<lparr>SourceURL := SourceURLFor (KernelVersion sp)\<rparr> else sp)
      in if (sawKernel st \<or> sawURL st) \<and> \<not> sawSHA st then sp\<lparr>SourceSHA256 := []\<rparr> else sp)"

definition init_pstate :: "spec \<Rightarrow> pstate" where
  "init_pstate sp = \<lparr>pspec = sp, sawKernel = False, sawURL = False, sawSHA = False, seen = []\<rparr>"

definition ParseKernelfile :: "string \<Rightarrow> spec \<Rightarrow> (kf_error, spec) result" where
  "ParseKernelfile input sp =
     (let (ls, err) = scan (raw_lines input)
      in rbind (parse_lines 1 ls (init_pstate sp))
           (\<lambda>st. if err then Inl KTooLong else Inr (finish st)))"

section \<open>What a Kernelfile means\<close>

text \<open>The pairs of a list of lines, in order; only the first line may carry a byte order mark.\<close>

fun pairs_from :: "nat \<Rightarrow> string list \<Rightarrow> (string \<times> string) list" where
  "pairs_from n [] = []"
| "pairs_from n (l # ls) =
     (case read_line n l of Pair k v \<Rightarrow> (k, v) # pairs_from (Suc n) ls | _ \<Rightarrow> pairs_from (Suc n) ls)"

fun readable_from :: "nat \<Rightarrow> string list \<Rightarrow> bool" where
  "readable_from n [] \<longleftrightarrow> True"
| "readable_from n (l # ls) \<longleftrightarrow> read_line n l \<noteq> Bad_Line \<and> readable_from (Suc n) ls"

definition kf_keys :: "string list" where
  "kf_keys = [''KERNEL'', ''SOURCE_URL'', ''SHA256'', ''EPOCH'', ''CONFIG'', ''EXPECT'', ''BASE_MAKE'', ''PATCHES'',
     ''ARCH'', ''CROSS_COMPILE'', ''TARGETS'', ''PROXY_CA'', ''BASE'', ''TOOLCHAIN'']"

definition kv_ok :: "string \<times> string \<Rightarrow> bool" where
  "kv_ok kv \<longleftrightarrow> (case kv of (k, v) \<Rightarrow> k \<in> set kf_keys \<and>
     (k = ''PATCHES'' \<longrightarrow> v = ''on'' \<or> v = ''off'') \<and>
     (k = ''TOOLCHAIN'' \<longrightarrow> v = ''ready'' \<or> v = ''apt'') \<and>
     (k = ''TARGETS'' \<longrightarrow> fields_func is_target_sep v \<noteq> []))"

definition val_or :: "string option \<Rightarrow> string \<Rightarrow> string" where
  "val_or x d = (case x of None \<Rightarrow> d | Some v \<Rightarrow> v)"

definition kf_fields :: "(string \<rightharpoonup> string) \<Rightarrow> spec \<Rightarrow> spec" where
  "kf_fields m s = s\<lparr>
     Base := val_or (m ''BASE'') (Base s),
     KernelVersion := val_or (m ''KERNEL'') (KernelVersion s),
     SourceURL := val_or (m ''SOURCE_URL'') (SourceURL s),
     SourceSHA256 := val_or (m ''SHA256'') (SourceSHA256 s),
     SourceDateEpoch := val_or (m ''EPOCH'') (SourceDateEpoch s),
     ConfigName := val_or (m ''CONFIG'') (ConfigName s),
     ExpectName := val_or (m ''EXPECT'') (ExpectName s),
     BaseMake := val_or (m ''BASE_MAKE'') (BaseMake s),
     ApplyPatches := (case m ''PATCHES'' of None \<Rightarrow> ApplyPatches s | Some v \<Rightarrow> v = ''on''),
     ToolchainReady := (case m ''TOOLCHAIN'' of None \<Rightarrow> ToolchainReady s | Some v \<Rightarrow> v = ''ready''),
     Arch := val_or (m ''ARCH'') (Arch s),
     CrossCompile := val_or (m ''CROSS_COMPILE'') (CrossCompile s),
     Targets := (case m ''TARGETS'' of None \<Rightarrow> Targets s | Some v \<Rightarrow> fields_func is_target_sep v),
     ProxyCAFile := val_or (m ''PROXY_CA'') (ProxyCAFile s)\<rparr>"

text \<open>
  The meaning of a set of pairs: each key sets its field; a kernel version without a URL derives the
  URL; a new source without a digest clears the inherited one.
\<close>

definition kf_spec :: "(string \<rightharpoonup> string) \<Rightarrow> spec \<Rightarrow> spec" where
  "kf_spec m s = (kf_fields m s)\<lparr>
     SourceURL := (case m ''SOURCE_URL'' of Some u \<Rightarrow> u
       | None \<Rightarrow> (case m ''KERNEL'' of Some v \<Rightarrow> SourceURLFor v | None \<Rightarrow> SourceURL s)),
     SourceSHA256 := (case m ''SHA256'' of Some h \<Rightarrow> h
       | None \<Rightarrow> if m ''KERNEL'' = None \<and> m ''SOURCE_URL'' = None then SourceSHA256 s else [])\<rparr>"

section \<open>The parser computes it\<close>

text \<open>The state after the pairs of \<open>m\<close> have been read.\<close>

definition tracks :: "spec \<Rightarrow> (string \<rightharpoonup> string) \<Rightarrow> pstate \<Rightarrow> bool" where
  "tracks s m st \<longleftrightarrow> pspec st = kf_fields m s \<and> (sawKernel st \<longleftrightarrow> m ''KERNEL'' \<noteq> None) \<and>
     (sawURL st \<longleftrightarrow> m ''SOURCE_URL'' \<noteq> None) \<and> (sawSHA st \<longleftrightarrow> m ''SHA256'' \<noteq> None) \<and>
     dom (map_of (seen st)) = dom m"

lemma tracks_init: "tracks s Map.empty (init_pstate s)"
  by (simp add: tracks_def init_pstate_def kf_fields_def val_or_def)

lemma tracks_finish: "tracks s m st \<Longrightarrow> finish st = kf_spec m s"
  by (auto simp: tracks_def finish_def kf_spec_def kf_fields_def val_or_def Let_def split: option.splits)

lemma set_key_ok: "is_ok (set_key n k v st) \<longleftrightarrow> kv_ok (k, v)"
proof (cases "k \<in> set kf_keys")
  case True
  then show ?thesis
    unfolding kf_keys_def list.set insert_iff empty_iff
    by (elim disjE) (simp_all add: set_key_def Let_def kv_ok_def kf_keys_def)
next
  case False
  then show ?thesis by (simp add: set_key_def Let_def kv_ok_def kf_keys_def)
qed

lemma kf_fields_upd:
  "kf_fields (m(''KERNEL'' \<mapsto> v)) s = (kf_fields m s)\<lparr>KernelVersion := v\<rparr>"
  "kf_fields (m(''SOURCE_URL'' \<mapsto> v)) s = (kf_fields m s)\<lparr>SourceURL := v\<rparr>"
  "kf_fields (m(''SHA256'' \<mapsto> v)) s = (kf_fields m s)\<lparr>SourceSHA256 := v\<rparr>"
  "kf_fields (m(''EPOCH'' \<mapsto> v)) s = (kf_fields m s)\<lparr>SourceDateEpoch := v\<rparr>"
  "kf_fields (m(''CONFIG'' \<mapsto> v)) s = (kf_fields m s)\<lparr>ConfigName := v\<rparr>"
  "kf_fields (m(''EXPECT'' \<mapsto> v)) s = (kf_fields m s)\<lparr>ExpectName := v\<rparr>"
  "kf_fields (m(''BASE_MAKE'' \<mapsto> v)) s = (kf_fields m s)\<lparr>BaseMake := v\<rparr>"
  "kf_fields (m(''ARCH'' \<mapsto> v)) s = (kf_fields m s)\<lparr>Arch := v\<rparr>"
  "kf_fields (m(''CROSS_COMPILE'' \<mapsto> v)) s = (kf_fields m s)\<lparr>CrossCompile := v\<rparr>"
  "kf_fields (m(''PROXY_CA'' \<mapsto> v)) s = (kf_fields m s)\<lparr>ProxyCAFile := v\<rparr>"
  "kf_fields (m(''BASE'' \<mapsto> v)) s = (kf_fields m s)\<lparr>Base := v\<rparr>"
  "kf_fields (m(''PATCHES'' \<mapsto> v)) s = (kf_fields m s)\<lparr>ApplyPatches := v = ''on''\<rparr>"
  "kf_fields (m(''TOOLCHAIN'' \<mapsto> v)) s = (kf_fields m s)\<lparr>ToolchainReady := v = ''ready''\<rparr>"
  "kf_fields (m(''TARGETS'' \<mapsto> v)) s = (kf_fields m s)\<lparr>Targets := fields_func is_target_sep v\<rparr>"
  by (simp_all add: kf_fields_def val_or_def)

lemma set_key_eqs:
  "set_key n ''KERNEL'' v st = Inr (st\<lparr>pspec := (pspec st)\<lparr>KernelVersion := v\<rparr>, sawKernel := True\<rparr>)"
  "set_key n ''SOURCE_URL'' v st = Inr (st\<lparr>pspec := (pspec st)\<lparr>SourceURL := v\<rparr>, sawURL := True\<rparr>)"
  "set_key n ''SHA256'' v st = Inr (st\<lparr>pspec := (pspec st)\<lparr>SourceSHA256 := v\<rparr>, sawSHA := True\<rparr>)"
  "set_key n ''EPOCH'' v st = Inr (st\<lparr>pspec := (pspec st)\<lparr>SourceDateEpoch := v\<rparr>\<rparr>)"
  "set_key n ''CONFIG'' v st = Inr (st\<lparr>pspec := (pspec st)\<lparr>ConfigName := v\<rparr>\<rparr>)"
  "set_key n ''EXPECT'' v st = Inr (st\<lparr>pspec := (pspec st)\<lparr>ExpectName := v\<rparr>\<rparr>)"
  "set_key n ''BASE_MAKE'' v st = Inr (st\<lparr>pspec := (pspec st)\<lparr>BaseMake := v\<rparr>\<rparr>)"
  "set_key n ''ARCH'' v st = Inr (st\<lparr>pspec := (pspec st)\<lparr>Arch := v\<rparr>\<rparr>)"
  "set_key n ''CROSS_COMPILE'' v st = Inr (st\<lparr>pspec := (pspec st)\<lparr>CrossCompile := v\<rparr>\<rparr>)"
  "set_key n ''PROXY_CA'' v st = Inr (st\<lparr>pspec := (pspec st)\<lparr>ProxyCAFile := v\<rparr>\<rparr>)"
  "set_key n ''BASE'' v st = Inr (st\<lparr>pspec := (pspec st)\<lparr>Base := v\<rparr>\<rparr>)"
  by (simp_all add: set_key_def Let_def)

lemma set_key_choices:
  "set_key n ''PATCHES'' v st =
     (if v = ''on'' \<or> v = ''off'' then Inr (st\<lparr>pspec := (pspec st)\<lparr>ApplyPatches := v = ''on''\<rparr>\<rparr>) else Inl (KPatches n v))"
  "set_key n ''TOOLCHAIN'' v st =
     (if v = ''ready'' \<or> v = ''apt'' then Inr (st\<lparr>pspec := (pspec st)\<lparr>ToolchainReady := v = ''ready''\<rparr>\<rparr>)
      else Inl (KToolchain n v))"
  "set_key n ''TARGETS'' v st =
     (if fields_func is_target_sep v = [] then Inl (KNoTarget n)
      else Inr (st\<lparr>pspec := (pspec st)\<lparr>Targets := fields_func is_target_sep v\<rparr>\<rparr>))"
  by (simp_all add: set_key_def Let_def)

lemma set_key_tracks:
  assumes "tracks s m st" and "set_key n k v (st\<lparr>seen := (k, n) # seen st\<rparr>) = Inr st'"
  shows "tracks s (m(k \<mapsto> v)) st'"
proof -
  have "k \<in> set kf_keys"
    using assms(2) set_key_ok [of n k v "st\<lparr>seen := (k, n) # seen st\<rparr>"] by (simp add: kv_ok_def)
  then show ?thesis
    using assms unfolding kf_keys_def list.set insert_iff empty_iff
    by (elim disjE) (clarsimp simp: tracks_def set_key_eqs set_key_choices kf_fields_upd split: if_splits)+
qed

lemma parse_line_Inr:
  assumes "tracks s m st"
  shows "parse_line n l st = Inr st' \<longleftrightarrow>
    (case read_line n l of
       Blank_Line \<Rightarrow> st' = st
     | Bad_Line \<Rightarrow> False
     | Pair k v \<Rightarrow> m k = None \<and> kv_ok (k, v) \<and> set_key n k v (st\<lparr>seen := (k, n) # seen st\<rparr>) = Inr st')"
proof -
  have "m k = None \<longleftrightarrow> map_of (seen st) k = None" for k
    using assms by (metis tracks_def domIff)
  moreover have "kv_ok (k, v)" if "set_key n k v x = Inr y" for k v x y
    using set_key_ok [of n k v x] that by simp
  ultimately show ?thesis
    by (auto simp: parse_line_def split: kf_line.splits option.splits)
qed

lemma parse_lines_sound:
  assumes "tracks s m st" and "parse_lines n ls st = Inr st'"
  shows "readable_from n ls \<and> distinct (map fst (pairs_from n ls)) \<and>
    fst ` set (pairs_from n ls) \<inter> dom m = {} \<and> list_all kv_ok (pairs_from n ls) \<and>
    tracks s (m ++ map_of (pairs_from n ls)) st'"
  using assms
proof (induction n ls st arbitrary: m rule: parse_lines.induct)
  case (1 n st)
  then show ?case by simp
next
  case (2 n l ls st)
  from "2.prems"(2) obtain st1 where st1: "parse_line n l st = Inr st1" "parse_lines (Suc n) ls st1 = Inr st'"
    by (auto simp: rbind_Inr_iff)
  show ?case
  proof (cases "read_line n l")
    case Blank_Line
    with st1 "2.prems"(1) have "st1 = st" by (simp add: parse_line_Inr)
    with "2.IH" [OF _ st1(2), of m] "2.prems"(1) Blank_Line show ?thesis by simp
  next
    case Bad_Line
    with st1 "2.prems"(1) show ?thesis by (simp add: parse_line_Inr)
  next
    case (Pair k v)
    with st1 "2.prems"(1)
    have k: "m k = None" "kv_ok (k, v)" "set_key n k v (st\<lparr>seen := (k, n) # seen st\<rparr>) = Inr st1"
      by (simp_all add: parse_line_Inr)
    have "tracks s (m(k \<mapsto> v)) st1" using "2.prems"(1) k(3) by (rule set_key_tracks)
    note IH = "2.IH" [OF this st1(2)]
    then have new: "k \<notin> fst ` set (pairs_from (Suc n) ls)" by auto
    then have "m(k \<mapsto> v) ++ map_of (pairs_from (Suc n) ls) = m ++ map_of ((k, v) # pairs_from (Suc n) ls)"
      by (simp only: map_of.simps map_add_upd fst_conv snd_conv map_add_upd_left dom_map_of_conv_image_fst
          not_False_eq_True)
    with IH new k Pair show ?thesis by (simp only: pairs_from.simps kf_line.case) auto
  qed
qed

lemma parse_lines_complete:
  assumes "tracks s m st" and "readable_from n ls" and "distinct (map fst (pairs_from n ls))"
    and "fst ` set (pairs_from n ls) \<inter> dom m = {}" and "list_all kv_ok (pairs_from n ls)"
  shows "is_ok (parse_lines n ls st)"
  using assms
proof (induction ls arbitrary: n m st)
  case Nil
  then show ?case by simp
next
  case (Cons l ls)
  show ?case
  proof (cases "read_line n l")
    case Blank_Line
    then have "parse_line n l st = Inr st" using Cons.prems(1) by (simp add: parse_line_Inr)
    with Cons Blank_Line show ?thesis by simp
  next
    case Bad_Line
    with Cons.prems show ?thesis by simp
  next
    case (Pair k v)
    with Cons.prems have k: "m k = None" "kv_ok (k, v)" by auto
    then obtain st1 where st1: "set_key n k v (st\<lparr>seen := (k, n) # seen st\<rparr>) = Inr st1"
      using set_key_ok [of n k v "st\<lparr>seen := (k, n) # seen st\<rparr>"] by (auto simp: is_ok_iff)
    have "tracks s (m(k \<mapsto> v)) st1" using Cons.prems(1) st1 by (rule set_key_tracks)
    moreover have "parse_line n l st = Inr st1" using Cons.prems(1) Pair k st1 by (simp add: parse_line_Inr)
    moreover have "is_ok (parse_lines (Suc n) ls st1)"
      by (rule Cons.IH [OF \<open>tracks s (m(k \<mapsto> v)) st1\<close>])
        (use Cons.prems Pair in \<open>simp_all add: dom_fun_upd del: fun_upd_apply\<close>)
    ultimately show ?thesis by simp
  qed
qed

section \<open>Files as lists of lines\<close>

text \<open>A line that is one line of its file wherever it stands: no newline, short, no byte order mark.\<close>

definition plain_line :: "string \<Rightarrow> bool" where
  "plain_line l \<longleftrightarrow> newline \<notin> set l \<and> length l < max_token \<and> \<not> has_prefix l bom"

lemma raw_lines_unlines: "list_all plain_line ls \<Longrightarrow> raw_lines (unlines ls) = ls"
  using split_unlines [of ls] by (simp add: raw_lines_def plain_line_def list_all_iff Let_def)

lemma scan_plain: "list_all plain_line ls \<Longrightarrow> scan ls = (map drop_cr ls, False)"
  by (induction ls) (auto simp: plain_line_def)

definition plain_read :: "string \<Rightarrow> kf_line" where
  "plain_read l = read_line 2 (drop_cr l)"

definition pair_of :: "string \<Rightarrow> (string \<times> string) list" where
  "pair_of l = (case plain_read l of Pair k v \<Rightarrow> [(k, v)] | _ \<Rightarrow> [])"

lemma read_line_plain: "plain_line l \<Longrightarrow> read_line n (drop_cr l) = plain_read l"
proof -
  assume l: "plain_line l"
  have "prefix (drop_cr l) l" by (simp add: drop_cr_def prefixeq_butlast)
  with l have "\<not> has_prefix (drop_cr l) bom"
    unfolding plain_line_def using prefix_order.trans by blast
  then show ?thesis by (simp add: plain_read_def read_line_def line_text_def trim_prefix_def)
qed

lemma pairs_plain: "list_all plain_line ls \<Longrightarrow> pairs_from n (map drop_cr ls) = concat (map pair_of ls)"
  by (induction ls arbitrary: n) (simp_all add: pair_of_def read_line_plain split: kf_line.splits)

lemma readable_plain:
  "list_all plain_line ls \<Longrightarrow> readable_from n (map drop_cr ls) \<longleftrightarrow> (\<forall>l \<in> set ls. plain_read l \<noteq> Bad_Line)"
  by (induction ls arbitrary: n) (simp_all add: read_line_plain)

lemma parse_iff:
  "ParseKernelfile input s = Inr s' \<longleftrightarrow>
     (case scan (raw_lines input) of (ls, err) \<Rightarrow>
        \<not> err \<and> readable_from 1 ls \<and> distinct (map fst (pairs_from 1 ls)) \<and>
        list_all kv_ok (pairs_from 1 ls) \<and> s' = kf_spec (map_of (pairs_from 1 ls)) s)"
proof -
  obtain ls err where sc: "scan (raw_lines input) = (ls, err)" by fastforce
  show ?thesis
  proof
    assume "ParseKernelfile input s = Inr s'"
    with sc obtain st where st: "parse_lines 1 ls (init_pstate s) = Inr st" "\<not> err" "s' = finish st"
      by (auto simp: ParseKernelfile_def rbind_Inr_iff split: if_splits)
    from parse_lines_sound [OF tracks_init st(1)] st sc tracks_finish
    show "case scan (raw_lines input) of (ls, err) \<Rightarrow>
        \<not> err \<and> readable_from 1 ls \<and> distinct (map fst (pairs_from 1 ls)) \<and>
        list_all kv_ok (pairs_from 1 ls) \<and> s' = kf_spec (map_of (pairs_from 1 ls)) s"
      by (auto simp: tracks_finish)
  next
    assume "case scan (raw_lines input) of (ls, err) \<Rightarrow>
        \<not> err \<and> readable_from 1 ls \<and> distinct (map fst (pairs_from 1 ls)) \<and>
        list_all kv_ok (pairs_from 1 ls) \<and> s' = kf_spec (map_of (pairs_from 1 ls)) s"
    with sc have c: "\<not> err" "readable_from 1 ls" "distinct (map fst (pairs_from 1 ls))"
        "list_all kv_ok (pairs_from 1 ls)" "s' = kf_spec (map_of (pairs_from 1 ls)) s" by auto
    then obtain st where st: "parse_lines 1 ls (init_pstate s) = Inr st"
      using parse_lines_complete [OF tracks_init c(2,3)] by (auto simp: is_ok_iff)
    from parse_lines_sound [OF tracks_init this] c(5) have "finish st = s'" by (simp add: tracks_finish)
    with sc st c(1) show "ParseKernelfile input s = Inr s'" by (simp add: ParseKernelfile_def)
  qed
qed

lemma parse_plain_iff:
  assumes "list_all plain_line ls"
  shows "ParseKernelfile (unlines ls) s = Inr s' \<longleftrightarrow>
    (\<forall>l \<in> set ls. plain_read l \<noteq> Bad_Line) \<and> distinct (map fst (concat (map pair_of ls))) \<and>
    list_all kv_ok (concat (map pair_of ls)) \<and> s' = kf_spec (map_of (concat (map pair_of ls))) s"
  using assms by (simp add: parse_iff raw_lines_unlines scan_plain readable_plain pairs_plain)

lemma parse_sample:
  "ParseKernelfile (unlines [''SHA256 ab'', ''KERNEL 6.1'']) DefaultSpec =
     Inr (DefaultSpec\<lparr>KernelVersion := ''6.1'', SourceURL := SourceURLFor ''6.1'', SourceSHA256 := ''ab''\<rparr>)"
proof -
  have p: "list_all plain_line [''SHA256 ab'', ''KERNEL 6.1'']"
    by (simp add: plain_line_def newline_def max_token_def bom_def)
  have r: "plain_read ''SHA256 ab'' = Pair ''SHA256'' ''ab''" "plain_read ''KERNEL 6.1'' = Pair ''KERNEL'' ''6.1''"
    by code_simp+
  show ?thesis
    by (simp add: parse_plain_iff [OF p] pair_of_def r kv_ok_def kf_keys_def kf_spec_def kf_fields_def val_or_def)
qed

section \<open>Properties of the parser\<close>


text \<open>
  C18. Key order does not matter: any permutation of the lines of a file parses to the same spec, or
  is rejected as well.
\<close>

theorem ParseKernelfile_order:
  assumes "list_all plain_line ls" and "mset ls = mset ls'"
  shows "ParseKernelfile (unlines ls) s = Inr s' \<longleftrightarrow> ParseKernelfile (unlines ls') s = Inr s'"
proof -
  let ?p = "\<lambda>ls. concat (map pair_of ls)"
  have sets: "set ls = set ls'" using assms(2) by (rule mset_eq_setD)
  then have plain: "list_all plain_line ls'" using assms(1) by (simp add: list_all_iff)
  have "mset (?p xs) = sum_mset (image_mset (\<lambda>l. mset (pair_of l)) (mset xs))" for xs
    by (induction xs) auto
  then have p: "mset (?p ls) = mset (?p ls')" using assms(2) by simp
  then have d: "distinct (map fst (?p ls)) \<longleftrightarrow> distinct (map fst (?p ls'))"
    by (intro mset_eq_imp_distinct_iff) (simp add: p)
  have "map_of (?p ls) = map_of (?p ls')" if "distinct (map fst (?p ls))"
    by (rule iffD2 [OF map_of_inject_set [OF that iffD1 [OF d that]] mset_eq_setD [OF p]])
  then have m: "distinct (map fst (?p ls')) \<Longrightarrow> map_of (?p ls) = map_of (?p ls')" using d by simp
  have k: "list_all kv_ok (?p ls) \<longleftrightarrow> list_all kv_ok (?p ls')"
    unfolding list_all_iff mset_eq_setD [OF p] ..
  show ?thesis
    unfolding parse_plain_iff [OF assms(1)] parse_plain_iff [OF plain] sets d k
    by (cases "distinct (map fst (?p ls'))") (simp_all only: m simp_thms)
qed

theorem ParseKernelfile_order_witness:
  "mset [''SHA256 ab'', ''KERNEL 6.1''] = mset [''KERNEL 6.1'', ''SHA256 ab''] \<and>
   ParseKernelfile (unlines [''KERNEL 6.1'', ''SHA256 ab'']) DefaultSpec =
     Inr (DefaultSpec\<lparr>KernelVersion := ''6.1'', SourceURL := SourceURLFor ''6.1'', SourceSHA256 := ''ab''\<rparr>)"
proof -
  have p: "list_all plain_line [''SHA256 ab'', ''KERNEL 6.1'']" by (simp add: plain_line_def newline_def max_token_def bom_def)
  have m: "mset [''SHA256 ab'', ''KERNEL 6.1''] = mset [''KERNEL 6.1'', ''SHA256 ab'']" by simp
  show ?thesis using m iffD1 [OF ParseKernelfile_order [OF p m] parse_sample] by (rule conjI)
qed

text \<open>
  C17. A digest never outlives its tarball: if the parsed spec is pinned, then either the file gives
  the digest itself or the file names neither a kernel nor a source, and version, URL and digest are
  the ones the parser started from.
\<close>

theorem ParseKernelfile_pin:
  assumes "ParseKernelfile input s = Inr s'" and "SourceSHA256 s' \<noteq> []"
  shows "(''SHA256'', SourceSHA256 s') \<in> set (pairs_from 1 (fst (scan (raw_lines input)))) \<or>
    KernelVersion s' = KernelVersion s \<and> SourceURL s' = SourceURL s \<and> SourceSHA256 s' = SourceSHA256 s"
proof -
  let ?m = "map_of (pairs_from 1 (fst (scan (raw_lines input))))"
  have s': "s' = kf_spec ?m s" using assms(1) by (simp add: parse_iff split: prod.splits)
  show ?thesis
  proof (cases "?m ''SHA256''")
    case (Some h)
    then have "SourceSHA256 s' = h" by (simp add: s' kf_spec_def kf_fields_def)
    with Some show ?thesis by (simp add: map_of_SomeD)
  next
    case None
    with assms(2) have "?m ''KERNEL'' = None" "?m ''SOURCE_URL'' = None"
      by (auto simp: s' kf_spec_def kf_fields_def split: if_splits)
    with None show ?thesis by (simp add: s' kf_spec_def kf_fields_def val_or_def)
  qed
qed

theorem ParseKernelfile_pin_witness:
  "ParseKernelfile (unlines [''SHA256 ab'', ''KERNEL 6.1'']) DefaultSpec =
     Inr (DefaultSpec\<lparr>KernelVersion := ''6.1'', SourceURL := SourceURLFor ''6.1'', SourceSHA256 := ''ab''\<rparr>) \<and>
   (''SHA256'', ''ab'') \<in> set (pairs_from 1 (fst (scan (raw_lines (unlines [''SHA256 ab'', ''KERNEL 6.1''])))))"
proof -
  have "KernelVersion DefaultSpec \<noteq> ''6.1''" by code_simp
  with parse_sample ParseKernelfile_pin [OF parse_sample] show ?thesis by simp
qed

text \<open>
  Only the first \<open>#\<close> of a line is looked at: when it does not follow a blank, a later comment that
  does is kept as part of the value.
\<close>

theorem strip_comment_first_hash:
  assumes "CHR ''#'' \<notin> set a" and "a \<noteq> []" and "\<not> blank (last a)"
  shows "strip_comment (a @ CHR ''#'' # b) = a @ CHR ''#'' # b"
proof -
  have "takeWhile (\<lambda>c. c \<noteq> CHR ''#'') a = a" using assms(1) by (auto simp: takeWhile_eq_all_conv)
  with assms show ?thesis by (simp add: strip_comment_def Let_def takeWhile_tail)
qed

theorem strip_comment_first_hash_witness:
  "strip_comment ''SOURCE_URL https://h/l.tar.gz#v1 # pinned'' = ''SOURCE_URL https://h/l.tar.gz#v1 # pinned''"
  using strip_comment_first_hash [of "''SOURCE_URL https://h/l.tar.gz''" "''v1 # pinned''"]
  by (simp add: blank_def)

end
