(* ===== verification/Gateway.thy ===== *)
theory Gateway
  imports Graph Kernelfile
begin

text \<open>
  \<^verbatim>\<open>gateway.go\<close>: the solve path shared by the frontend and the client driver. The BuildKit client is a record of
  functions (it is not part of the program); every request the program sends it is recorded, so that the order of
  validation, resolution, context check and solve can be stated.
\<close>

section \<open>The client\<close>

type_synonym cache_entry = "string \<times> (string \<times> string) list"

text \<open>
  \<open>'r\<close> are solve results, \<open>'f\<close> references to a solved file system; \<open>c_marshal\<close> says whether a state marshals.
\<close>

record ('r, 'f) gw_client =
  c_resolve :: "string \<Rightarrow> string \<Rightarrow> (string, string \<times> string) result"
  c_marshal :: "llb_state \<Rightarrow> string option"
  c_solve :: "llb_state \<Rightarrow> cache_entry list \<Rightarrow> (string, 'r) result"
  c_single :: "'r \<Rightarrow> (string, 'f) result"
  c_stat :: "'f \<Rightarrow> string \<Rightarrow> bool"
  c_readdir :: "'f \<Rightarrow> string \<Rightarrow> string \<Rightarrow> (string, string list) result"
  c_readfile :: "'f \<Rightarrow> string \<Rightarrow> (string, string) result"

datatype request = Resolve_Image string string | Solve llb_state "cache_entry list"

datatype gw_error =
    GwSpec spec_error | GwGraph graph_error | GwResolve string string | GwNoDigest string | GwMarshal string
  | GwSolve string | GwSingle string | GwMissing string string | GwNoPatchDir string | GwNoPatches
  | GwFile string string | GwParse kf_error | GwOpt string string | GwPlatform string | GwNoHelper
  | GwCacheImports string | GwSubrequest string | GwDescribe string

text \<open>A computation that sends requests: what was sent, and the result.\<close>

type_synonym 'a gw = "request list \<times> (gw_error, 'a) result"

definition gret :: "'a \<Rightarrow> 'a gw" where "gret a = ([], Inr a)"

definition gerr :: "gw_error \<Rightarrow> 'a gw" where "gerr e = ([], Inl e)"

definition gbind :: "'a gw \<Rightarrow> ('a \<Rightarrow> 'b gw) \<Rightarrow> 'b gw" where
  "gbind m f = (case m of (t, Inl e) \<Rightarrow> (t, Inl e) | (t, Inr a) \<Rightarrow> (case f a of (u, r) \<Rightarrow> (t @ u, r)))"

definition lift_err :: "('e \<Rightarrow> gw_error) \<Rightarrow> ('e, 'a) result \<Rightarrow> 'a gw" where
  "lift_err k r = ([], case r of Inl e \<Rightarrow> Inl (k e) | Inr a \<Rightarrow> Inr a)"

definition check_err :: "('e \<Rightarrow> gw_error) \<Rightarrow> 'e option \<Rightarrow> unit gw" where
  "check_err k x = (case x of None \<Rightarrow> gret () | Some e \<Rightarrow> gerr (k e))"

definition solve_state :: "('r, 'f) gw_client \<Rightarrow> llb_state \<Rightarrow> cache_entry list \<Rightarrow> 'r gw" where
  "solve_state c st ci = gbind (check_err GwMarshal (c_marshal c st))
     (\<lambda>_. ([Solve st ci], case c_solve c st ci of Inl e \<Rightarrow> Inl (GwSolve e) | Inr r \<Rightarrow> Inr r))"

section \<open>Resolving the base\<close>

definition resolveBase :: "('r, 'f) gw_client \<Rightarrow> string \<Rightarrow> string \<Rightarrow> (string \<times> string) gw" where
  "resolveBase c ref mode =
     ([Resolve_Image ref mode],
      case c_resolve c ref mode of
        Inl e \<Rightarrow> Inl (GwResolve ref e)
      | Inr (mutRef, dgst) \<Rightarrow>
          if dgst = [] then Inl (GwNoDigest ref)
          else Inr (fst (str_cut mutRef (CHR ''@'')), dgst))"

section \<open>The build context\<close>

definition contextFiles :: "spec \<Rightarrow> (string \<times> string) list" where
  "contextFiles s = [(''CONFIG'', ConfigName s)]
     @ (if ExpectName s \<noteq> [] then [(''EXPECT'', ExpectName s)] else [])
     @ (if ProxyCAFile s \<noteq> [] then [(''PROXY_CA'', ProxyCAFile s)] else [])"

definition missingContextFile :: "string \<times> string \<Rightarrow> gw_error" where
  "missingContextFile f = GwMissing (fst f) (snd f)"

definition probe_state :: "spec \<Rightarrow> llb_state" where
  "probe_state s =
     (let follow = map snd (contextFiles s) @ (if ApplyPatches s then [''patches''] else [])
      in Local ''context'' follow ''kbuild-context'' (''[internal] check '' @ join '', '' follow))"

definition first_missing :: "(string \<Rightarrow> bool) \<Rightarrow> spec \<Rightarrow> gw_error option" where
  "first_missing present s = map_option missingContextFile (find (\<lambda>f. \<not> present (snd f)) (contextFiles s))"

definition checkContext :: "('r, 'f) gw_client \<Rightarrow> spec \<Rightarrow> unit gw" where
  "checkContext c s =
     gbind (solve_state c (probe_state s) []) (\<lambda>res.
     gbind (lift_err GwSingle (c_single c res)) (\<lambda>ref.
     gbind (check_err id (first_missing (c_stat c ref) s)) (\<lambda>_.
       if \<not> ApplyPatches s then gret ()
       else gbind (lift_err GwNoPatchDir (c_readdir c ref ''patches'' ''*.patch'')) (\<lambda>ents.
         if list_ex (\<lambda>e. has_suffix e ''.patch'') ents then gret () else gerr GwNoPatches))))"

text \<open>
  The client-side form. \<open>exists\<close> is \<^verbatim>\<open>os.Stat\<close> below the context directory and \<open>globbed\<close> what \<^verbatim>\<open>filepath.Glob\<close>
  returns for \<open>patches/*.patch\<close>.
\<close>

definition checkContextDir :: "(string \<Rightarrow> bool) \<Rightarrow> string list option \<Rightarrow> spec \<Rightarrow> gw_error option" where
  "checkContextDir exists globbed s =
     (case first_missing exists s of
        Some e \<Rightarrow> Some e
      | None \<Rightarrow>
          if \<not> ApplyPatches s then None
          else (case globbed of None \<Rightarrow> Some GwNoPatches | Some names \<Rightarrow> if names = [] then Some GwNoPatches else None))"

section \<open>GatewaySolve\<close>

definition pin_base :: "('r, 'f) gw_client \<Rightarrow> string \<Rightarrow> spec \<Rightarrow> spec gw" where
  "pin_base c mode s =
     (if contains (Base s) ''@'' then gret s
      else gbind (resolveBase c (Base s) mode) (\<lambda>(ref, dgst). gret (s\<lparr>Base := ref @ ''@'' @ dgst\<rparr>)))"

definition GatewaySolve ::
  "string \<Rightarrow> ('r, 'f) gw_client \<Rightarrow> spec \<Rightarrow> string \<Rightarrow> cache_entry list \<Rightarrow> 'r gw" where
  "GatewaySolve nonce c s mode ci =
     gbind (check_err GwSpec (Validate s)) (\<lambda>_.
     gbind (pin_base c mode s) (\<lambda>s.
     gbind (checkContext c s) (\<lambda>_.
     gbind (lift_err GwGraph (KernelLLB nonce s)) (\<lambda>st.
       solve_state c st ci))))"

section \<open>Requests\<close>

lemma gbind_simps [simp]:
  "gbind (gret a) f = f a" "gbind (gerr e) f = gerr e"
  by (simp_all add: gbind_def gret_def gerr_def)

lemma gbind_Inr:
  "gbind m f = (t, Inr b) \<longleftrightarrow> (\<exists>t1 t2 a. m = (t1, Inr a) \<and> f a = (t2, Inr b) \<and> t = t1 @ t2)"
  by (cases m; cases "snd m") (auto simp: gbind_def split: prod.splits)

lemma fst_gbind: "fst (gbind m f) = fst m @ (case snd m of Inl e \<Rightarrow> [] | Inr a \<Rightarrow> fst (f a))"
  by (cases m; cases "snd m") (auto simp: gbind_def split: prod.splits)

lemma mem_gbind: "q \<in> set (fst (gbind m f)) \<longleftrightarrow> q \<in> set (fst m) \<or> (\<exists>a. snd m = Inr a \<and> q \<in> set (fst (f a)))"
  by (cases "snd m") (auto simp: fst_gbind)

lemma snd_gbind: "snd (gbind m f) = (case snd m of Inl e \<Rightarrow> Inl e | Inr a \<Rightarrow> snd (f a))"
  by (cases m; cases "snd m") (auto simp: gbind_def split: prod.splits)

lemma no_requests [simp]:
  "fst (gret a) = []" "fst (gerr e) = []" "fst (lift_err k r) = []" "fst (check_err k x) = []"
  by (simp_all add: gret_def gerr_def lift_err_def check_err_def split: option.splits)

lemma results [simp]:
  "snd (gret a) = Inr a" "snd (gerr e) = Inl e"
  "snd (check_err k x) = (case x of None \<Rightarrow> Inr () | Some e \<Rightarrow> Inl (k e))"
  "snd (lift_err k r) = (case r of Inl e \<Rightarrow> Inl (k e) | Inr a \<Rightarrow> Inr a)"
  by (simp_all add: gret_def gerr_def lift_err_def check_err_def split: option.splits)

lemma case_lift_Inr: "(case r of Inl e \<Rightarrow> Inl (k e) | Inr a \<Rightarrow> Inr a) = Inr b \<longleftrightarrow> r = Inr b"
  by (cases r) simp_all

lemma solve_state_trace: "set (fst (solve_state c st ci)) \<subseteq> {Solve st ci}"
  by (simp add: solve_state_def fst_gbind split: option.splits)

lemma pin_base_trace:
  "set (fst (pin_base c mode s)) \<subseteq> (if CHR ''@'' \<in> set (Base s) then {} else {Resolve_Image (Base s) mode})"
  by (auto simp: pin_base_def fst_gbind resolveBase_def contains_char split: sum.splits prod.splits)

lemma checkContext_trace: "set (fst (checkContext c s)) \<subseteq> {Solve (probe_state s) []}"
  using solve_state_trace [of c "probe_state s" "[]"]
  by (auto simp: checkContext_def fst_gbind split: sum.splits option.splits if_splits)

lemma str_cut_before: "c \<notin> set (fst (str_cut s c))"
  by (auto simp: str_cut_def dest: set_takeWhileD)

lemma pin_base_Inr:
  "snd (pin_base c mode s) = Inr s' \<longleftrightarrow>
     (if CHR ''@'' \<in> set (Base s) then s' = s
      else \<exists>r d. c_resolve c (Base s) mode = Inr (r, d) \<and> d \<noteq> [] \<and>
        s' = s\<lparr>Base := fst (str_cut r (CHR ''@'')) @ ''@'' @ d\<rparr>)"
  by (auto simp: pin_base_def snd_gbind resolveBase_def contains_char split: sum.splits prod.splits if_splits)

lemma pin_base_pinned: "snd (pin_base c mode s) = Inr s' \<Longrightarrow> CHR ''@'' \<in> set (Base s')"
  by (auto simp: pin_base_Inr split: if_splits)

lemma GatewaySolve_cases:
  "GatewaySolve n c s mode ci =
     (case Validate s of
        Some e \<Rightarrow> gerr (GwSpec e)
      | None \<Rightarrow> gbind (pin_base c mode s) (\<lambda>s. gbind (checkContext c s) (\<lambda>_.
          gbind (lift_err GwGraph (KernelLLB n s)) (\<lambda>st. solve_state c st ci))))"
  by (simp add: GatewaySolve_def check_err_def split: option.splits)

lemma the_probe:
  assumes "c_marshal c (probe_state s) = None" and "c_solve c (probe_state s) [] = Inr r" and "c_single c r = Inr f"
  shows "snd (checkContext c s) =
    (case first_missing (c_stat c f) s of Some e \<Rightarrow> Inl e | None \<Rightarrow>
       if \<not> ApplyPatches s then Inr ()
       else (case c_readdir c f ''patches'' ''*.patch'' of Inl e \<Rightarrow> Inl (GwNoPatchDir e)
         | Inr ents \<Rightarrow> if list_ex (\<lambda>e. has_suffix e ''.patch'') ents then Inr () else Inl GwNoPatches))"
  using assms
  by (simp add: checkContext_def snd_gbind solve_state_def split: option.splits sum.splits)

lemma first_missing_None: "first_missing present s = None \<longleftrightarrow> (\<forall>f \<in> set (contextFiles s). present (snd f))"
  by (auto simp: first_missing_def find_None_iff)

lemma checkContext_ok:
  assumes "c_marshal c (probe_state s) = None" and "c_solve c (probe_state s) [] = Inr r" and "c_single c r = Inr f"
  shows "snd (checkContext c s) = Inr () \<longleftrightarrow>
    (\<forall>k \<in> set (contextFiles s). c_stat c f (snd k)) \<and>
    (ApplyPatches s \<longrightarrow> (\<exists>ents. c_readdir c f ''patches'' ''*.patch'' = Inr ents \<and> (\<exists>e \<in> set ents. has_suffix e ''.patch'')))"
  unfolding the_probe [OF assms] using first_missing_None [of "c_stat c f" s]
  by (auto split: option.splits sum.splits if_splits simp: list_ex_iff)

text \<open>A client that resolves every reference to one digest and has every file: used to instantiate hypotheses.\<close>

definition sample_client :: "string \<Rightarrow> (unit, unit) gw_client" where
  "sample_client d = \<lparr>c_resolve = (\<lambda>ref mode. Inr (ref, d)), c_marshal = (\<lambda>_. None),
     c_solve = (\<lambda>_ _. Inr ()), c_single = (\<lambda>_. Inr ()), c_stat = (\<lambda>_ _. True),
     c_readdir = (\<lambda>_ _ _. Inr [''a.patch'']), c_readfile = (\<lambda>_ _. Inr ''KERNEL 6.1'')\<rparr>"

definition tagged_spec :: spec where
  "tagged_spec = DefaultSpec\<lparr>Base := ''ubuntu:24.04''\<rparr>"

lemma valid_with_base:
  assumes "matches imageRefRe b" and "no_dotdot b"
  shows "Validate (DefaultSpec\<lparr>Base := b\<rparr>) = None"
proof -
  let ?s = "DefaultSpec\<lparr>Base := b\<rparr>"
  have "source_errors ?s = source_errors DefaultSpec" "seed_errors ?s = seed_errors DefaultSpec"
    "archOrDefault ?s = archOrDefault DefaultSpec"
    by (simp_all add: source_errors_def seed_errors_def archOrDefault_def)
  with assms valid_DefaultSpec show ?thesis unfolding Validate_None_iff by simp
qed

lemma tagged_spec_valid: "Validate tagged_spec = None"
  unfolding tagged_spec_def by (rule valid_with_base) code_simp+

lemma tagged_spec_unpinned: "CHR ''@'' \<notin> set (Base tagged_spec)"
  by (simp add: tagged_spec_def)

lemma pin_sample:
  "d \<noteq> [] \<Longrightarrow> snd (pin_base (sample_client d) mode tagged_spec) = Inr (tagged_spec\<lparr>Base := ''ubuntu:24.04@'' @ d\<rparr>)"
  by (simp add: pin_base_Inr tagged_spec_unpinned) (simp add: sample_client_def tagged_spec_def str_cut_def)

lemma valid_pinned_sample:
  "Validate (tagged_spec\<lparr>Base := ''ubuntu:24.04@sha256:1''\<rparr>) = None"
  "Validate (tagged_spec\<lparr>Base := ''ubuntu:24.04@sha256:2''\<rparr>) = None"
  unfolding tagged_spec_def by (simp_all del: matches.simps) (rule valid_with_base, code_simp, code_simp)+

lemma sample_context: "snd (checkContext (sample_client d) s) = Inr ()"
proof -
  have p: "c_marshal (sample_client d) (probe_state s) = None" "c_solve (sample_client d) (probe_state s) [] = Inr ()"
    "c_single (sample_client d) () = Inr ()" by (simp_all add: sample_client_def)
  have "has_suffix ''a.patch'' ''.patch''" by code_simp
  then show ?thesis unfolding checkContext_ok [OF p] by (simp add: sample_client_def)
qed

section \<open>Properties of the solve path\<close>

text \<open>
  C23. Nothing leaves the program unchecked: \<open>GatewaySolve\<close> contacts the registry only for a validated, unpinned base
  and only about that base; it solves nothing but the context probe of the pinned spec and, after the context
  check has succeeded, the graph of the pinned spec, whose base carries a digest, with the caller's cache imports.
\<close>

theorem GatewaySolve_guarded:
  assumes "q \<in> set (fst (GatewaySolve n c s mode ci))"
  shows "Validate s = None \<and>
    (q = Resolve_Image (Base s) mode \<and> CHR ''@'' \<notin> set (Base s) \<or>
     (\<exists>s'. snd (pin_base c mode s) = Inr s' \<and> CHR ''@'' \<in> set (Base s') \<and>
        (q = Solve (probe_state s') [] \<or>
         (\<exists>g. snd (checkContext c s') = Inr () \<and> KernelLLB n s' = Inr g \<and> q = Solve g ci))))"
proof -
  have v: "Validate s = None"
    using assms unfolding GatewaySolve_cases by (cases "Validate s") simp_all
  have q: "q \<in> set (fst (pin_base c mode s)) \<or>
      (\<exists>s'. snd (pin_base c mode s) = Inr s' \<and>
         (q \<in> set (fst (checkContext c s')) \<or>
          (\<exists>g. snd (checkContext c s') = Inr () \<and> KernelLLB n s' = Inr g \<and> q \<in> set (fst (solve_state c g ci)))))"
    using assms v unfolding GatewaySolve_cases
    by (auto simp: mem_gbind case_lift_Inr)
  then show ?thesis
    using v pin_base_trace [of c mode s] pin_base_pinned [of c mode s] checkContext_trace [of c]
      solve_state_trace [of c _ ci] by (auto split: if_splits) blast+
qed

theorem GatewaySolve_guarded_witness:
  "Resolve_Image ''ubuntu:24.04'' [] \<in> set (fst (GatewaySolve ''n'' (sample_client ''sha256:1'') tagged_spec [] [])) \<and>
   Validate tagged_spec = None"
proof -
  have "Resolve_Image ''ubuntu:24.04'' [] \<in> set (fst (GatewaySolve ''n'' (sample_client ''sha256:1'') tagged_spec [] []))"
    using tagged_spec_valid tagged_spec_unpinned
    by (simp add: GatewaySolve_cases fst_gbind pin_base_def resolveBase_def contains_char) (simp add: tagged_spec_def)
  with GatewaySolve_guarded [OF this] show ?thesis by blast
qed



text \<open>
  A checked context has every file the graph selects: when the context check of a spec has passed, every path
  that a mount of its compile vertex selects from the build context, and the proxy CA of its toolchain vertex, is
  a file the check saw, or the patch directory holding a patch.
\<close>

theorem checkContext_covers_graph:
  assumes "c_marshal c (probe_state s) = None" and "c_solve c (probe_state s) [] = Inr r" and "c_single c r = Inr f"
    and "snd (checkContext c s) = Inr ()" and "KernelLLB n s = Inr (Run_Mount b os out m)"
    and "(p, Local ''context'' fp hint cn, mo) \<in> set (mounts_of os)" and "SourcePath sel \<in> set mo"
  shows "c_stat c f sel \<or>
    sel = ''patches'' \<and> (\<exists>ents. c_readdir c f ''patches'' ''*.patch'' = Inr ents \<and> (\<exists>e \<in> set ents. has_suffix e ''.patch''))"
proof -
  have os: "os = run_opts n s" using assms(5) by (simp add: KernelLLB_Inr_iff graph_def)
  have none: "mounts_of (env_opts s) = []" "mounts_of (proxy_opts s) = []" "mounts_of (action_opts n s) = []"
    by (simp_all add: env_opts_def proxy_opts_def action_opts_def Let_def split: prod.splits)
  have "(p, Local ''context'' fp hint cn, mo) \<in> set (mounts_of (mount_opts s)) \<union> set (mounts_of (optional_mounts s))"
    using assms(6) unfolding os run_opts_def by (simp add: none split: if_splits)
  then have "sel = ConfigName s \<or> sel = ExpectName s \<and> ExpectName s \<noteq> [] \<or> sel = ''patches'' \<and> ApplyPatches s"
    using assms(7) by (auto simp: mount_opts_def optional_mounts_def helper_state_def split: if_splits)
  moreover from checkContext_ok [OF assms(1-3)] assms(4)
  have "\<forall>k \<in> set (contextFiles s). c_stat c f (snd k)" and
    "ApplyPatches s \<longrightarrow> (\<exists>ents. c_readdir c f ''patches'' ''*.patch'' = Inr ents \<and> (\<exists>e \<in> set ents. has_suffix e ''.patch''))"
    by blast+
  ultimately show ?thesis by (auto simp: contextFiles_def)
qed

theorem checkContext_covers_graph_witness:
  "c_stat (sample_client []) () (ConfigName DefaultSpec)"
proof -
  have p: "c_marshal (sample_client []) (probe_state DefaultSpec) = None"
    "c_solve (sample_client []) (probe_state DefaultSpec) [] = Inr ()" "c_single (sample_client []) () = Inr ()"
    by (simp_all add: sample_client_def)
  have m: "(''/kernel.config'', Local ''context'' (follow_paths DefaultSpec) ''kbuild-context''
      (''[internal] load '' @ join '', '' (follow_paths DefaultSpec)), [SourcePath (ConfigName DefaultSpec), Readonly])
      \<in> set (mounts_of (run_opts ''n'' DefaultSpec))"
    by (simp add: run_opts_def mount_opts_def context_state_def)
  have s: "SourcePath (ConfigName DefaultSpec) \<in> set [SourcePath (ConfigName DefaultSpec), Readonly]" by simp
  have "ConfigName DefaultSpec \<noteq> ''patches''" by (simp add: DefaultSpec_def)
  with checkContext_covers_graph [OF p sample_context graph_DefaultSpec [unfolded graph_def] m s] show ?thesis by blast
qed

text \<open>
  C24. A good request is solved: if the spec validates, the resolver (when it is asked) returns a reference and a
  digest that form a well-formed pinned image reference, the context check passes and the graph marshals, then the
  result is what the daemon returns for the graph of the pinned spec, and that graph exists.
\<close>

theorem GatewaySolve_solves:
  assumes "Validate s = None" and "snd (pin_base c mode s) = Inr s'"
    and "matches imageRefRe (Base s')" and "no_dotdot (Base s')"
    and "snd (checkContext c s') = Inr ()" and "c_marshal c (graph n s') = None"
  shows "KernelLLB n s' = Inr (graph n s') \<and>
    snd (GatewaySolve n c s mode ci) = (case c_solve c (graph n s') ci of Inl e \<Rightarrow> Inl (GwSolve e) | Inr r \<Rightarrow> Inr r)"
proof -
  obtain b where s': "s' = s\<lparr>Base := b\<rparr>"
  proof (cases "CHR ''@'' \<in> set (Base s)")
    case True
    with assms(2) have "s' = s\<lparr>Base := Base s\<rparr>" by (simp add: pin_base_Inr)
    then show ?thesis by (rule that)
  next
    case False
    with assms(2) show ?thesis by (auto simp: pin_base_Inr intro: that)
  qed
  have e: "source_errors s' = source_errors s" "seed_errors s' = seed_errors s" "archOrDefault s' = archOrDefault s"
    by (simp_all add: s' source_errors_def seed_errors_def archOrDefault_def)
  have "Validate s' = None"
    using assms(1,3,4) unfolding Validate_None_iff e by (simp add: s')
  then have g: "KernelLLB n s' = Inr (graph n s')"
    using pin_base_pinned [OF assms(2)] by (simp add: KernelLLB_Inr_iff)
  with assms show ?thesis
    by (simp add: GatewaySolve_cases snd_gbind solve_state_def)
qed

theorem GatewaySolve_solves_witness:
  "snd (GatewaySolve ''n'' (sample_client ''sha256:1'') tagged_spec [] []) = Inr ()"
proof -
  let ?s = "tagged_spec\<lparr>Base := ''ubuntu:24.04@sha256:1''\<rparr>"
  have "snd (pin_base (sample_client ''sha256:1'') [] tagged_spec) = Inr ?s"
    using pin_sample [of "''sha256:1''" "[]"] by simp
  moreover have "matches imageRefRe (Base ?s)" "no_dotdot (Base ?s)" by code_simp+
  moreover have "c_marshal (sample_client ''sha256:1'') (graph ''n'' ?s) = None" by (simp add: sample_client_def)
  ultimately show ?thesis
    using GatewaySolve_solves [OF tagged_spec_valid _ _ _ sample_context] by (simp add: sample_client_def)
qed

text \<open>
  C25. A moving tag never mixes compilers: when one unpinned spec is resolved to two different digests, the two
  pinned specs have different cache-mount ids, unless their identity strings collide on 8 bytes of SHA-256.
\<close>

theorem moved_tag_new_tree:
  assumes "CHR ''@'' \<notin> set (Base s)"
    and "snd (pin_base c1 mode s) = Inr s1" and "c_resolve c1 (Base s) mode = Inr (r1, d1)" and "Validate s1 = None"
    and "snd (pin_base c2 mode s) = Inr s2" and "c_resolve c2 (Base s) mode = Inr (r2, d2)" and "Validate s2 = None"
    and "d1 \<noteq> d2"
  shows "mount_id s1 \<noteq> mount_id s2 \<or>
    toolchain_identity s1 \<noteq> toolchain_identity s2 \<and>
    take 8 (Sum256 (bytes_of (toolchain_identity s1))) = take 8 (Sum256 (bytes_of (toolchain_identity s2)))"
proof -
  have b: "Base s1 = fst (str_cut r1 (CHR ''@'')) @ CHR ''@'' # d1" "Base s2 = fst (str_cut r2 (CHR ''@'')) @ CHR ''@'' # d2"
    using assms(1-3,5,6) by (auto simp: pin_base_Inr)
  have "Base s1 \<noteq> Base s2"
  proof
    assume "Base s1 = Base s2"
    then have "d1 = d2" unfolding b using cut_inject [OF str_cut_before str_cut_before] by blast
    with assms(8) show False ..
  qed
  then have "toolchain_identity s1 \<noteq> toolchain_identity s2" using identity_inject [OF _ assms(4,7)] by blast
  moreover have "take 8 (toolchainHash s1) = take 8 (toolchainHash s2)" if "mount_id s1 = mount_id s2"
  proof -
    from that have "tree_name s1 = tree_name s2" by (simp add: mount_id_def)
    from tree_name_inject [OF this assms(4,7)] show ?thesis by blast
  qed
  ultimately show ?thesis unfolding toolchainHash_def by blast
qed

theorem moved_tag_new_tree_witness:
  "if mount_id (tagged_spec\<lparr>Base := ''ubuntu:24.04@sha256:1''\<rparr>) = mount_id (tagged_spec\<lparr>Base := ''ubuntu:24.04@sha256:2''\<rparr>)
   then take 8 (Sum256 (bytes_of (toolchain_identity (tagged_spec\<lparr>Base := ''ubuntu:24.04@sha256:1''\<rparr>)))) =
     take 8 (Sum256 (bytes_of (toolchain_identity (tagged_spec\<lparr>Base := ''ubuntu:24.04@sha256:2''\<rparr>))))
   else True"
proof -
  have p: "snd (pin_base (sample_client ''sha256:1'') [] tagged_spec) = Inr (tagged_spec\<lparr>Base := ''ubuntu:24.04@sha256:1''\<rparr>)"
    "snd (pin_base (sample_client ''sha256:2'') [] tagged_spec) = Inr (tagged_spec\<lparr>Base := ''ubuntu:24.04@sha256:2''\<rparr>)"
    using pin_sample [of "''sha256:1''" "[]"] pin_sample [of "''sha256:2''" "[]"] by simp_all
  have r: "c_resolve (sample_client d) (Base tagged_spec) [] = Inr (Base tagged_spec, d)" for d
    by (simp add: sample_client_def)
  have "''sha256:1'' \<noteq> ''sha256:2''" by simp
  from moved_tag_new_tree [OF tagged_spec_unpinned p(1) r valid_pinned_sample(1) p(2) r valid_pinned_sample(2) this]
  show ?thesis by (split if_split) blast
qed

end
