(* ===== verification/Frontend.thy ===== *)
theory Frontend
  imports Gateway
begin

text \<open>
  \<^verbatim>\<open>cmd/kbuild-frontend/main.go\<close>: the gateway entry point. It layers the Kernelfile and the options of the
  invocation over the default spec and hands the result to \<open>GatewaySolve\<close>. \<^verbatim>\<open>platforms.Parse\<close> and the JSON decoder of
  the cache imports are parameters.
\<close>

section \<open>Options\<close>

type_synonym opts = "string \<rightharpoonup> string"

text \<open>Indexing a Go map yields the empty string for an absent key.\<close>

definition opt :: "opts \<Rightarrow> string \<Rightarrow> string" where
  "opt opts k = (case opts k of None \<Rightarrow> [] | Some v \<Rightarrow> v)"

definition optBool :: "opts \<Rightarrow> string \<Rightarrow> bool \<Rightarrow> (gw_error, bool) result" where
  "optBool opts key dst =
     (let v = opt opts key in
      if v = [] then Inr dst else if v = ''true'' then Inr True else if v = ''false'' then Inr False
      else Inl (GwOpt key v))"

definition set_opt :: "opts \<Rightarrow> string \<Rightarrow> (string \<Rightarrow> spec \<Rightarrow> spec) \<Rightarrow> spec \<Rightarrow> spec" where
  "set_opt opts key f s = (if opt opts key \<noteq> [] then f (opt opts key) s else s)"

text \<open>\<open>parse\<close> is \<^verbatim>\<open>platforms.Parse\<close>: operating system and architecture.\<close>

definition archForPlatform :: "(string \<Rightarrow> (string, string \<times> string) result) \<Rightarrow> string \<Rightarrow> (gw_error, string) result" where
  "archForPlatform parse p =
     (if contains p '','' then Inl (GwPlatform p)
      else let p = (if contains p ''/'' then p else ''linux/'' @ p)
           in (case parse p of
                 Inl e \<Rightarrow> Inl (GwPlatform p)
               | Inr (os, arch) \<Rightarrow>
                   if os \<noteq> [] \<and> os \<noteq> ''linux'' then Inl (GwPlatform p)
                   else if arch = ''arm64'' then Inr ''arm64''
                   else if arch = ''amd64'' then Inr ''x86_64''
                   else Inl (GwPlatform p)))"

definition source_opts :: "opts \<Rightarrow> spec \<Rightarrow> spec" where
  "source_opts opts s =
     (let v = opt opts ''kernel-version'';
          s = (if v \<noteq> [] \<and> v \<noteq> KernelVersion s
               then s\<lparr>KernelVersion := v, SourceURL := SourceURLFor v, SourceSHA256 := []\<rparr> else s);
          u = opt opts ''source-url'';
          s = (if u \<noteq> [] \<and> u \<noteq> SourceURL s then s\<lparr>SourceURL := u, SourceSHA256 := []\<rparr> else s)
      in set_opt opts ''source-sha256'' (\<lambda>v. SourceSHA256_update (\<lambda>_. v)) s)"

definition name_opts :: "opts \<Rightarrow> spec \<Rightarrow> spec" where
  "name_opts opts =
     set_opt opts ''base'' (\<lambda>v. Base_update (\<lambda>_. v))
     \<circ> set_opt opts ''src-name'' (\<lambda>v. SourceLocalName_update (\<lambda>_. v))
     \<circ> set_opt opts ''helper-ref'' (\<lambda>v. HelperRef_update (\<lambda>_. v))
     \<circ> set_opt opts ''proxy-ca'' (\<lambda>v. ProxyCAFile_update (\<lambda>_. v))
     \<circ> set_opt opts ''base-make'' (\<lambda>v. BaseMake_update (\<lambda>_. v))
     \<circ> set_opt opts ''expect'' (\<lambda>v. ExpectName_update (\<lambda>_. v))
     \<circ> set_opt opts ''config'' (\<lambda>v. ConfigName_update (\<lambda>_. v))
     \<circ> set_opt opts ''source-date-epoch'' (\<lambda>v. SourceDateEpoch_update (\<lambda>_. v))"

text \<open>The first non-empty spelling of a proxy variable.\<close>

definition proxy_opt :: "opts \<Rightarrow> string list \<Rightarrow> string \<Rightarrow> string" where
  "proxy_opt opts keys dst = (case find (\<lambda>k. opt opts k \<noteq> []) keys of None \<Rightarrow> dst | Some k \<Rightarrow> opt opts k)"

definition arch_proxy_opts :: "opts \<Rightarrow> spec \<Rightarrow> spec" where
  "arch_proxy_opts opts s =
     (let s = set_opt opts ''arch'' (\<lambda>v. Arch_update (\<lambda>_. v)) s;
          s = set_opt opts ''cross-compile'' (\<lambda>v. CrossCompile_update (\<lambda>_. v)) s;
          s = s\<lparr>HTTPSProxy := proxy_opt opts [''build-arg:https_proxy'', ''build-arg:HTTPS_PROXY''] (HTTPSProxy s),
                HTTPProxy := proxy_opt opts [''build-arg:http_proxy'', ''build-arg:HTTP_PROXY''] (HTTPProxy s),
                NoProxy := proxy_opt opts [''build-arg:no_proxy'', ''build-arg:NO_PROXY''] (NoProxy s)\<rparr>
      in if opt opts ''force-network-mode'' = ''host'' then s\<lparr>NetworkHost := True\<rparr> else s)"

definition platform_opt ::
  "(string \<Rightarrow> (string, string \<times> string) result) \<Rightarrow> opts \<Rightarrow> spec \<Rightarrow> (gw_error, spec) result" where
  "platform_opt parse opts s =
     (let p = opt opts ''platform''
      in if p = [] then Inr s else rbind (archForPlatform parse p) (\<lambda>arch. Inr (s\<lparr>Arch := arch\<rparr>)))"

definition targets_opt :: "opts \<Rightarrow> spec \<Rightarrow> spec" where
  "targets_opt opts = set_opt opts ''targets'' (\<lambda>v. Targets_update (\<lambda>_. fields_func is_target_sep v))"

definition applyOpts ::
  "(string \<Rightarrow> (string, string \<times> string) result) \<Rightarrow> opts \<Rightarrow> spec \<Rightarrow> (gw_error, spec) result" where
  "applyOpts parse opts s =
     (let s = name_opts opts (source_opts opts s) in
      rbind (optBool opts ''toolchain-ready'' (ToolchainReady s)) (\<lambda>b.
      rbind (platform_opt parse opts (arch_proxy_opts opts (s\<lparr>ToolchainReady := b\<rparr>))) (\<lambda>s.
      let s = targets_opt opts s in
      rbind (optBool opts ''apply-patches'' (ApplyPatches s)) (\<lambda>b.
      let s = s\<lparr>ApplyPatches := b\<rparr>; s = (if opts ''no-cache'' \<noteq> None then s\<lparr>IgnoreCache := True\<rparr> else s) in
      rbind (optBool opts ''seed-push'' (SeedPush s)) (\<lambda>b. Inr (s\<lparr>SeedPush := b\<rparr>))))))"

section \<open>Cache imports\<close>

definition parseCacheImports ::
  "(string \<Rightarrow> (string, cache_entry list) result) \<Rightarrow> opts \<Rightarrow> (gw_error, cache_entry list) result" where
  "parseCacheImports unmarshal opts =
     rbind (let v = opt opts ''cache-imports'' in
            if v = [] then Inr []
            else (case unmarshal v of Inl e \<Rightarrow> Inl (GwCacheImports e) | Inr ci \<Rightarrow> Inr ci))
       (\<lambda>out. Inr (out @ [(''registry'', [(''ref'', ref)]).
          ref \<leftarrow> map trim_space (split_on (CHR '','') (opt opts ''cache-from'')), ref \<noteq> []]))"

section \<open>The entry point\<close>

definition kernelfile_state :: "string \<Rightarrow> llb_state" where
  "kernelfile_state filename = Local ''dockerfile'' [filename] ''kernelfile'' (''[internal] load '' @ filename)"

definition readKernelfile :: "('r, 'f) gw_client \<Rightarrow> string \<Rightarrow> string gw" where
  "readKernelfile c filename =
     gbind (solve_state c (kernelfile_state filename) []) (\<lambda>res.
     gbind (lift_err GwSingle (c_single c res)) (\<lambda>ref.
       lift_err (GwFile filename) (c_readfile c ref filename)))"

datatype 'r outcome = Described "(string \<times> string) list" | Built 'r

text \<open>BuildKit's \<^verbatim>\<open>subrequests\<close> package and the JSON encoder; the answer to a describe request is its metadata.\<close>

record 'q subrequests =
  describe_definition :: 'q
  version_of :: "'q \<Rightarrow> string"
  marshal_indent :: "'q list \<Rightarrow> (string, string) result"
  print_describe :: "string \<Rightarrow> (string, string) result"

definition describeSubrequests :: "'q subrequests \<Rightarrow> (string, (string \<times> string) list) result" where
  "describeSubrequests sr =
     rbind (marshal_indent sr [describe_definition sr]) (\<lambda>dt.
     rbind (print_describe sr dt) (\<lambda>txt.
       Inr [(''result.json'', dt), (''result.txt'', txt), (''version'', version_of sr (describe_definition sr))]))"

definition describe_request :: string where "describe_request = ''frontend.subrequests.describe''"

definition layered_spec :: "('r, 'f) gw_client \<Rightarrow> opts \<Rightarrow> spec gw" where
  "layered_spec c opts =
     (let s = (if opt opts ''source'' \<noteq> [] then DefaultSpec\<lparr>HelperRef := opt opts ''source''\<rparr> else DefaultSpec);
          filename = opt opts ''filename''
      in if filename = [] then gret s
         else gbind (readKernelfile c filename) (\<lambda>dt. lift_err GwParse (ParseKernelfile dt s)))"

definition build ::
  "'q subrequests \<Rightarrow> (string \<Rightarrow> (string, string \<times> string) result) \<Rightarrow> (string \<Rightarrow> (string, cache_entry list) result) \<Rightarrow> string \<Rightarrow>
   ('r, 'f) gw_client \<Rightarrow> opts \<Rightarrow> 'r outcome gw" where
  "build sr parse unmarshal nonce c opts =
     (let req = opt opts ''requestid'' in
      if req \<noteq> [] then (if req = describe_request then gbind (lift_err GwDescribe (describeSubrequests sr)) (\<lambda>md. gret (Described md)) else gerr (GwSubrequest req))
      else
        gbind (layered_spec c opts) (\<lambda>s.
        gbind (lift_err id (applyOpts parse opts s)) (\<lambda>s.
          if HelperRef s = [] then gerr GwNoHelper
          else
            gbind (check_err GwSpec (Validate s)) (\<lambda>_.
            gbind (lift_err id (parseCacheImports unmarshal opts)) (\<lambda>ci.
            gbind (GatewaySolve nonce c s (opt opts ''image-resolve-mode'') ci) (\<lambda>r. gret (Built r)))))))"

section \<open>What options change\<close>

lemma set_opt_absent: "opt opts k = [] \<Longrightarrow> set_opt opts k f s = s"
  by (simp add: set_opt_def)

lemma name_opts_source [simp]:
  "KernelVersion (name_opts opts s) = KernelVersion s" "SourceURL (name_opts opts s) = SourceURL s"
  "SourceSHA256 (name_opts opts s) = SourceSHA256 s"
  by (simp_all add: name_opts_def set_opt_def)

lemma arch_proxy_source [simp]:
  "KernelVersion (arch_proxy_opts opts s) = KernelVersion s" "SourceURL (arch_proxy_opts opts s) = SourceURL s"
  "SourceSHA256 (arch_proxy_opts opts s) = SourceSHA256 s"
  by (simp_all add: arch_proxy_opts_def set_opt_def Let_def)

lemma platform_source:
  "platform_opt parse opts s = Inr s' \<Longrightarrow> \<exists>a. s' = s\<lparr>Arch := a\<rparr>"
  by (auto simp: platform_opt_def Let_def rbind_Inr_iff split: if_splits intro: exI [of _ "Arch s"])

lemma applyOpts_source:
  assumes "applyOpts parse opts s = Inr s'"
  shows "KernelVersion s' = KernelVersion (source_opts opts s) \<and> SourceURL s' = SourceURL (source_opts opts s) \<and>
    SourceSHA256 s' = SourceSHA256 (source_opts opts s)"
proof -
  let ?s = "name_opts opts (source_opts opts s)"
  from assms obtain b1 s2 b3 b4 where
      p: "platform_opt parse opts (arch_proxy_opts opts (?s\<lparr>ToolchainReady := b1\<rparr>)) = Inr s2" and
      s': "s' = (let s = (targets_opt opts s2)\<lparr>ApplyPatches := b3\<rparr>; s = (if opts ''no-cache'' \<noteq> None then s\<lparr>IgnoreCache := True\<rparr> else s)
        in s\<lparr>SeedPush := b4\<rparr>)"
    unfolding applyOpts_def Let_def by (auto simp: rbind_Inr_iff simp del: fun_upd_apply)
  from platform_source [OF p] s' show ?thesis
    by (auto simp: targets_opt_def set_opt_def Let_def)
qed

lemma build_trace:
  assumes "q \<in> set (fst (build sr parse unmarshal n c opts))"
  shows "opt opts ''requestid'' = [] \<and>
    (q \<in> set (fst (layered_spec c opts)) \<or>
     (\<exists>s0 s ci. snd (layered_spec c opts) = Inr s0 \<and> applyOpts parse opts s0 = Inr s \<and> HelperRef s \<noteq> [] \<and>
        Validate s = None \<and> q \<in> set (fst (GatewaySolve n c s (opt opts ''image-resolve-mode'') ci))))"
proof (cases "opt opts ''requestid'' = []")
  case False
  with assms show ?thesis by (simp add: build_def Let_def fst_gbind split: if_splits sum.splits)
next
  case True
  from assms True show ?thesis
    unfolding build_def Let_def
    by (auto simp: mem_gbind case_lift_Inr split: if_splits option.splits)
qed

lemma layered_trace: "set (fst (layered_spec c opts)) \<subseteq>
    (if opt opts ''filename'' = [] then {} else {Solve (kernelfile_state (opt opts ''filename'')) []})"
proof -
  have "set (fst (readKernelfile c f)) \<subseteq> {Solve (kernelfile_state f) []}" for f
    using solve_state_trace [of c "kernelfile_state f" "[]"]
    by (auto simp: readKernelfile_def mem_gbind)
  from this [of "opt opts ''filename''"] show ?thesis by (auto simp: layered_spec_def Let_def mem_gbind)
qed

section \<open>Properties of the frontend\<close>


definition sample_opts :: opts where
  "sample_opts = [''source'' \<mapsto> ''ghcr.io/e/f:1'', ''filename'' \<mapsto> ''Kernelfile'']"

definition sample_sr :: "string subrequests" where
  "sample_sr = \<lparr>describe_definition = ''describe'', version_of = (\<lambda>_. ''1.0.0''), marshal_indent = (\<lambda>qs. Inr (concat qs)), print_describe = Inr\<rparr>"


text \<open>
  Options keep the pin honest too: if the spec is pinned after the options are applied, then either the options
  give that digest or version, URL and digest are those of before.
\<close>

theorem applyOpts_pin:
  assumes "applyOpts parse opts s = Inr s'" and "SourceSHA256 s' \<noteq> []"
  shows "opt opts ''source-sha256'' = SourceSHA256 s' \<or>
    KernelVersion s' = KernelVersion s \<and> SourceURL s' = SourceURL s \<and> SourceSHA256 s' = SourceSHA256 s"
  using applyOpts_source [OF assms(1)] assms(2)
  by (auto simp: source_opts_def set_opt_def Let_def split: if_splits)

theorem applyOpts_pin_witness:
  "\<exists>s'. applyOpts (\<lambda>_. Inl []) [''config'' \<mapsto> ''c''] DefaultSpec = Inr s' \<and> SourceSHA256 s' = SourceSHA256 DefaultSpec"
proof -
  obtain s' where s': "applyOpts (\<lambda>_. Inl []) [''config'' \<mapsto> ''c''] DefaultSpec = Inr s'"
    by (simp add: applyOpts_def optBool_def opt_def Let_def platform_opt_def)
  have "SourceSHA256 (source_opts [''config'' \<mapsto> ''c''] DefaultSpec) \<noteq> []"
    by (simp add: source_opts_def set_opt_def opt_def DefaultSpec_def)
  then have "SourceSHA256 s' \<noteq> []" using applyOpts_source [OF s'] by simp
  from applyOpts_pin [OF s' this] this s' show ?thesis by (auto simp: opt_def)
qed

text \<open>
  A \<^verbatim>\<open>targets\<close> option of separators only silently selects the default targets, dropping the ones the build file
  listed; the Kernelfile parser refuses the same value.
\<close>

theorem targets_opt_separators:
  assumes "v \<noteq> []" and "list_all is_target_sep v"
  shows "targetsOrDefault (targets_opt [''targets'' \<mapsto> v] s) = targetsOrDefault (s\<lparr>Targets := []\<rparr>) \<and>
    set_key n ''TARGETS'' v st = Inl (KNoTarget n)"
proof -
  have "list_all (\<lambda>f. f = []) (split_pred is_target_sep w)" if "list_all is_target_sep w" for w
    using that by (induction w) auto
  from this [OF assms(2)] have "fields_func is_target_sep v = []"
    by (simp add: fields_func_def filter_empty_conv list_all_iff)
  with assms(1) show ?thesis
    by (simp add: targets_opt_def set_opt_def opt_def set_key_choices targetsOrDefault_def archOrDefault_def)
qed

theorem targets_opt_separators_witness:
  "targetsOrDefault (targets_opt [''targets'' \<mapsto> '', ''] (DefaultSpec\<lparr>Targets := [''modules'']\<rparr>)) = [''vmlinux'']"
proof -
  have "'', '' \<noteq> []" "list_all is_target_sep '', ''" by (simp_all add: is_target_sep_def)
  from targets_opt_separators [OF this, of "DefaultSpec\<lparr>Targets := [''modules'']\<rparr>"] show ?thesis
    by (simp add: targetsOrDefault_def archOrDefault_def DefaultSpec_def zero_spec_def)
qed

end
