(* ===== verification/FileSys.thy ===== *)
theory FileSys
  imports Prelude "HOL-Library.AList"
begin

text \<open>
  The file system the step works on, and the effects of the step. A disk maps paths below \<^verbatim>\<open>/build\<close> to nodes. Every
  system call that changes the disk may succeed, fail, or be the last one before the process is killed; the \<open>fates\<close>
  of a world decide, so a theorem about all worlds covers I/O errors and a kill at any point. Triples with a crash
  condition (\<open>triple P m Q C\<close>) are the logic the component proofs use: \<open>Q\<close> holds if \<open>m\<close> returns, \<open>C\<close> if it fails or is killed.
\<close>

section \<open>Key-value stores\<close>

text \<open>The interface the disk offers: what a lookup returns after an update or a deletion.\<close>

locale store =
  fixes lookup :: "'s \<Rightarrow> 'k \<Rightarrow> 'v option"
    and put :: "'k \<Rightarrow> 'v \<Rightarrow> 's \<Rightarrow> 's"
    and del :: "'k \<Rightarrow> 's \<Rightarrow> 's"
  assumes lookup_put: "lookup (put k v s) = (lookup s)(k \<mapsto> v)"
    and lookup_del: "lookup (del k s) = (lookup s)(k := None)"
begin

definition same :: "'s \<Rightarrow> 's \<Rightarrow> bool" where
  "same s t \<longleftrightarrow> lookup s = lookup t"

lemma put_put: "same (put k v (put k w s)) (put k v s)"
  by (simp add: same_def lookup_put)

lemma del_put: "same (del k (put k v s)) (del k s)"
  by (simp add: same_def lookup_put lookup_del)

lemma put_commute: "k \<noteq> l \<Longrightarrow> same (put k v (put l w s)) (put l w (put k v s))"
  by (simp add: same_def lookup_put fun_upd_twist)

lemma put_del_commute: "k \<noteq> l \<Longrightarrow> same (put k v (del l s)) (del l (put k v s))"
  by (simp add: same_def lookup_put lookup_del fun_upd_twist)

lemma lookup_put_other: "k \<noteq> l \<Longrightarrow> lookup (put k v s) l = lookup s l"
  by (simp add: lookup_put)

lemma lookup_del_other: "k \<noteq> l \<Longrightarrow> lookup (del k s) l = lookup s l"
  by (simp add: lookup_del)

lemma lookup_fold_del: "lookup (fold del ks s) l = (if l \<in> set ks then None else lookup s l)"
  by (induction ks arbitrary: s) (auto simp: lookup_del)

end

interpretation disk_store: store map_of AList.update AList.delete
  by unfold_locales (auto simp: update_conv' delete_conv')

section \<open>Disks\<close>

type_synonym path = "string list"

text \<open>A file has content, permission bits and a modification time.\<close>

datatype node = File string nat int | Directory nat | Symlink string

type_synonym disk = "(path \<times> node) list"

text \<open>\<^verbatim>\<open>os.ReadDir\<close> of the root: names in byte order.\<close>

definition top_names :: "disk \<Rightarrow> string list" where
  "top_names d = sort (remdups (map hd (filter (\<lambda>p. p \<noteq> []) (map fst d))))"

definition below :: "string \<Rightarrow> disk \<Rightarrow> path list" where
  "below n d = rev (sort_key length (remdups (filter (\<lambda>p. take 1 p = [n]) (map fst d))))"

text \<open>
  Following symbolic links: \<open>k\<close> links at most; a link out of the tree (absolute, or \<open>..\<close> at the root) does not resolve.
\<close>

fun resolve :: "nat \<Rightarrow> disk \<Rightarrow> path \<Rightarrow> path \<Rightarrow> path option" where
  "resolve k d acc [] = Some acc"
| "resolve k d acc (c # cs) =
     (if c = [] \<or> c = ''.'' then resolve k d acc cs
      else if c = ''..'' then (if acc = [] then None else resolve k d (butlast acc) cs)
      else case map_of d (acc @ [c]) of
        Some (Symlink t) \<Rightarrow>
          (case k of 0 \<Rightarrow> None
           | Suc j \<Rightarrow> if has_prefix t ''/'' then None else resolve j d acc (split_on (CHR ''/'') t @ cs))
      | _ \<Rightarrow> resolve k d (acc @ [c]) cs)"

definition max_links :: nat where "max_links = 40"

definition stat_exists :: "disk \<Rightarrow> path \<Rightarrow> bool" where
  "stat_exists d p = (case resolve max_links d [] p of None \<Rightarrow> False | Some q \<Rightarrow> map_of d q \<noteq> None)"

definition read_file :: "disk \<Rightarrow> path \<Rightarrow> string option" where
  "read_file d p =
     (case resolve max_links d [] p of
        None \<Rightarrow> None
      | Some q \<Rightarrow> (case map_of d q of Some (File c _ _) \<Rightarrow> Some c | _ \<Rightarrow> None))"

definition is_dir :: "disk \<Rightarrow> path \<Rightarrow> bool" where
  "is_dir d p = (case map_of d p of Some (Directory _) \<Rightarrow> True | _ \<Rightarrow> False)"

definition has_children :: "disk \<Rightarrow> path \<Rightarrow> bool" where
  "has_children d q = list_ex (\<lambda>p. length q < length p \<and> take (length q) p = q) (map fst d)"

text \<open>The mode of a file that is opened for writing: the old one, if there is a file.\<close>

definition file_mode :: "disk \<Rightarrow> path \<Rightarrow> nat \<Rightarrow> nat" where
  "file_mode d q mode = (case map_of d q of Some (File _ m _) \<Rightarrow> m | _ \<Rightarrow> mode)"

section \<open>Effects\<close>

datatype fate = Good | Fail | Kill | Short nat

record world =
  disk :: disk
  fates :: "fate list"
  out :: "(string \<times> string) list"  \<comment> \<open>what was written under \<^verbatim>\<open>/out\<close>\<close>

definition start :: "disk \<Rightarrow> fate list \<Rightarrow> world" where
  "start d fs = \<lparr>disk = d, fates = fs, out = []\<rparr>"

lemma disk_start [simp]: "disk (start d fs) = d" "fates (start d fs) = fs" "out (start d fs) = []"
  by (simp_all add: start_def)

datatype 'a outcome = Ok 'a | Err string | Killed

type_synonym 'a step = "world \<Rightarrow> 'a outcome \<times> world"

definition sret :: "'a \<Rightarrow> 'a step" where "sret a w = (Ok a, w)"

definition serr :: "string \<Rightarrow> 'a step" where "serr e w = (Err e, w)"

definition sbind :: "'a step \<Rightarrow> ('a \<Rightarrow> 'b step) \<Rightarrow> 'b step" where
  "sbind m f w = (case m w of (Ok a, v) \<Rightarrow> f a v | (Err e, v) \<Rightarrow> (Err e, v) | (Killed, v) \<Rightarrow> (Killed, v))"

definition look :: "(disk \<Rightarrow> 'a) \<Rightarrow> 'a step" where "look f w = (Ok (f (disk w)), w)"

text \<open>The fate of the next system call: when the list is used up, everything succeeds.\<close>

definition sys :: "(disk \<Rightarrow> disk) \<Rightarrow> unit step" where
  "sys f w =
     (case fates w of
        [] \<Rightarrow> (Ok (), w\<lparr>disk := f (disk w)\<rparr>)
      | Good # fs \<Rightarrow> (Ok (), w\<lparr>disk := f (disk w), fates := fs\<rparr>)
      | Fail # fs \<Rightarrow> (Err ''i/o error'', w\<lparr>fates := fs\<rparr>)
      | Kill # fs \<Rightarrow> (Killed, w\<lparr>fates := fs\<rparr>)
      | Short n # fs \<Rightarrow> (Killed, w\<lparr>fates := fs\<rparr>))"

text \<open>Writing content: a kill may leave a prefix of it.\<close>

definition sys_write :: "(string \<Rightarrow> disk \<Rightarrow> disk) \<Rightarrow> string \<Rightarrow> unit step" where
  "sys_write f c w =
     (case fates w of
        [] \<Rightarrow> (Ok (), w\<lparr>disk := f c (disk w)\<rparr>)
      | Good # fs \<Rightarrow> (Ok (), w\<lparr>disk := f c (disk w), fates := fs\<rparr>)
      | Fail # fs \<Rightarrow> (Err ''i/o error'', w\<lparr>fates := fs\<rparr>)
      | Kill # fs \<Rightarrow> (Killed, w\<lparr>fates := fs\<rparr>)
      | Short n # fs \<Rightarrow> (Killed, w\<lparr>disk := f (take n c) (disk w), fates := fs\<rparr>))"

definition lift_result :: "(string, 'a) result \<Rightarrow> 'a step" where
  "lift_result r = (case r of Inl e \<Rightarrow> serr e | Inr a \<Rightarrow> sret a)"

definition from_option :: "string \<Rightarrow> 'a option \<Rightarrow> 'a step" where
  "from_option e x = (case x of None \<Rightarrow> serr e | Some a \<Rightarrow> sret a)"

fun each :: "('a \<Rightarrow> unit step) \<Rightarrow> 'a list \<Rightarrow> unit step" where
  "each f [] = sret ()"
| "each f (x # xs) = sbind (f x) (\<lambda>_. each f xs)"

text \<open>
  \<^verbatim>\<open>os.WriteFile\<close>: create or truncate, then write. A directory cannot be written to, and a file that is there keeps its mode. The names
  written this way are the step's own; a link under such a name is replaced, where the call would follow it.
\<close>

definition put_content :: "path \<Rightarrow> string \<Rightarrow> nat \<Rightarrow> unit step" where
  "put_content p c m = sbind (sys (AList.update p (File [] m 0))) (\<lambda>_. sys_write (\<lambda>c. AList.update p (File c m 0)) c)"

definition write_file :: "path \<Rightarrow> string \<Rightarrow> unit step" where
  "write_file p c = sbind (look (\<lambda>d. if is_dir d p then None else Some (file_mode d p 420))) (\<lambda>m.
     sbind (from_option ''is a directory'' m) (put_content p c))"

text \<open>\<^verbatim>\<open>os.Remove\<close>, an absent name being no error; a directory has to be empty.\<close>

definition remove_file :: "path \<Rightarrow> unit step" where
  "remove_file p = sbind (look (\<lambda>d. has_children d p)) (\<lambda>ch. if ch then serr ''directory not empty'' else sys (AList.delete p))"

text \<open>\<^verbatim>\<open>os.RemoveAll\<close> of a top-level name: one deletion per path, deepest first.\<close>

definition remove_all :: "string \<Rightarrow> unit step" where
  "remove_all n = sbind (look (below n)) (each (\<lambda>p. sys (AList.delete p)))"

section \<open>Triples with a crash condition\<close>

definition triple :: "(disk \<Rightarrow> bool) \<Rightarrow> 'a step \<Rightarrow> ('a \<Rightarrow> disk \<Rightarrow> bool) \<Rightarrow> (disk \<Rightarrow> bool) \<Rightarrow> bool" where
  "triple P m Q C \<longleftrightarrow> (\<forall>w. P (disk w) \<longrightarrow>
     (case m w of (Ok a, v) \<Rightarrow> Q a (disk v) | (Err e, v) \<Rightarrow> C (disk v) | (Killed, v) \<Rightarrow> C (disk v)))"

named_theorems triple_rules \<open>rules for triples, one per construct\<close>

lemma triple_ret [triple_rules]: "(\<And>d. P d \<Longrightarrow> Q a d) \<Longrightarrow> triple P (sret a) Q C"
  by (simp add: triple_def sret_def)

lemma triple_err [triple_rules]: "(\<And>d. P d \<Longrightarrow> C d) \<Longrightarrow> triple P (serr e) Q C"
  by (simp add: triple_def serr_def)

lemma triple_bind [triple_rules]: "triple P m R C \<Longrightarrow> (\<And>a. triple (R a) (f a) Q C) \<Longrightarrow> triple P (sbind m f) Q C"
  unfolding triple_def sbind_def by (fastforce split: outcome.splits prod.splits)

lemma triple_look: "triple P (look f) (\<lambda>a d. P d \<and> a = f d) C"
  by (simp add: triple_def look_def)

lemma triple_sys [triple_rules]: "(\<And>d. P d \<Longrightarrow> Q () (f d) \<and> C d) \<Longrightarrow> triple P (sys f) Q C"
  by (auto simp: triple_def sys_def split: list.splits fate.splits)

lemma triple_sys_write:
  "(\<And>d. P d \<Longrightarrow> Q () (f c d) \<and> C d \<and> (\<forall>n. C (f (take n c) d))) \<Longrightarrow> triple P (sys_write f c) Q C"
  by (auto simp: triple_def sys_write_def split: list.splits fate.splits)

lemma triple_conseq:
  "triple P m Q C \<Longrightarrow> (\<And>d. P' d \<Longrightarrow> P d) \<Longrightarrow> (\<And>a d. Q a d \<Longrightarrow> Q' a d) \<Longrightarrow> (\<And>d. C d \<Longrightarrow> C' d) \<Longrightarrow> triple P' m Q' C'"
  unfolding triple_def by (fastforce split: outcome.splits prod.splits)

lemma triple_false: "(\<And>d. \<not> P d) \<Longrightarrow> triple P m Q C"
  by (simp add: triple_def)

lemma triple_if [triple_rules]:
  "(b \<Longrightarrow> triple P m Q C) \<Longrightarrow> (\<not> b \<Longrightarrow> triple P n Q C) \<Longrightarrow> triple P (if b then m else n) Q C"
  by simp

lemma triple_each:
  assumes "\<And>x xs. triple (I (x # xs)) (f x) (\<lambda>_. I xs) C"
  shows "triple (I xs) (each f xs) (\<lambda>_. I []) C"
proof (induction xs)
  case Nil
  then show ?case by (simp add: triple_ret)
next
  case (Cons x xs)
  show ?case unfolding each.simps by (rule triple_bind [OF assms Cons.IH])
qed

text \<open>A property that holds throughout.\<close>

lemma triple_each_inv:
  assumes "\<And>x. x \<in> set xs \<Longrightarrow> triple I (f x) (\<lambda>_. I) I"
  shows "triple I (each f xs) (\<lambda>_. I) I"
  using assms
proof (induction xs)
  case Nil
  then show ?case by (simp add: triple_ret)
next
  case (Cons x xs)
  have "triple I (f x) (\<lambda>_. I) I" "triple I (each f xs) (\<lambda>_. I) I" using Cons by simp_all
  then show ?case unfolding each.simps by (rule triple_bind)
qed

section \<open>Successful runs\<close>

text \<open>A run that returns is a run without faults.\<close>

definition robust :: "'a step \<Rightarrow> bool" where
  "robust m \<longleftrightarrow> (\<forall>w a v. m w = (Ok a, v) \<longrightarrow> m (w\<lparr>fates := []\<rparr>) = (Ok a, v\<lparr>fates := []\<rparr>))"

named_theorems robust_intros \<open>constructs whose successful runs are fault-free runs\<close>

lemma robust_ret [robust_intros]: "robust (sret a)"
  by (simp add: robust_def sret_def)

lemma robust_err [robust_intros]: "robust (serr e)"
  by (simp add: robust_def serr_def)

lemma robust_look [robust_intros]: "robust (look f)"
  by (simp add: robust_def look_def)

lemma robust_sys [robust_intros]: "robust (sys f)"
  by (auto simp: robust_def sys_def split: list.splits fate.splits)

lemma robust_sys_write [robust_intros]: "robust (sys_write f c)"
  by (auto simp: robust_def sys_write_def split: list.splits fate.splits)

lemma robust_bind [robust_intros]: "robust m \<Longrightarrow> (\<And>a. robust (f a)) \<Longrightarrow> robust (sbind m f)"
  unfolding robust_def sbind_def by (fastforce split: outcome.splits prod.splits)

lemma robust_if [robust_intros]: "robust m \<Longrightarrow> robust n \<Longrightarrow> robust (if b then m else n)"
  by simp

lemma robust_each [robust_intros]: "(\<And>x. robust (f x)) \<Longrightarrow> robust (each f xs)"
  by (induction xs) (auto intro: robust_intros)

section \<open>Control\<close>

text \<open>An ignored error; a handled error. A kill is neither.\<close>

definition ignore :: "unit step \<Rightarrow> unit step" where
  "ignore m w = (case m w of (Err e, v) \<Rightarrow> (Ok (), v) | r \<Rightarrow> r)"

definition on_error :: "'a step \<Rightarrow> unit step \<Rightarrow> 'a step" where
  "on_error m h w = (case m w of
     (Err e, v) \<Rightarrow> (case h v of (Killed, u) \<Rightarrow> (Killed, u) | (_, u) \<Rightarrow> (Err e, u)) | r \<Rightarrow> r)"

section \<open>Rules for the control constructs\<close>

lemma triple_fix: "(\<And>d1. P d1 \<Longrightarrow> triple (\<lambda>d. d = d1) m Q C) \<Longrightarrow> triple P m Q C"
  by (auto simp: triple_def)

lemma triple_pre: "triple P m Q C \<Longrightarrow> (\<And>d. P' d \<Longrightarrow> P d) \<Longrightarrow> triple P' m Q C"
  by (auto simp: triple_def)

lemma triple_look_then: "(\<And>a. triple (\<lambda>d. P d \<and> a = f d) (g a) Q C) \<Longrightarrow> triple P (sbind (look f) g) Q C"
  by (rule triple_bind [OF triple_look])

lemma triple_ignore: "triple P m Q C \<Longrightarrow> (\<And>d. C d \<Longrightarrow> Q () d) \<Longrightarrow> triple P (ignore m) Q C"
  unfolding triple_def ignore_def by (fastforce split: outcome.splits prod.splits)

lemma triple_on_error: "triple P m Q D \<Longrightarrow> triple D h (\<lambda>_. C) C \<Longrightarrow> (\<And>d. D d \<Longrightarrow> C d) \<Longrightarrow> triple P (on_error m h) Q C"
  unfolding triple_def on_error_def by (fastforce split: outcome.splits prod.splits)

lemma triple_lift_result [triple_rules]:
  "(\<And>e d. r = Inl e \<Longrightarrow> P d \<Longrightarrow> C d) \<Longrightarrow> (\<And>a d. r = Inr a \<Longrightarrow> P d \<Longrightarrow> Q a d) \<Longrightarrow> triple P (lift_result r) Q C"
  unfolding lift_result_def by (auto split: sum.splits intro: triple_rules)

lemma triple_from_option [triple_rules]:
  "(\<And>d. x = None \<Longrightarrow> P d \<Longrightarrow> C d) \<Longrightarrow> (\<And>a d. x = Some a \<Longrightarrow> P d \<Longrightarrow> Q a d) \<Longrightarrow> triple P (from_option e x) Q C"
  unfolding from_option_def by (auto split: option.splits intro: triple_rules)

lemma triple_lift_then:
  "(\<And>e d. r = Inl e \<Longrightarrow> P d \<Longrightarrow> C d) \<Longrightarrow> (\<And>a. r = Inr a \<Longrightarrow> triple P (g a) Q C) \<Longrightarrow> triple P (sbind (lift_result r) g) Q C"
  by (cases r) (simp_all add: lift_result_def triple_def sbind_def sret_def serr_def)

lemma triple_option_then:
  "(\<And>d. x = None \<Longrightarrow> P d \<Longrightarrow> C d) \<Longrightarrow> (\<And>a. x = Some a \<Longrightarrow> triple P (g a) Q C) \<Longrightarrow> triple P (sbind (from_option e x) g) Q C"
  by (cases x) (simp_all add: from_option_def triple_def sbind_def sret_def serr_def)

text \<open>A fact that the precondition implies.\<close>

lemma triple_under: "(\<And>d. P d \<Longrightarrow> A) \<Longrightarrow> (A \<Longrightarrow> triple P m Q C) \<Longrightarrow> triple P m Q C"
  by (auto simp: triple_def)

text \<open>Going on with what a lookup finds.\<close>

lemma triple_found:
  fixes g :: "disk \<Rightarrow> 'a option"
  assumes "\<And>d q. P d \<Longrightarrow> g d = Some q \<Longrightarrow> A q" "\<And>q. A q \<Longrightarrow> triple P (k q) Q C" "\<And>d. P d \<Longrightarrow> C d"
  shows "triple P (sbind (look g) (\<lambda>r. sbind (from_option e r) k)) Q C"
proof (intro triple_look_then triple_option_then)
  fix r :: "'a option" and q assume r: "r = Some q"
  show "triple (\<lambda>d. P d \<and> r = g d) (k q) Q C"
  proof (rule triple_under)
    show "A q" if "P d \<and> r = g d" for d using assms(1) [of d q] that r by simp
    assume "A q"
    then show "triple (\<lambda>d. P d \<and> r = g d) (k q) Q C" by (rule triple_pre [OF assms(2)]) simp
  qed
qed (use assms(3) in blast)

lemma robust_lift [robust_intros]: "robust (lift_result r)" "robust (from_option e x)"
  by (auto simp: lift_result_def from_option_def intro: robust_intros split: sum.splits option.splits)

text \<open>The calls on single files.\<close>

lemma triple_write_file:
  assumes "\<And>m. triple (\<lambda>d. P d \<and> \<not> is_dir d p \<and> m = file_mode d p 420) (put_content p c m) Q C" "\<And>d. P d \<Longrightarrow> C d"
  shows "triple P (write_file p c) Q C"
  unfolding write_file_def
proof (intro triple_look_then triple_option_then)
  fix r :: "nat option" and m assume "r = Some m"
  then show "triple (\<lambda>d. P d \<and> r = (if is_dir d p then None else Some (file_mode d p 420))) (put_content p c m) Q C"
    by (intro triple_pre [OF assms(1)]) (auto split: if_splits)
qed (use assms(2) in blast)

lemma triple_write_at:
  assumes "triple (\<lambda>d. d = d1) (put_content p c (file_mode d1 p 420)) Q C" "C d1"
  shows "triple (\<lambda>d. d = d1) (write_file p c) Q C"
proof (rule triple_write_file)
  show "triple (\<lambda>d. d = d1 \<and> \<not> is_dir d p \<and> m = file_mode d p 420) (put_content p c m) Q C" for m
    using assms(1) by (auto simp: triple_def)
qed (simp add: assms(2))

lemma triple_put_content:
  assumes "\<And>d. P d \<Longrightarrow> R (AList.update p (File [] m 0) d) \<and> C d"
    and "\<And>d. R d \<Longrightarrow> Q () (AList.update p (File c m 0) d) \<and> C d \<and> (\<forall>n. C (AList.update p (File (take n c) m 0) d))"
  shows "triple P (put_content p c m) Q C"
  unfolding put_content_def by (rule triple_bind [OF triple_sys [of P "\<lambda>_. R"] triple_sys_write]) (use assms in blast)+

lemma triple_remove_file:
  assumes "\<And>d. P d \<Longrightarrow> C d \<and> (\<not> has_children d p \<longrightarrow> Q () (AList.delete p d))"
  shows "triple P (remove_file p) Q C"
  unfolding remove_file_def
  by (intro triple_look_then triple_if triple_err triple_sys) (use assms in auto)

lemma robust_files [robust_intros]: "robust (write_file p c)" "robust (remove_file p)"
  unfolding write_file_def put_content_def remove_file_def by (auto intro!: robust_intros)

text \<open>What a computation makes of a disk when no call fails.\<close>

definition yields :: "'a step \<Rightarrow> disk \<Rightarrow> disk \<Rightarrow> bool" where
  "yields m d d' \<longleftrightarrow> (\<exists>w a v. fates w = [] \<and> disk w = d \<and> m w = (Ok a, v) \<and> disk v = d')"

lemma triple_yields:
  assumes "robust m" "triple (\<lambda>d. d = d1) m Q C"
  shows "triple (\<lambda>d. d = d1) m (\<lambda>a d. Q a d \<and> yields m d1 d) C"
proof -
  have "yields m (disk w) (disk v)" if "m w = (Ok a, v)" for w a v
    using assms(1) that unfolding yields_def robust_def
    by (intro exI [of _ "w\<lparr>fates := []\<rparr>"] exI [of _ a] exI [of _ "v\<lparr>fates := []\<rparr>"]) auto
  with assms(2) show ?thesis
    unfolding triple_def by (auto split: outcome.splits prod.splits)
qed

lemma triple_run:
  "triple P m Q C \<Longrightarrow> P (disk w) \<Longrightarrow> (case m w of (Ok a, v) \<Rightarrow> Q a (disk v) | (Err e, v) \<Rightarrow> C (disk v) | (Killed, v) \<Rightarrow> C (disk v))"
  by (simp add: triple_def)

lemma yields_triple: "triple P m (\<lambda>_. Q) C \<Longrightarrow> P d \<Longrightarrow> yields m d d' \<Longrightarrow> Q d'"
  unfolding triple_def yields_def by (metis (mono_tags, lifting) case_prod_conv outcome.case(1))

end
