(* ===== verification/Untar.thy ===== *)
theory Untar
  imports FileSys
begin

text \<open>
  Extraction (\<^verbatim>\<open>untarFiltered\<close>, \<^verbatim>\<open>writeEntry\<close>, \<^verbatim>\<open>stripComponents\<close> of \<^verbatim>\<open>kbuild-step\<close>) in stream order, over the operations of
  Go's \<^verbatim>\<open>os.Root\<close>: names are resolved inside the tree, and a name or a link that leaves it is an error. The stream is the
  list of decoded tar headers with their content.
\<close>

section \<open>Names\<close>

text \<open>\<^verbatim>\<open>filepath.Clean\<close> on the components of a name; \<open>rooted\<close> names drop leading \<open>..\<close>.\<close>

fun clean_comps :: "bool \<Rightarrow> string list \<Rightarrow> string list \<Rightarrow> string list" where
  "clean_comps rooted acc [] = acc"
| "clean_comps rooted acc (c # cs) =
     (if c = [] \<or> c = ''.'' then clean_comps rooted acc cs
      else if c = ''..'' then
        (if acc \<noteq> [] \<and> last acc \<noteq> ''..'' then clean_comps rooted (butlast acc) cs
         else if rooted then clean_comps rooted acc cs
         else clean_comps rooted (acc @ [c]) cs)
      else clean_comps rooted (acc @ [c]) cs)"

definition Clean :: "string \<Rightarrow> string" where
  "Clean name =
     (let rooted = has_prefix name ''/'';
          body = join ''/'' (clean_comps rooted [] (split_on (CHR ''/'') name))
      in if rooted then ''/'' @ body else if body = [] then ''.'' else body)"

text \<open>\<^verbatim>\<open>filepath.Join\<close>: empty elements are ignored; no element gives the empty string.\<close>

definition Join :: "string list \<Rightarrow> string" where
  "Join parts = (let ps = filter (\<lambda>p. p \<noteq> []) parts in if ps = [] then [] else Clean (join ''/'' ps))"

definition stripComponents :: "string \<Rightarrow> nat \<Rightarrow> string option" where
  "stripComponents name strip =
     (let parts = split_on (CHR ''/'') (Clean name)
      in if length parts \<le> strip then None else Some (Join (drop strip parts)))"

definition path_of :: "string \<Rightarrow> path" where
  "path_of name = split_on (CHR ''/'') name"

section \<open>Operations inside the root\<close>

definition root_links :: nat where "root_links = 8"

text \<open>
  \<open>mk_walk\<close> is the walk of \<^verbatim>\<open>Root.MkdirAll\<close>: the directories it creates, in order, and where it ends.
\<close>

fun mk_walk :: "nat \<Rightarrow> disk \<Rightarrow> path \<Rightarrow> path \<Rightarrow> (path list \<times> path) option" where
  "mk_walk k d acc [] = Some ([], acc)"
| "mk_walk k d acc (c # cs) =
     (if c = [] \<or> c = ''.'' then mk_walk k d acc cs
      else if c = ''..'' then (if acc = [] then None else mk_walk k d (butlast acc) cs)
      else case map_of d (acc @ [c]) of
        None \<Rightarrow> map_option (\<lambda>(qs, r). ((acc @ [c]) # qs, r)) (mk_walk k d (acc @ [c]) cs)
      | Some (Directory _) \<Rightarrow> mk_walk k d (acc @ [c]) cs
      | Some (File _ _ _) \<Rightarrow> None
      | Some (Symlink t) \<Rightarrow>
          (case k of 0 \<Rightarrow> None
           | Suc j \<Rightarrow> if has_prefix t ''/'' then None else mk_walk j d acc (split_on (CHR ''/'') t @ cs)))"

text \<open>An empty path and one that starts at \<^verbatim>\<open>/\<close> are refused.\<close>

definition rooted_path :: "path \<Rightarrow> bool" where "rooted_path p \<longleftrightarrow> p \<noteq> [] \<and> hd p = []"

definition root_walk :: "disk \<Rightarrow> path \<Rightarrow> (path list \<times> path) option" where
  "root_walk d p = (if rooted_path p then None else mk_walk root_links d [] p)"

definition root_resolve :: "disk \<Rightarrow> path \<Rightarrow> path option" where
  "root_resolve d p = (if rooted_path p then None else resolve root_links d [] p)"

definition mkdir_all :: "path \<Rightarrow> path step" where
  "mkdir_all p = sbind (look (\<lambda>d. root_walk d p)) (\<lambda>r.
     case r of
       None \<Rightarrow> serr ''mkdir''
     | Some (qs, q) \<Rightarrow> sbind (each (\<lambda>q. sys (AList.update q (Directory 493))) qs) (\<lambda>_. sret q))"

definition proper :: "string \<Rightarrow> bool" where
  "proper c \<longleftrightarrow> c \<noteq> [] \<and> c \<noteq> ''.'' \<and> c \<noteq> ''..''"

text \<open>The entry a name denotes: its directory is created and followed, its last component is not.\<close>

definition entry_path :: "path \<Rightarrow> path step" where
  "entry_path p = (if p = [] \<or> \<not> proper (last p) then serr ''bad name''
     else sbind (mkdir_all (butlast p)) (\<lambda>q. sret (q @ [last p])))"

text \<open>\<^verbatim>\<open>Root.Remove\<close>, an absent entry being no error.\<close>

definition root_remove :: "path \<Rightarrow> unit step" where
  "root_remove q = sbind (look (\<lambda>d. (map_of d q, has_children d q))) (\<lambda>(n, ch).
     case n of
       None \<Rightarrow> sret ()
     | Some (Directory _) \<Rightarrow> if ch then serr ''directory not empty'' else sys (AList.delete q)
     | Some _ \<Rightarrow> sys (AList.delete q))"

text \<open>Remove, create exclusively, write, set mode and time.\<close>

definition writeEntry :: "path \<Rightarrow> string \<Rightarrow> nat \<Rightarrow> int \<Rightarrow> unit step" where
  "writeEntry p content mode mtime =
     sbind (entry_path p) (\<lambda>q.
     sbind (root_remove q) (\<lambda>_.
     sbind (sys (AList.update q (File [] mode 0))) (\<lambda>_.
     sbind (sys_write (\<lambda>c. AList.update q (File c mode 0)) content) (\<lambda>_.
     sys (AList.update q (File content mode mtime))))))"

section \<open>The stream\<close>

datatype entry_kind = Reg string | Dir_Entry | Sym string | Hard string | Other

record entry =
  e_name :: string
  e_mode :: nat
  e_mtime :: int
  e_kind :: entry_kind

definition write_dir :: "path \<Rightarrow> nat \<Rightarrow> unit step" where
  "write_dir p mode = sbind (mkdir_all p) (\<lambda>q. sys (\<lambda>d. if q = [] then d else AList.update q (Directory mode) d))"

definition write_symlink :: "path \<Rightarrow> string \<Rightarrow> unit step" where
  "write_symlink p target = sbind (entry_path p) (\<lambda>q. sbind (root_remove q) (\<lambda>_. sys (AList.update q (Symlink target))))"

text \<open>
  A hard link is modelled as a copy of the target's node. Extraction never writes through an existing file, so the copy
  cannot be told from a link there; the sharing itself, which a later in-place write would show, is not modelled.
\<close>

definition write_link :: "path \<Rightarrow> path \<Rightarrow> unit step" where
  "write_link p target =
     sbind (entry_path p) (\<lambda>q. sbind (root_remove q) (\<lambda>_.
     sbind (look (\<lambda>d. case root_resolve d (butlast target) of
         None \<Rightarrow> None | Some r \<Rightarrow> map_of d (r @ [last target]))) (\<lambda>n.
       case n of None \<Rightarrow> serr ''link'' | Some (Directory _) \<Rightarrow> serr ''link'' | Some x \<Rightarrow> sys (AList.update q x))))"

text \<open>The name an entry is written under: stripped, then renamed; a renaming to nothing drops the entry.\<close>

definition entry_name :: "nat \<Rightarrow> (string \<Rightarrow> string) option \<Rightarrow> string \<Rightarrow> string option" where
  "entry_name strip rename raw =
     (case stripComponents raw strip of
        None \<Rightarrow> None
      | Some name \<Rightarrow>
          (case rename of None \<Rightarrow> Some name | Some f \<Rightarrow> if f name = [] then None else Some (f name)))"

definition write_entry :: "nat \<Rightarrow> (string \<Rightarrow> string) option \<Rightarrow> entry \<Rightarrow> unit step" where
  "write_entry strip rename e =
     (case entry_name strip rename (e_name e) of
        None \<Rightarrow> sret ()
      | Some name \<Rightarrow>
          (case e_kind e of
             Reg content \<Rightarrow> writeEntry (path_of name) content (e_mode e) (e_mtime e)
           | Dir_Entry \<Rightarrow> write_dir (path_of name) (e_mode e)
           | Sym target \<Rightarrow> write_symlink (path_of name) target
           | Hard linkname \<Rightarrow>
               (case stripComponents linkname strip of
                  None \<Rightarrow> sret ()
                | Some ln \<Rightarrow> write_link (path_of name) (path_of ln))
           | Other \<Rightarrow> sret ()))"

text \<open>A decoded stream: its entries and the reader's error, if it ends in one.\<close>

type_synonym stream = "entry list \<times> string option"

definition untarFiltered :: "stream \<Rightarrow> nat \<Rightarrow> (string \<Rightarrow> string) option \<Rightarrow> unit step" where
  "untarFiltered st strip rename =
     sbind (each (write_entry strip rename) (fst st)) (\<lambda>_.
       case snd st of None \<Rightarrow> sret () | Some e \<Rightarrow> serr e)"

definition untar :: "stream \<Rightarrow> nat \<Rightarrow> unit step" where
  "untar st strip = untarFiltered st strip None"

definition quarantine :: "string \<Rightarrow> string" where
  "quarantine name = (if name = ''.kbf-stamp'' then ''.kbf-stamp.seed'' else name)"

definition untarSeed :: "stream \<Rightarrow> unit step" where
  "untarSeed st = untarFiltered st 0 (Some quarantine)"

section \<open>Which paths extraction touches\<close>

text \<open>
  \<open>R\<close> is a set of reserved names. A stream avoids it when no name and no link target of the stream has a reserved
  component; a plain disk has no link that leads to a reserved name, and no reserved name that is itself a link.
\<close>

definition free :: "(string \<Rightarrow> bool) \<Rightarrow> path \<Rightarrow> bool" where
  "free R p \<longleftrightarrow> list_all (\<lambda>c. \<not> R c) p"

definition free_node :: "(string \<Rightarrow> bool) \<Rightarrow> node \<Rightarrow> bool" where
  "free_node R n \<longleftrightarrow> (case n of Symlink t \<Rightarrow> free R (split_on (CHR ''/'') t) | _ \<Rightarrow> True)"

definition avoids :: "(string \<Rightarrow> bool) \<Rightarrow> nat \<Rightarrow> (string \<Rightarrow> string) option \<Rightarrow> entry \<Rightarrow> bool" where
  "avoids R strip rename e \<longleftrightarrow>
     (case entry_name strip rename (e_name e) of None \<Rightarrow> True | Some n \<Rightarrow> free R (path_of n)) \<and>
     (case e_kind e of Sym t \<Rightarrow> free R (split_on (CHR ''/'') t) | _ \<Rightarrow> True)"

definition plain :: "(string \<Rightarrow> bool) \<Rightarrow> disk \<Rightarrow> bool" where
  "plain R d \<longleftrightarrow> (\<forall>p n. map_of d p = Some n \<longrightarrow> free_node R n) \<and>
     (\<forall>x t. R x \<longrightarrow> map_of d [x] \<noteq> Some (Symlink t))"

text \<open>The invariant of such an extraction: everything under a reserved name stays what it is.\<close>

definition keeps :: "(string \<Rightarrow> bool) \<Rightarrow> (path \<Rightarrow> node option) \<Rightarrow> disk \<Rightarrow> bool" where
  "keeps R f d \<longleftrightarrow> plain R d \<and> (\<forall>p. p \<noteq> [] \<longrightarrow> R (hd p) \<longrightarrow> map_of d p = f p)"

lemma free_simps [simp]:
  "free R []" "free R (c # cs) \<longleftrightarrow> \<not> R c \<and> free R cs" "free R (p @ q) \<longleftrightarrow> free R p \<and> free R q"
  "free_node R (File b m t)" "free_node R (Directory m)"
  "free_node R (Symlink l) \<longleftrightarrow> free R (split_on (CHR ''/'') l)"
  by (auto simp: free_def free_node_def)

lemma free_butlast: "free R p \<Longrightarrow> free R (butlast p)"
  by (auto simp: free_def list_all_iff dest: in_set_butlastD)

lemma free_last: "free R p \<Longrightarrow> p \<noteq> [] \<Longrightarrow> \<not> R (last p)"
  by (auto simp: free_def list_all_iff)

lemma free_hd: "free R p \<Longrightarrow> p \<noteq> [] \<Longrightarrow> \<not> R (hd p)"
  by (cases p) auto

lemma keeps_plain: "keeps R f d \<Longrightarrow> plain R d"
  by (simp add: keeps_def)

lemma plain_keeps: "plain R d \<Longrightarrow> keeps R (map_of d) d"
  by (simp add: keeps_def)

lemma mk_walk_free:
  "mk_walk k d acc cs = Some (qs, r) \<Longrightarrow> free R acc \<Longrightarrow> free R cs \<Longrightarrow> plain R d \<Longrightarrow>
   (\<forall>q \<in> set qs. q \<noteq> [] \<and> free R q) \<and> free R r"
proof (induction k d acc cs arbitrary: qs rule: mk_walk.induct)
  case (1 k d acc)
  then show ?case by simp
next
  case (2 k d acc c cs)
  have x: "free R cs" "\<not> R c" using "2.prems"(3) by auto
  consider "c = [] \<or> c = ''.''" | "c = ''..''" | "\<not> (c = [] \<or> c = ''.'')" "c \<noteq> ''..''" by blast
  then show ?case
  proof cases
    case 1
    then have "mk_walk k d acc cs = Some (qs, r)" using "2.prems"(1) by (simp del: mk_walk.simps add: mk_walk.simps(2))
    from "2.IH"(1) [OF 1 this "2.prems"(2) x(1) "2.prems"(4)] show ?thesis .
  next
    case 2
    then have a: "acc \<noteq> []" and w: "mk_walk k d (butlast acc) cs = Some (qs, r)"
      using "2.prems"(1) by (simp_all split: if_splits)
    have n: "\<not> (c = [] \<or> c = ''.'')" using 2 by simp
    from "2.IH"(2) [OF n 2 a w free_butlast [OF "2.prems"(2)] x(1) "2.prems"(4)] show ?thesis .
  next
    case 3
    have ac: "free R (acc @ [c])" using "2.prems"(2) x by simp
    show ?thesis
    proof (cases "map_of d (acc @ [c])")
      case None
      then obtain qs' where w: "mk_walk k d (acc @ [c]) cs = Some (qs', r)" and qs: "qs = (acc @ [c]) # qs'"
        using "2.prems"(1) 3 by (cases "mk_walk k d (acc @ [c]) cs") auto
      from "2.IH"(3) [OF 3 None w ac x(1) "2.prems"(4)] qs ac show ?thesis by simp
    next
      case (Some n)
      show ?thesis
      proof (cases n)
        case (File a b e)
        with Some 3 "2.prems"(1) show ?thesis by simp
      next
        case (Directory m)
        with Some 3 "2.prems"(1) have "mk_walk k d (acc @ [c]) cs = Some (qs, r)" by simp
        from "2.IH"(4) [OF 3 Some Directory this ac x(1) "2.prems"(4)] show ?thesis .
      next
        case (Symlink t)
        with Some 3 "2.prems"(1) obtain j where j: "k = Suc j" "\<not> has_prefix t ''/''"
            and w: "mk_walk j d acc (split_on (CHR ''/'') t @ cs) = Some (qs, r)"
          by (auto split: nat.splits if_splits)
        have "free_node R (Symlink t)" using Some Symlink "2.prems"(4) unfolding plain_def by blast
        then have "free R (split_on (CHR ''/'') t @ cs)" using x(1) by simp
        from "2.IH"(5) [OF 3 Some Symlink j w "2.prems"(2) this "2.prems"(4)] show ?thesis .
      qed
    qed
  qed
qed

lemma plain_put: "plain R d \<Longrightarrow> free_node R n \<Longrightarrow> (\<And>x t. R x \<Longrightarrow> q = [x] \<Longrightarrow> n \<noteq> Symlink t) \<Longrightarrow> plain R (AList.update q n d)"
  by (auto simp: plain_def update_conv' split: if_splits)

lemma plain_del: "plain R d \<Longrightarrow> plain R (AList.delete q d)"
  by (auto simp: plain_def delete_conv' split: if_splits)

lemma keeps_put: "keeps R f d \<Longrightarrow> free R q \<Longrightarrow> q \<noteq> [] \<Longrightarrow> free_node R n \<Longrightarrow> keeps R f (AList.update q n d)"
  by (auto simp: keeps_def update_conv' intro!: plain_put dest: free_hd)

lemma keeps_del: "keeps R f d \<Longrightarrow> free R q \<Longrightarrow> q \<noteq> [] \<Longrightarrow> keeps R f (AList.delete q d)"
  by (auto simp: keeps_def delete_conv' intro!: plain_del dest: free_hd)

lemma mkdir_all_keeps:
  assumes "free R p"
  shows "triple (keeps R f) (mkdir_all p) (\<lambda>q d. keeps R f d \<and> free R q) (keeps R f)"
  unfolding mkdir_all_def
proof (rule triple_bind [OF triple_look])
  fix r
  show "triple (\<lambda>d. keeps R f d \<and> r = root_walk d p)
     (case r of None \<Rightarrow> serr ''mkdir'' | Some (qs, q) \<Rightarrow> sbind (each (\<lambda>q. sys (AList.update q (Directory 493))) qs) (\<lambda>_. sret q))
     (\<lambda>q d. keeps R f d \<and> free R q) (keeps R f)"
  proof (cases r)
    case None
    then show ?thesis by (auto intro: triple_err)
  next
    case (Some qr)
    then obtain qs q where r: "r = Some (qs, q)" by (cases qr) auto
    show ?thesis
    proof (cases "(\<forall>q' \<in> set qs. q' \<noteq> [] \<and> free R q') \<and> free R q")
      case True
      have "triple (keeps R f) (each (\<lambda>q. sys (AList.update q (Directory 493))) qs) (\<lambda>_. keeps R f) (keeps R f)"
        by (rule triple_each_inv, rule triple_sys) (use True in \<open>auto intro!: keeps_put\<close>)
      then have "triple (keeps R f) (sbind (each (\<lambda>q. sys (AList.update q (Directory 493))) qs) (\<lambda>_. sret q))
          (\<lambda>q d. keeps R f d \<and> free R q) (keeps R f)"
        by (rule triple_bind) (use True in \<open>simp add: triple_ret\<close>)
      then show ?thesis unfolding r by (auto elim: triple_conseq)
    next
      case False
      have "\<not> (keeps R f d \<and> r = root_walk d p)" for d
        using False mk_walk_free [of root_links d "[]" p qs q R] assms r
        by (auto simp: keeps_def root_walk_def split: if_splits)
      then show ?thesis by (rule triple_false)
    qed
  qed
qed

lemma entry_path_keeps:
  assumes "free R p"
  shows "triple (keeps R f) (entry_path p) (\<lambda>q d. keeps R f d \<and> free R q \<and> q \<noteq> []) (keeps R f)"
proof (cases "p = [] \<or> \<not> proper (last p)")
  case True
  then show ?thesis by (simp add: entry_path_def triple_err)
next
  case False
  with assms show ?thesis
    by (auto simp: entry_path_def free_last intro!: triple_bind [OF mkdir_all_keeps] triple_ret free_butlast)
qed

lemma root_remove_keeps:
  "free R q \<Longrightarrow> q \<noteq> [] \<Longrightarrow> triple (keeps R f) (root_remove q) (\<lambda>_. keeps R f) (keeps R f)"
  unfolding root_remove_def
  by (rule triple_bind [OF triple_look])
    (auto intro!: triple_rules keeps_del split: option.splits node.splits)

lemma put_keeps:
  "free R q \<Longrightarrow> q \<noteq> [] \<Longrightarrow> free_node R n \<Longrightarrow> triple (keeps R f) (sys (AList.update q n)) (\<lambda>_. keeps R f) (keeps R f)"
  by (rule triple_sys) (auto intro: keeps_put)

lemma put_write_keeps:
  "free R q \<Longrightarrow> q \<noteq> [] \<Longrightarrow>
   triple (keeps R f) (sys_write (\<lambda>c. AList.update q (File c m t)) c) (\<lambda>_. keeps R f) (keeps R f)"
  by (rule triple_sys_write) (auto intro: keeps_put)

text \<open>Running on with the path an entry denotes.\<close>

lemma entry_then:
  assumes "free R p" and "\<And>q. free R q \<Longrightarrow> q \<noteq> [] \<Longrightarrow> triple (keeps R f) (g q) (\<lambda>_. keeps R f) (keeps R f)"
  shows "triple (keeps R f) (sbind (entry_path p) g) (\<lambda>_. keeps R f) (keeps R f)"
proof (rule triple_bind [OF entry_path_keeps [OF assms(1)]])
  fix q
  show "triple (\<lambda>d. keeps R f d \<and> free R q \<and> q \<noteq> []) (g q) (\<lambda>_. keeps R f) (keeps R f)"
    using assms(2) [of q] by (cases "free R q \<and> q \<noteq> []") (auto simp: triple_def)
qed

lemma writeEntry_keeps:
  "free R p \<Longrightarrow> triple (keeps R f) (writeEntry p c m t) (\<lambda>_. keeps R f) (keeps R f)"
  unfolding writeEntry_def
  by (erule entry_then)
    (rule triple_bind [OF root_remove_keeps] triple_bind [OF put_keeps] triple_bind [OF put_write_keeps] put_keeps; simp)+

lemma write_symlink_keeps:
  "free R p \<Longrightarrow> free R (split_on (CHR ''/'') t) \<Longrightarrow> triple (keeps R f) (write_symlink p t) (\<lambda>_. keeps R f) (keeps R f)"
  unfolding write_symlink_def by (erule entry_then) (rule triple_bind [OF root_remove_keeps] put_keeps; simp)+

lemma write_dir_keeps:
  assumes "free R p"
  shows "triple (keeps R f) (write_dir p m) (\<lambda>_. keeps R f) (keeps R f)"
  unfolding write_dir_def
  by (rule triple_bind [OF mkdir_all_keeps [OF assms]], rule triple_sys) (auto intro!: keeps_put)

lemma write_link_keeps:
  assumes "free R p"
  shows "triple (keeps R f) (write_link p t) (\<lambda>_. keeps R f) (keeps R f)"
  unfolding write_link_def
proof (rule entry_then [OF assms], rule triple_bind [OF root_remove_keeps], assumption, assumption, rule triple_bind [OF triple_look])
  fix q n
  assume q: "free R q" "q \<noteq> []"
  let ?P = "\<lambda>d. keeps R f d \<and> n = (case root_resolve d (butlast t) of None \<Rightarrow> None | Some r \<Rightarrow> map_of d (r @ [last t]))"
  have "keeps R f (AList.update q y d)" if "?P d" "n = Some y" for y d
    using that q by (intro keeps_put) (auto simp: keeps_def plain_def split: option.splits)
  then show "triple ?P (case n of None \<Rightarrow> serr ''link'' | Some (Directory _) \<Rightarrow> serr ''link'' | Some x \<Rightarrow> sys (AList.update q x))
      (\<lambda>_. keeps R f) (keeps R f)"
    by (auto intro!: triple_err triple_sys split: option.splits node.splits)
qed

lemma write_entry_keeps:
  assumes "avoids R strip rename e"
  shows "triple (keeps R f) (write_entry strip rename e) (\<lambda>_. keeps R f) (keeps R f)"
proof (cases "entry_name strip rename (e_name e)")
  case None
  then show ?thesis by (simp add: write_entry_def triple_ret)
next
  case (Some n)
  with assms have "free R (path_of n)" "\<And>t. e_kind e = Sym t \<Longrightarrow> free R (split_on (CHR ''/'') t)"
    by (auto simp: avoids_def)
  then show ?thesis
    by (cases "e_kind e")
      (auto simp: write_entry_def Some split: option.splits
        intro!: triple_ret writeEntry_keeps write_dir_keeps write_symlink_keeps write_link_keeps)
qed

lemma untarFiltered_keeps:
  assumes "list_all (avoids R strip rename) (fst st)"
  shows "triple (keeps R f) (untarFiltered st strip rename) (\<lambda>_. keeps R f) (keeps R f)"
  unfolding untarFiltered_def
  by (rule triple_bind [OF triple_each_inv])
    (use assms in \<open>auto simp: list_all_iff intro!: write_entry_keeps triple_ret triple_err split: option.splits\<close>)

lemma robust_entry [robust_intros]:
  "robust (mkdir_all p)" "robust (entry_path p)" "robust (root_remove q)" "robust (writeEntry p c m t)"
  "robust (write_dir p m)" "robust (write_symlink p s)" "robust (write_link p l)"
proof -
  show 1: "robust (mkdir_all p)" for p
    unfolding mkdir_all_def by (auto intro!: robust_intros split: option.splits)
  show 2: "robust (entry_path p)" for p
    unfolding entry_path_def by (auto intro!: robust_intros 1)
  show 3: "robust (root_remove q)" for q
    unfolding root_remove_def by (auto intro!: robust_intros split: option.splits node.splits)
  show "robust (writeEntry p c m t)" unfolding writeEntry_def by (intro robust_intros 2 3)
  show "robust (write_dir p m)" unfolding write_dir_def by (intro robust_intros 1)
  show "robust (write_symlink p s)" unfolding write_symlink_def by (intro robust_intros 2 3)
  show "robust (write_link p l)"
    unfolding write_link_def by (auto intro!: robust_intros 2 3 split: option.splits node.splits)
qed

lemma robust_untar [robust_intros]: "robust (untarFiltered st strip rename)"
proof -
  have "robust (write_entry strip rename e)" for e
    unfolding write_entry_def by (auto intro!: robust_intros simp: Let_def split: option.splits entry_kind.splits)
  then show ?thesis unfolding untarFiltered_def by (auto intro!: robust_intros split: option.splits)
qed

end
