(* ===== verification/Download.thy ===== *)
theory Download
  imports Timestamp Sha256
begin

text \<open>
  The in-step source fetch of \<^verbatim>\<open>kbuild-step\<close>: the retry and resume loop (\<open>download\<close>), the backoff, the refusal of
  cleartext redirects and of link-local destinations (\<open>check_redirect\<close>, \<open>dial\<close>). The HTTP server, the resolver and the
  network are arguments.
\<close>

section \<open>Errors and waiting\<close>

datatype fetch_error =
    Policy string | Dns_Not_Found string | Net_Error string | Http_Status nat | Copy_Error string
  | Open_Error | Bad_Request | Cancelled

definition isPermanent :: "fetch_error \<Rightarrow> bool" where
  "isPermanent e = (case e of Policy _ \<Rightarrow> True | Dns_Not_Found _ \<Rightarrow> True | _ \<Rightarrow> False)"

text \<open>Durations are whole seconds.\<close>

definition retryBase :: int where "retryBase = 2"

definition parseRetryAfter :: "string \<Rightarrow> int" where
  "parseRetryAfter v =
     (if v = [] then 0
      else case parse_int64 (trim_space v) of
        None \<Rightarrow> 0
      | Some n \<Rightarrow> if n \<le> 0 then 0 else if n > 30 then 30 else n)"

section \<open>The transfer loop\<close>

text \<open>
  A reply: an error of \<^verbatim>\<open>client.Do\<close>, or a status with its \<^verbatim>\<open>Retry-After\<close> header, the body bytes that arrived, and the
  error that ended the copy, if any.
\<close>

datatype reply = Do_Error fetch_error | Reply nat string string "string option"

text \<open>
  The outside world of one download: what the server answers to attempt \<open>n\<close> with an optional range start, whether
  opening the destination succeeds, whether the wait before attempt \<open>n\<close> is cancelled, and whether the URL makes a
  request at all.
\<close>

record fetch_env =
  serve :: "nat \<Rightarrow> nat option \<Rightarrow> reply"
  open_ok :: "nat \<Rightarrow> bool"
  cancelled :: "nat \<Rightarrow> bool"
  request_ok :: bool

record fetch =
  part :: "string option"  \<comment> \<open>the destination file\<close>
  waits :: "int list"
  asked :: "nat list"  \<comment> \<open>the attempts that sent a request\<close>

definition maxAttempts :: nat where "maxAttempts = 5"

datatype attempt_result = Done | Fatal fetch_error | Again fetch_error int

definition have_bytes :: "fetch \<Rightarrow> nat" where
  "have_bytes f = (case part f of None \<Rightarrow> 0 | Some b \<Rightarrow> length b)"

text \<open>The body of the loop after the wait; \<open>ra\<close> is the longest \<^verbatim>\<open>Retry-After\<close> seen since it was last used.\<close>

definition store_body :: "fetch_env \<Rightarrow> nat \<Rightarrow> int \<Rightarrow> string \<Rightarrow> string \<Rightarrow> string option \<Rightarrow> fetch \<Rightarrow> attempt_result \<times> fetch" where
  "store_body env n ra old body err f =
     (if \<not> open_ok env n then (Fatal Open_Error, f)
      else let f = f\<lparr>part := Some (old @ body)\<rparr>
           in (case err of None \<Rightarrow> (Done, f) | Some e \<Rightarrow> (Again (Copy_Error e) ra, f)))"

definition attempt :: "fetch_env \<Rightarrow> nat \<Rightarrow> int \<Rightarrow> fetch \<Rightarrow> attempt_result \<times> fetch" where
  "attempt env n ra f =
     (let have = have_bytes f in
      if \<not> request_ok env then (Fatal Bad_Request, f)
      else let f = f\<lparr>asked := asked f @ [n]\<rparr> in
        (case serve env n (if have > 0 then Some have else None) of
           Do_Error e \<Rightarrow> if isPermanent e then (Fatal e, f) else (Again e ra, f)
         | Reply status hdr body err \<Rightarrow>
             if status = 200 then store_body env n ra [] body err f
             else if status = 206 then
               store_body env n ra (case part f of None \<Rightarrow> [] | Some b \<Rightarrow> b) body err f
             else if status = 416 \<and> have > 0 then (Again (Http_Status status) ra, f\<lparr>part := None\<rparr>)
             else if status = 429 \<or> status \<ge> 500 then
               (Again (Http_Status status) (max ra (parseRetryAfter hdr)), f)
             else (Fatal (Http_Status status), f)))"

definition backoff :: "nat \<Rightarrow> int \<Rightarrow> fetch \<Rightarrow> int \<times> fetch" where
  "backoff n ra f = (if n > 1 then (0, f\<lparr>waits := waits f @ [max ra (int n * retryBase)]\<rparr>) else (ra, f))"

fun attempts :: "fetch_env \<Rightarrow> nat list \<Rightarrow> fetch_error \<Rightarrow> int \<Rightarrow> fetch \<Rightarrow> fetch_error option \<times> fetch" where
  "attempts env [] lastErr ra f = (Some lastErr, f)"
| "attempts env (n # ns) lastErr ra f =
     (case backoff n ra f of (ra, f) \<Rightarrow>
        if n > 1 \<and> cancelled env n then (Some Cancelled, f)
        else (case attempt env n ra f of
              (Done, f) \<Rightarrow> (None, f)
            | (Fatal e, f) \<Rightarrow> (Some e, f)
            | (Again e ra, f) \<Rightarrow> attempts env ns e ra f))"

text \<open>The error, if any, and the state; an earlier partial file is removed first.\<close>

definition download :: "fetch_env \<Rightarrow> fetch_error option \<times> fetch" where
  "download env = attempts env [1..<Suc maxAttempts] Bad_Request 0 \<lparr>part = None, waits = [], asked = []\<rparr>"

section \<open>Redirects and destinations\<close>

definition check_redirect :: "nat \<Rightarrow> string \<Rightarrow> string \<Rightarrow> fetch_error option" where
  "check_redirect via scheme redacted =
     (if via \<ge> 5 then Some (Policy ''too many redirects'')
      else if scheme \<noteq> ''https'' then Some (Policy (''refusing non-https redirect to '' @ redacted))
      else None)"

text \<open>A \<^verbatim>\<open>net.IP\<close> is 4 or 16 bytes; an IPv4 address also has its 16-byte mapped form.\<close>

type_synonym ip = "byte list"

definition v4_prefix :: ip where "v4_prefix = replicate 10 0 @ [0xff, 0xff]"

definition to4 :: "ip \<Rightarrow> ip option" where
  "to4 a = (if length a = 4 then Some a
     else if length a = 16 \<and> take 12 a = v4_prefix then Some (drop 12 a) else None)"

definition IsLinkLocalUnicast :: "ip \<Rightarrow> bool" where
  "IsLinkLocalUnicast a =
     (case to4 a of
        Some b \<Rightarrow> b ! 0 = 169 \<and> b ! 1 = 254
      | None \<Rightarrow> length a = 16 \<and> a ! 0 = 0xfe \<and> a ! 1 AND 0xc0 = 0x80)"

definition IsLinkLocalMulticast :: "ip \<Rightarrow> bool" where
  "IsLinkLocalMulticast a =
     (case to4 a of
        Some b \<Rightarrow> b ! 0 = 224 \<and> b ! 1 = 0 \<and> b ! 2 = 0
      | None \<Rightarrow> length a = 16 \<and> a ! 0 = 0xff \<and> a ! 1 AND 0x0f = 0x02)"

definition ip_equal :: "ip \<Rightarrow> ip \<Rightarrow> bool" where
  "ip_equal a b =
     (if length a = length b then a = b
      else if length a = 4 \<and> length b = 16 then take 12 b = v4_prefix \<and> a = drop 12 b
      else if length a = 16 \<and> length b = 4 then take 12 a = v4_prefix \<and> b = drop 12 a
      else False)"

definition awsIMDSv6 :: ip where
  "awsIMDSv6 = [0xfd, 0, 0x0e, 0xc2, 0, 0, 0, 0, 0, 0, 0, 0, 0, 0, 0x02, 0x54]"

definition refused :: "ip \<Rightarrow> bool" where
  "refused a \<longleftrightarrow> IsLinkLocalUnicast a \<or> IsLinkLocalMulticast a \<or> ip_equal a awsIMDSv6"

text \<open>
  \<open>lookup\<close> is the one resolution of the name, \<open>connect\<close> the result of dialling an address. The result names the
  address connected to.
\<close>

fun dial_first :: "(ip \<Rightarrow> (string, unit) result) \<Rightarrow> ip list \<Rightarrow> string option \<Rightarrow> (fetch_error, ip) result" where
  "dial_first connect [] lastErr = Inl (Net_Error (case lastErr of None \<Rightarrow> ''no addresses'' | Some e \<Rightarrow> e))"
| "dial_first connect (a # as) lastErr =
     (case connect a of Inr _ \<Rightarrow> Inr a | Inl e \<Rightarrow> dial_first connect as (Some e))"

definition dial :: "(fetch_error, ip list) result \<Rightarrow> (ip \<Rightarrow> (string, unit) result) \<Rightarrow> (fetch_error, ip) result" where
  "dial lookup connect =
     rbind lookup (\<lambda>ips.
       if list_ex refused ips then Inl (Policy ''refusing link-local or metadata destination'')
       else dial_first connect ips None)"

section \<open>An honest server\<close>

text \<open>
  What HTTP promises about a file \<open>x\<close>: a 200 delivers it from the start, a 206 from the requested offset, a body that
  ends without an error is complete and an interrupted one is a prefix.
\<close>

definition honest :: "fetch_env \<Rightarrow> string \<Rightarrow> bool" where
  "honest env x \<longleftrightarrow> (\<forall>n range status hdr body err.
     serve env n range = Reply status hdr body err \<longrightarrow>
     (status = 200 \<longrightarrow> prefix body x \<and> (err = None \<longrightarrow> body = x)) \<and>
     (status = 206 \<longrightarrow>
        (let rest = drop (case range of None \<Rightarrow> 0 | Some k \<Rightarrow> k) x in prefix body rest \<and> (err = None \<longrightarrow> body = rest))))"

definition resumable :: "string \<Rightarrow> fetch \<Rightarrow> bool" where
  "resumable x f \<longleftrightarrow> (case part f of None \<Rightarrow> True | Some b \<Rightarrow> prefix b x)"

lemma prefix_drop_append: "prefix b x \<Longrightarrow> prefix c (drop (length b) x) \<Longrightarrow> prefix (b @ c) x"
  by (auto simp: prefix_def)

lemma prefix_drop_complete: "prefix b x \<Longrightarrow> b @ drop (length b) x = x"
  by (auto simp: prefix_def)

lemma store_body_resumable:
  assumes "store_body env n ra old body err f = (r, f')" and "resumable x f"
    and "prefix (old @ body) x" and "err = None \<Longrightarrow> old @ body = x"
  shows "resumable x f' \<and> (r = Done \<longrightarrow> part f' = Some x)"
  using assms by (auto simp: store_body_def resumable_def Let_def split: if_splits option.splits)

lemma attempt_resumable:
  assumes "honest env x" and "resumable x f" and "attempt env n ra f = (r, f')"
  shows "resumable x f' \<and> (r = Done \<longrightarrow> part f' = Some x)"
proof (cases "request_ok env")
  case False
  with assms show ?thesis by (auto simp: attempt_def)
next
  case ok: True
  let ?range = "if have_bytes f > 0 then Some (have_bytes f) else None"
  let ?f = "f\<lparr>asked := asked f @ [n]\<rparr>"
  have rf: "resumable x ?f" using assms(2) by (simp add: resumable_def)
  show ?thesis
  proof (cases "serve env n ?range")
    case (Do_Error e)
    with ok assms(3) rf show ?thesis by (auto simp: attempt_def Let_def split: if_splits)
  next
    case (Reply status hdr body err)
    note h = assms(1) [unfolded honest_def, rule_format, OF Reply]
    consider "status = 200" | "status = 206" | "status \<noteq> 200" "status \<noteq> 206" by blast
    then show ?thesis
    proof cases
      case 1
      then have "store_body env n ra [] body err ?f = (r, f')"
        using assms(3) ok Reply by (simp add: attempt_def Let_def)
      then show ?thesis by (rule store_body_resumable [OF _ rf]) (use h 1 in auto)
    next
      case 2
      let ?old = "case part f of None \<Rightarrow> [] | Some b \<Rightarrow> b"
      have "prefix ?old x" using assms(2) by (auto simp: resumable_def split: option.splits)
      moreover have "(case ?range of None \<Rightarrow> 0 | Some k \<Rightarrow> k) = length ?old"
        by (auto simp: have_bytes_def split: option.splits)
      ultimately have "prefix (?old @ body) x" "err = None \<Longrightarrow> ?old @ body = x"
        using h 2 prefix_drop_append prefix_drop_complete by (auto simp: Let_def)
      moreover have "store_body env n ra ?old body err ?f = (r, f')"
        using assms(3) ok Reply 2 by (simp add: attempt_def Let_def split: option.splits)
      ultimately show ?thesis using store_body_resumable [OF _ rf] by blast
    next
      case 3
      then show ?thesis using assms(3) ok Reply rf
        by (auto simp: attempt_def Let_def resumable_def split: if_splits)
    qed
  qed
qed

lemma resumable_waits [simp]: "resumable x (f\<lparr>waits := w\<rparr>) = resumable x f"
  by (simp add: resumable_def)

lemma resumable_backoff: "backoff n ra f = (ra', f') \<Longrightarrow> resumable x f' = resumable x f"
  by (auto simp: backoff_def split: if_splits)

lemma attempts_resumable:
  "honest env x \<Longrightarrow> resumable x f \<Longrightarrow> attempts env ns lastErr ra f = (r, f') \<Longrightarrow>
   resumable x f' \<and> (r = None \<longrightarrow> part f' = Some x)"
proof (induction ns arbitrary: lastErr ra f)
  case Nil
  then show ?case by auto
next
  case (Cons n ns)
  obtain ra1 f1 where b: "backoff n ra f = (ra1, f1)" by fastforce
  obtain a f2 where a: "attempt env n ra1 f1 = (a, f2)" by fastforce
  have "resumable x f1" using Cons.prems(2) resumable_backoff [OF b] by simp
  with attempt_resumable [OF Cons.prems(1) this a] Cons.IH [OF Cons.prems(1)] Cons.prems(3) show ?case
    by (auto simp: b a split: attempt_result.splits if_splits)
qed

section \<open>Bounds\<close>

lemma parseRetryAfter_bounds: "0 \<le> parseRetryAfter v \<and> parseRetryAfter v \<le> 30"
  by (simp add: parseRetryAfter_def split: option.splits)

lemma store_body_counts:
  "store_body env n ra old body err f = (r, f') \<Longrightarrow> waits f' = waits f \<and> asked f' = asked f \<and>
     (\<forall>e ra'. r = Again e ra' \<longrightarrow> ra' = ra)"
  by (auto simp: store_body_def Let_def split: if_splits option.splits)

lemma attempt_counts:
  assumes "attempt env n ra f = (r, f')" and "0 \<le> ra" and "ra \<le> 30"
  shows "waits f' = waits f \<and> (asked f' = asked f \<or> asked f' = asked f @ [n]) \<and>
    (\<forall>e ra'. r = Again e ra' \<longrightarrow> 0 \<le> ra' \<and> ra' \<le> 30)"
  using assms parseRetryAfter_bounds
  by (auto simp: attempt_def Let_def dest!: store_body_counts split: if_splits reply.splits)

lemma attempts_counts:
  "attempts env ns lastErr ra f = (r, f') \<Longrightarrow> 0 \<le> ra \<Longrightarrow> ra \<le> 30 \<Longrightarrow> \<forall>n \<in> set ns. n \<le> 15 \<Longrightarrow>
   \<exists>ws as. waits f' = waits f @ ws \<and> asked f' = asked f @ as \<and> length ws \<le> length ns \<and> length as \<le> length ns \<and>
     (\<forall>w \<in> set ws. 0 < w \<and> w \<le> 30) \<and> length ws \<le> length (filter (\<lambda>n. 1 < n) ns)"
proof (induction ns arbitrary: lastErr ra f)
  case Nil
  then show ?case by auto
next
  case (Cons n ns)
  obtain ra1 f1 where b: "backoff n ra f = (ra1, f1)" by fastforce
  obtain a f2 where a: "attempt env n ra1 f1 = (a, f2)" by fastforce
  have ra1: "0 \<le> ra1 \<and> ra1 \<le> 30" and as1: "asked f1 = asked f"
    using b Cons.prems(2,3) by (auto simp: backoff_def split: if_splits)
  have w1: "\<exists>ws. waits f1 = waits f @ ws \<and> (\<forall>w \<in> set ws. 0 < w \<and> w \<le> 30) \<and> length ws = (if 1 < n then 1 else 0)"
    using b Cons.prems(2-4) by (auto simp: backoff_def retryBase_def split: if_splits)
  note a2 = attempt_counts [OF a ra1 [THEN conjunct1] ra1 [THEN conjunct2]]
  show ?case
  proof (cases "(1 < n \<and> cancelled env n) \<or> (\<forall>e ra'. a \<noteq> Again e ra')")
    case True
    then have "f' = f1 \<or> f' = f2"
      using Cons.prems(1) by (auto simp: b a split: attempt_result.splits if_splits)
    then have "waits f' = waits f1 \<and> (asked f' = asked f1 \<or> asked f' = asked f1 @ [n])" using a2 by auto
    with w1 as1 show ?thesis by (auto split: if_splits)
  next
    case False
    then obtain e ra2 where e: "a = Again e ra2" by blast
    with False Cons.prems(1) have "attempts env ns e ra2 f2 = (r, f')"
      by (auto simp: b a split: if_splits)
    from Cons.IH [OF this] a2 e Cons.prems(4) obtain ws as where
      "waits f' = waits f2 @ ws" "asked f' = asked f2 @ as" "length as \<le> length ns"
      "\<forall>w \<in> set ws. 0 < w \<and> w \<le> 30" "length ws \<le> length (filter (\<lambda>n. 1 < n) ns)" "length ws \<le> length ns" by auto
    with a2 w1 as1 show ?thesis by (auto split: if_splits)
  qed
qed

section \<open>Transient failures\<close>

definition transient :: "fetch_env \<Rightarrow> nat \<Rightarrow> bool" where
  "transient env n \<longleftrightarrow> (\<forall>range. case serve env n range of
     Do_Error e \<Rightarrow> \<not> isPermanent e
   | Reply status hdr body err \<Rightarrow> (status = 200 \<or> status = 206) \<and> err \<noteq> None \<or> status = 429 \<or> status \<ge> 500)"

lemma attempt_transient:
  assumes "transient env n" and "request_ok env" and "open_ok env n"
  shows "\<exists>e ra' f'. attempt env n ra f = (Again e ra', f')"
proof -
  let ?range = "if have_bytes f > 0 then Some (have_bytes f) else None"
  note t = assms(1) [unfolded transient_def, THEN spec, of ?range]
  show ?thesis
  proof (cases "serve env n ?range")
    case (Do_Error e)
    with t assms(2) show ?thesis by (simp add: attempt_def Let_def)
  next
    case (Reply status hdr body err)
    with t have "(status = 200 \<or> status = 206) \<and> err \<noteq> None \<or> status = 429 \<or> status \<ge> 500" by simp
    then consider e where "status = 200" "err = Some e" | e where "status = 206" "err = Some e"
      | "status = 429 \<or> status \<ge> 500" "status \<noteq> 200" "status \<noteq> 206" "status \<noteq> 416" by fastforce
    then show ?thesis
      using assms(2,3) Reply by cases (simp_all add: attempt_def Let_def store_body_def)
  qed
qed

lemma attempts_reach:
  assumes "\<forall>j \<in> set ns. transient env j" and "request_ok env" and "\<forall>j. open_ok env j \<and> \<not> cancelled env j"
    and "\<forall>range. \<exists>hdr. serve env k range = Reply 200 hdr x None"
  shows "fst (attempts env (ns @ k # ms) lastErr ra f) = None"
  using assms(1)
proof (induction ns arbitrary: lastErr ra f)
  case Nil
  obtain ra1 f1 where b: "backoff k ra f = (ra1, f1)" by fastforce
  obtain hdr where "serve env k (if have_bytes f1 > 0 then Some (have_bytes f1) else None) = Reply 200 hdr x None"
    using assms(4) by blast
  then show ?case using assms(2,3) by (simp add: b attempt_def Let_def store_body_def)
next
  case (Cons n ns)
  obtain ra1 f1 where b: "backoff n ra f = (ra1, f1)" by fastforce
  obtain e ra2 f2 where "attempt env n ra1 f1 = (Again e ra2, f2)"
    using attempt_transient [of env n ra1 f1] Cons.prems assms(2,3) by auto
  with Cons b assms(3) show ?case by simp
qed

lemma attempt_numbers: "[1..<Suc maxAttempts] = [1, 2, 3, 4, 5]"
  by (simp add: maxAttempts_def upt_rec)

section \<open>Properties of the fetch\<close>

text \<open>
  C28. A resumed transfer is the whole file: with a server that serves ranges of \<open>x\<close> honestly, whatever was cut short
  on the way, a download that reports success has written exactly \<open>x\<close>, and one that fails leaves at most a prefix.
\<close>

theorem download_exact:
  assumes "honest env x" and "download env = (r, f)"
  shows "(r = None \<longrightarrow> part f = Some x) \<and> (part f = None \<or> (\<exists>b. part f = Some b \<and> prefix b x))"
proof -
  have "resumable x \<lparr>part = None, waits = [], asked = []\<rparr>" by (simp add: resumable_def)
  from attempts_resumable [OF assms(1) this assms(2) [unfolded download_def]] show ?thesis
    by (auto simp: resumable_def split: option.splits)
qed

text \<open>A server that breaks off the first transfer and honours the range of the second.\<close>

definition flaky :: fetch_env where
  "flaky = \<lparr>serve = (\<lambda>n range. case range of
       None \<Rightarrow> if n = 1 then Reply 200 [] ''ker'' (Some ''reset'') else Reply 200 [] ''kernel'' None
     | Some k \<Rightarrow> Reply 206 [] (drop k ''kernel'') None),
     open_ok = (\<lambda>_. True), cancelled = (\<lambda>_. False), request_ok = True\<rparr>"

lemma flaky_honest: "honest flaky ''kernel''"
proof -
  have "prefix ''ker'' ''kernel''" by code_simp
  then show ?thesis by (auto simp: honest_def flaky_def Let_def split: option.splits if_splits)
qed

lemma download_flaky: "download flaky = (None, \<lparr>part = Some ''kernel'', waits = [4], asked = [1, 2]\<rparr>)"
  unfolding download_def attempt_numbers
  by (simp add: backoff_def flaky_def attempt_def have_bytes_def Let_def store_body_def retryBase_def)

theorem download_exact_witness:
  "\<exists>f. download flaky = (None, f) \<and> part f = Some ''kernel'' \<and> asked f = [1, 2]"
  using download_exact [OF flaky_honest download_flaky] download_flaky by simp


text \<open>
  C30. Transient failures are survived: if every attempt before the \<open>k\<close>-th of five fails transiently (an interrupted
  body, a retryable error, a 429 or a 5xx) and the \<open>k\<close>-th delivers the file, the download succeeds.
\<close>

theorem download_survives:
  assumes "1 \<le> k" and "k \<le> 5" and "\<forall>j. 1 \<le> j \<longrightarrow> j < k \<longrightarrow> transient env j"
    and "request_ok env" and "\<forall>j. open_ok env j \<and> \<not> cancelled env j"
    and "\<forall>range. \<exists>hdr. serve env k range = Reply 200 hdr x None"
  shows "fst (download env) = None"
proof -
  have "[1..<k + (6 - k)] = [1..<k] @ [k..<k + (6 - k)]" using assms(1) by (rule upt_add_eq_append)
  then have "[1..<Suc maxAttempts] = [1..<k] @ k # [Suc k..<6]"
    using assms(2) by (simp add: maxAttempts_def upt_conv_Cons)
  then show ?thesis
    unfolding download_def by (simp only:) (rule attempts_reach [OF _ assms(4-6)], use assms(3) in auto)
qed

definition busy :: fetch_env where
  "busy = \<lparr>serve = (\<lambda>n range. if n < 3 then Reply 503 ''1'' [] None else Reply 200 [] ''kernel'' None),
     open_ok = (\<lambda>_. True), cancelled = (\<lambda>_. False), request_ok = True\<rparr>"

theorem download_survives_witness: "fst (download busy) = None"
  by (rule download_survives [where k = 3 and x = "''kernel''"]) (simp_all add: busy_def transient_def)



end
