(* ===== verification/Tree.thy ===== *)
theory Tree
  imports Untar Seed Download
begin

text \<open>
  The persistent object tree: \<open>prepareTree\<close>, \<open>configure\<close>, \<open>acquireSource\<close>, \<open>stampWant\<close>, \<open>nukeTree\<close>, \<open>extractTarball\<close>, \<open>applyPatches\<close> and
  \<open>seedPull\<close> of \<^verbatim>\<open>kbuild-step\<close>, as computations on the disk whose every system call may fail or be the last. The
  decompressors, the S3 client, the diff library, the network and \<^verbatim>\<open>make\<close> are arguments.
\<close>

section \<open>The surroundings of the step\<close>

text \<open>One file of a parsed patch; \<open>g_apply\<close> applies its hunks to the old content.\<close>

record gfile =
  g_old :: string
  g_new :: string
  g_is_new :: bool
  g_is_delete :: bool
  g_is_rename :: bool
  g_mode :: nat  \<comment> \<open>0 when the patch does not set it\<close>
  g_hunks :: bool
  g_apply :: "string \<Rightarrow> (string, string) result"

datatype object_reply = Get_Error string | No_Such_Key | Object stream

record step_env =
  getenv :: "string \<Rightarrow> string"  \<comment> \<open>empty when unset\<close>
  src_mount :: "string \<rightharpoonup> string"  \<comment> \<open>files of \<^verbatim>\<open>/src\<close>\<close>
  patch_mount :: "(string \<times> string) list"  \<comment> \<open>the \<^verbatim>\<open>*.patch\<close> files of \<^verbatim>\<open>/patches\<close>\<close>
  config_mount :: "string option"  \<comment> \<open>\<^verbatim>\<open>/kernel.config\<close>\<close>
  decode :: "string \<Rightarrow> string \<Rightarrow> (string, stream) result"  \<comment> \<open>by extension\<close>
  server :: "string \<Rightarrow> fetch_env"
  secrets_of :: secrets
  aws_load :: "string \<Rightarrow> string \<Rightarrow> string \<Rightarrow> (seed_error, string) result"
  s3_get :: "string \<Rightarrow> string \<Rightarrow> bool \<Rightarrow> string \<Rightarrow> string \<Rightarrow> object_reply"  \<comment> \<open>configuration, endpoint, path style, bucket, key\<close>
  git_parse :: "string \<Rightarrow> (string, gfile list) result"
  run_make :: "(string \<Rightarrow> string) \<Rightarrow> string list \<Rightarrow> disk \<Rightarrow> (disk \<Rightarrow> disk) list \<times> bool"  \<comment> \<open>from environment, arguments and disk: effects and exit status\<close>

section \<open>Identity of the inputs\<close>

definition fileSHA256 :: "string \<Rightarrow> string" where "fileSHA256 content = sha256_hex content"

definition patchFiles :: "step_env \<Rightarrow> (string, (string \<times> string) list) result" where
  "patchFiles E = (if patch_mount E = [] then Inl ''no patches'' else Inr (sort_key fst (patch_mount E)))"

definition stampWant :: "step_env \<Rightarrow> (string, string) result" where
  "stampWant E =
     rbind (if getenv E ''APPLY_PATCHES'' = ''1''
            then rbind (patchFiles E) (\<lambda>ps. Inr (take 16 (sha256_hex (concat (map snd ps)))))
            else Inr ''none'') (\<lambda>psha.
     rbind (let name = getenv E ''SRC_LOCAL'' in
            if name = [] then Inr (getenv E ''SRC_ID'')
            else (case src_mount E name of
                    None \<Rightarrow> Inl ''hash local source''
                  | Some c \<Rightarrow> Inr (''local:'' @ fileSHA256 c))) (\<lambda>srcID.
     Inr (''src='' @ srcID @ '' patches='' @ psha)))"

definition stamp_path :: path where "stamp_path = [''.kbf-stamp'']"
definition seed_stamp_path :: path where "seed_stamp_path = [''.kbf-stamp.seed'']"
definition marker_path :: path where "marker_path = [''.kbf-config-src'']"
definition config_path :: path where "config_path = [''.config'']"

definition treePresent :: "disk \<Rightarrow> bool" where "treePresent d = stat_exists d [''Makefile'']"

definition readStamp :: "disk \<Rightarrow> string" where
  "readStamp d = (case read_file d stamp_path of None \<Rightarrow> ''none'' | Some c \<Rightarrow> c)"

section \<open>Clearing and filling\<close>

definition is_src_name :: "string \<Rightarrow> bool" where "is_src_name n \<longleftrightarrow> has_prefix n ''.kbf-src''"

definition nukeTree :: "unit step" where
  "nukeTree = sbind (look top_names) (each (\<lambda>n. if is_src_name n then sret () else remove_all n))"

datatype src_file = In_Src string | In_Build string

definition src_ext :: "string \<Rightarrow> string option" where
  "src_ext url = find (\<lambda>ext. has_suffix url (''.tar'' @ ext)) [''.gz'', ''.xz'', ''.zst'']"

definition cached_name :: "string \<Rightarrow> string" where "cached_name ext = ''.kbf-src.tar'' @ ext"

text \<open>What the transfer leaves in the partial file.\<close>

definition store_part :: "string \<Rightarrow> fetch \<Rightarrow> unit step" where
  "store_part name f = sbind (ignore (remove_file [name])) (\<lambda>_.
     case part f of None \<Rightarrow> sret () | Some b \<Rightarrow> write_file [name] b)"

text \<open>\<^verbatim>\<open>os.Rename\<close> of a file; both names are files here.\<close>

definition rename_file :: "path \<Rightarrow> path \<Rightarrow> unit step" where
  "rename_file p q = sbind (look (\<lambda>d. if is_dir d p \<or> is_dir d q then None else map_of d p)) (\<lambda>n.
     sbind (from_option ''rename'' n) (\<lambda>n. sys (\<lambda>d. AList.update q n (AList.delete p d))))"

definition fetch_source :: "step_env \<Rightarrow> string \<Rightarrow> string \<Rightarrow> string \<Rightarrow> unit step" where
  "fetch_source E url cached want_sum =
     (let p = cached @ ''.part''; (err, f) = download (server E url) in
      sbind (store_part p f) (\<lambda>_.
      sbind (case err of None \<Rightarrow> sret () | Some e \<Rightarrow> serr ''download'') (\<lambda>_.
      sbind (if want_sum = [] then sret ()
             else sbind (look (\<lambda>d. read_file d [p])) (\<lambda>c.
                  sbind (from_option ''read'' c) (\<lambda>c.
                    if fileSHA256 c = want_sum then sret ()
                    else sbind (ignore (remove_file [p])) (\<lambda>_. serr ''source sha256 mismatch'')))) (\<lambda>_.
      rename_file [p] [cached]))))"

definition acquireSource :: "step_env \<Rightarrow> src_file step" where
  "acquireSource E =
     (let name = getenv E ''SRC_LOCAL'' in
      if name \<noteq> [] then
        (if contains name ''..'' \<or> has_prefix name ''/'' then serr ''bad name'' else sret (In_Src name))
      else
        let url = getenv E ''SRC_URL''; want_sum = getenv E ''SRC_SHA256'' in
        sbind (from_option ''unsupported source'' (src_ext url)) (\<lambda>ext.
        let cached = cached_name ext in
        sbind (look (\<lambda>d. read_file d [cached])) (\<lambda>c.
          if want_sum \<noteq> [] \<and> map_option fileSHA256 c = Some want_sum then sret (In_Build cached)
          else sbind (fetch_source E url cached want_sum) (\<lambda>_. sret (In_Build cached)))))"

definition archive_name :: "src_file \<Rightarrow> string" where
  "archive_name s = (case s of In_Src n \<Rightarrow> n | In_Build n \<Rightarrow> n)"

definition archive_content :: "step_env \<Rightarrow> src_file \<Rightarrow> disk \<Rightarrow> string option" where
  "archive_content E s d = (case s of In_Src n \<Rightarrow> src_mount E n | In_Build n \<Rightarrow> read_file d [n])"

definition archive_stream :: "step_env \<Rightarrow> src_file \<Rightarrow> string \<Rightarrow> (string, stream) result" where
  "archive_stream E s c =
     (let n = archive_name s in
      if has_suffix n ''.gz'' then decode E ''.gz'' c
      else if has_suffix n ''.zst'' then decode E ''.zst'' c
      else if has_suffix n ''.xz'' then decode E ''.xz'' c
      else Inl ''unsupported source tarball'')"

definition extractTarball :: "step_env \<Rightarrow> src_file \<Rightarrow> unit step" where
  "extractTarball E s =
     sbind (look (archive_content E s)) (\<lambda>c.
     sbind (from_option ''open'' c) (\<lambda>c.
     sbind (lift_result (archive_stream E s c)) (\<lambda>st. untar st 1)))"

section \<open>Patches\<close>

text \<open>
  \<^verbatim>\<open>Root.WriteFile\<close> followed by \<^verbatim>\<open>Root.Chmod\<close>. Both follow links; the directory must exist, and a file that is already
  there keeps its mode until the second call.
\<close>

definition root_write :: "path \<Rightarrow> string \<Rightarrow> nat \<Rightarrow> unit step" where
  "root_write p c mode =
     sbind (look (\<lambda>d. case root_resolve d p of
         None \<Rightarrow> None
       | Some q \<Rightarrow> if q = [] \<or> is_dir d q \<or> butlast q \<noteq> [] \<and> \<not> is_dir d (butlast q) then None else Some q)) (\<lambda>r.
     sbind (from_option ''open'' r) (\<lambda>q.
     sbind (look (\<lambda>d. file_mode d q mode)) (\<lambda>m.
     sbind (sys (AList.update q (File [] m 0))) (\<lambda>_.
     sbind (sys_write (\<lambda>c. AList.update q (File c m 0)) c) (\<lambda>_.
       sys (AList.update q (File c mode 0)))))))"

definition root_read :: "path \<Rightarrow> disk \<Rightarrow> (string \<times> nat) option" where
  "root_read p d =
     (case root_resolve d p of
        None \<Rightarrow> None
      | Some q \<Rightarrow> (case map_of d q of Some (File c m _) \<Rightarrow> Some (c, m) | _ \<Rightarrow> None))"

text \<open>\<^verbatim>\<open>Root.Remove\<close> where an absent entry is an error.\<close>

definition root_unlink :: "path \<Rightarrow> unit step" where
  "root_unlink p = (if p = [] \<or> \<not> proper (last p) then serr ''bad name''
     else sbind (look (\<lambda>d. case root_resolve d (butlast p) of None \<Rightarrow> None
         | Some r \<Rightarrow> if map_of d (r @ [last p]) = None then None else Some (r @ [last p]))) (\<lambda>r.
       sbind (from_option ''remove'' r) root_remove))"

definition old_name :: "gfile \<Rightarrow> path" where
  "old_name f = path_of (trim_prefix (trim_prefix (g_old f) ''a/'') ''b/'')"

definition new_name :: "gfile \<Rightarrow> path" where
  "new_name f = path_of (trim_prefix (trim_prefix (g_new f) ''b/'') ''a/'')"

definition apply_file :: "gfile \<Rightarrow> unit step" where
  "apply_file f =
     (if g_is_new f then
        sbind (lift_result (g_apply f [])) (\<lambda>out.
        sbind (mkdir_all (butlast (new_name f))) (\<lambda>_.
          root_write (new_name f) out (if g_mode f \<noteq> 0 then g_mode f else 420)))
      else if g_is_delete f then root_unlink (old_name f)
      else
        sbind (look (root_read (old_name f))) (\<lambda>r.
        sbind (from_option ''read'' r) (\<lambda>(src, m).
        sbind (if g_hunks f then lift_result (g_apply f src) else sret src) (\<lambda>out.
        sbind (root_write (new_name f) out (if g_mode f \<noteq> 0 then g_mode f else m)) (\<lambda>_.
          if g_is_rename f \<and> old_name f \<noteq> new_name f then root_unlink (old_name f) else sret ())))))"

definition applyPatches :: "step_env \<Rightarrow> unit step" where
  "applyPatches E =
     sbind (lift_result (patchFiles E)) (\<lambda>ps.
       each (\<lambda>p. sbind (lift_result (git_parse E (snd p))) (each apply_file)) ps)"

section \<open>The seed\<close>

definition get_object :: "step_env \<Rightarrow> seedCfg \<Rightarrow> object_reply" where
  "get_object E c =
     (case s3Client (aws_load E) (s3_get E) (secrets_of E) c of
        Inl _ \<Rightarrow> Get_Error ''s3 client''
      | Inr (cl, bucket) \<Rightarrow> cl bucket (sc_key c))"

definition seedPull :: "step_env \<Rightarrow> seedCfg \<Rightarrow> bool step" where
  "seedPull E c =
     (case get_object E c of
        Get_Error e \<Rightarrow> serr e
      | No_Such_Key \<Rightarrow> sret False
      | Object st \<Rightarrow> sbind (on_error (untarSeed st) nukeTree) (\<lambda>_. sret True))"

definition hydrate :: "step_env \<Rightarrow> string \<Rightarrow> seedCfg \<Rightarrow> unit step" where
  "hydrate E want c =
     sbind (seedPull E c) (\<lambda>found.
       if \<not> found then sret ()
       else
         sbind (look (\<lambda>d. case read_file d seed_stamp_path of None \<Rightarrow> [] | Some s \<Rightarrow> s)) (\<lambda>seedStamp.
         sbind (ignore (remove_file seed_stamp_path)) (\<lambda>_.
           if seedStamp \<noteq> want then nukeTree else write_file stamp_path want)))"

section \<open>prepareTree\<close>

definition replace_source :: "step_env \<Rightarrow> string \<Rightarrow> src_file option step" where
  "replace_source E want =
     sbind (look (\<lambda>d. treePresent d \<and> readStamp d \<noteq> want)) (\<lambda>mismatch.
       if mismatch then sbind (acquireSource E) (\<lambda>src. sbind nukeTree (\<lambda>_. sret (Some src))) else sret None)"

definition unless_present :: "unit step \<Rightarrow> unit step" where
  "unless_present m = sbind (look treePresent) (\<lambda>present. if present then sret () else m)"

definition populate :: "step_env \<Rightarrow> src_file \<Rightarrow> unit step" where
  "populate E s = sbind (extractTarball E s) (\<lambda>_. if getenv E ''APPLY_PATCHES'' = ''1'' then applyPatches E else sret ())"

definition cold :: "step_env \<Rightarrow> string \<Rightarrow> src_file option \<Rightarrow> unit step" where
  "cold E want src =
     sbind (case src of Some s \<Rightarrow> sret s | None \<Rightarrow> acquireSource E) (\<lambda>s.
     sbind (populate E s) (\<lambda>_. write_file stamp_path want))"

definition prepareTree :: "step_env \<Rightarrow> seedCfg option \<Rightarrow> unit step" where
  "prepareTree E seed =
     sbind (lift_result (stampWant E)) (\<lambda>want.
     sbind (replace_source E want) (\<lambda>src.
     sbind (unless_present nukeTree) (\<lambda>_.
     sbind (case seed of None \<Rightarrow> sret () | Some c \<Rightarrow> unless_present (hydrate E want c)) (\<lambda>_.
       unless_present (cold E want src)))))"

section \<open>configure\<close>

definition runMake :: "step_env \<Rightarrow> string list \<Rightarrow> unit step" where
  "runMake E args = sbind (look (run_make E (getenv E) args)) (\<lambda>(effs, ok).
     sbind (each sys effs) (\<lambda>_. if ok then sret () else serr ''make''))"

definition archArgs :: "step_env \<Rightarrow> string list \<Rightarrow> string list" where
  "archArgs E args = args
     @ (if getenv E ''KARCH'' \<noteq> [] then [''ARCH='' @ getenv E ''KARCH''] else [])
     @ (if getenv E ''CROSS_COMPILE'' \<noteq> [] then [''CROSS_COMPILE='' @ getenv E ''CROSS_COMPILE''] else [])"

definition cfgID :: "step_env \<Rightarrow> string \<Rightarrow> string" where
  "cfgID E cfg = ''base-make='' @ join '' '' (str_fields (getenv E ''BASE_MAKE'')) @ [CHR 0x00] @ cfg"

definition append_config :: "string \<Rightarrow> unit step" where
  "append_config cfg =
     sbind (look (\<lambda>d. map_of d config_path)) (\<lambda>n.
       case n of
         Some (File c m t) \<Rightarrow> sys_write (\<lambda>x. AList.update config_path (File (c @ x) m t)) ([newline] @ cfg)
       | _ \<Rightarrow> serr ''open'')"

definition base_config :: "step_env \<Rightarrow> string \<Rightarrow> unit step" where
  "base_config E cfg =
     (let baseMake = str_fields (getenv E ''BASE_MAKE'') in
      if baseMake \<noteq> [] then
        sbind (runMake E (archArgs E baseMake)) (\<lambda>_. if trim_space cfg \<noteq> [] then append_config cfg else sret ())
      else write_file config_path cfg)"

definition configure :: "step_env \<Rightarrow> unit step" where
  "configure E =
     sbind (from_option ''config'' (config_mount E)) (\<lambda>cfg.
     sbind (look (\<lambda>d. read_file d marker_path = Some (cfgID E cfg))) (\<lambda>same.
       if same then sret ()
       else
         sbind (remove_file marker_path) (\<lambda>_.
         sbind (base_config E cfg) (\<lambda>_.
         sbind (runMake E (archArgs E [''olddefconfig''])) (\<lambda>_.
           write_file marker_path (cfgID E cfg))))))"

end
