(* ===== verification/TreeLogic.thy ===== *)
theory TreeLogic
  imports Tree
begin

text \<open>
  Triples for the operations on the tree: \<open>nukeTree\<close> removes the top-level names in byte order and spares the sources;
  \<open>acquireSource\<close> changes source files only and returns verified ones; extraction and patching leave the records of the
  step (\<open>reserved\<close> names) alone.
\<close>

section \<open>Clearing\<close>

definition cleared :: "disk \<Rightarrow> bool" where
  "cleared d \<longleftrightarrow> (\<forall>p. map_of d p \<noteq> None \<longrightarrow> p = [] \<or> is_src_name (hd p))"

text \<open>A disk that \<open>nukeTree\<close> is at work on: what is gone is not a source, and every smaller name is gone too.\<close>

definition nuking :: "disk \<Rightarrow> disk \<Rightarrow> bool" where
  "nuking d0 d \<longleftrightarrow> (\<forall>p. map_of d p \<noteq> map_of d0 p \<longrightarrow>
     p \<noteq> [] \<and> \<not> is_src_name (hd p) \<and> map_of d p = None \<and>
     (\<forall>q. q \<noteq> [] \<and> \<not> is_src_name (hd q) \<and> hd q < hd p \<longrightarrow> map_of d q = None))"

lemma nuking_Some: "nuking d0 d \<Longrightarrow> map_of d p = Some n \<Longrightarrow> map_of d0 p = Some n"
  unfolding nuking_def by (metis option.distinct(1))

lemma nuking_None: "nuking d0 d \<Longrightarrow> map_of d0 p = None \<Longrightarrow> map_of d p = None"
  unfolding nuking_def by metis

lemma nuking_src: "nuking d0 d \<Longrightarrow> p \<noteq> [] \<Longrightarrow> is_src_name (hd p) \<Longrightarrow> map_of d p = map_of d0 p"
  unfolding nuking_def by metis

lemma nuking_refl: "nuking d d"
  by (simp add: nuking_def)

lemma take_1: "take 1 p = [n] \<longleftrightarrow> p \<noteq> [] \<and> hd p = n"
  by (cases p) auto

lemma set_below: "p \<in> set (below n d) \<longleftrightarrow> map_of d p \<noteq> None \<and> p \<noteq> [] \<and> hd p = n"
  by (auto simp: below_def take_1 [unfolded One_nat_def] map_of_eq_None_iff)

definition stripped :: "string \<Rightarrow> disk \<Rightarrow> path list \<Rightarrow> disk \<Rightarrow> bool" where
  "stripped n d1 ps d \<longleftrightarrow> (\<forall>p. map_of d p = map_of d1 p \<or> p \<noteq> [] \<and> hd p = n \<and> map_of d p = None) \<and>
     (\<forall>p. p \<noteq> [] \<longrightarrow> hd p = n \<longrightarrow> map_of d p \<noteq> None \<longrightarrow> p \<in> set ps) \<and> list_all (\<lambda>p. p \<noteq> [] \<and> hd p = n) ps"

lemma remove_all_stripped:
  "triple (\<lambda>d. d = d1) (remove_all n) (\<lambda>_. stripped n d1 []) (\<lambda>d. \<exists>ps. stripped n d1 ps d)"
  unfolding remove_all_def
proof (rule triple_look_then)
  fix ps
  have step: "triple (stripped n d1 (x # xs)) (sys (AList.delete x)) (\<lambda>_. stripped n d1 xs) (\<lambda>d. \<exists>ps. stripped n d1 ps d)" for x xs
  proof (rule triple_sys, rule conjI)
    fix d assume s: "stripped n d1 (x # xs) d"
    show "stripped n d1 xs (AList.delete x d)"
      using s by (auto simp: stripped_def delete_conv')
    show "\<exists>ps. stripped n d1 ps d" using s by blast
  qed
  have "triple (stripped n d1 ps) (each (\<lambda>p. sys (AList.delete p)) ps) (\<lambda>_. stripped n d1 []) (\<lambda>d. \<exists>ps. stripped n d1 ps d)"
    by (rule triple_each) (rule step)
  then show "triple (\<lambda>d. d = d1 \<and> ps = below n d) (each (\<lambda>p. sys (AList.delete p)) ps) (\<lambda>_. stripped n d1 []) (\<lambda>d. \<exists>ps. stripped n d1 ps d)"
    by (rule triple_pre) (auto simp: stripped_def set_below list_all_iff)
qed

definition sweeping :: "disk \<Rightarrow> string list \<Rightarrow> disk \<Rightarrow> bool" where
  "sweeping d0 xs d \<longleftrightarrow> nuking d0 d \<and> sorted xs \<and> distinct xs \<and>
     (\<forall>p. map_of d p \<noteq> None \<longrightarrow> p = [] \<or> is_src_name (hd p) \<or> hd p \<in> set xs) \<and>
     (\<forall>p. p \<noteq> [] \<longrightarrow> hd p \<in> set xs \<longrightarrow> map_of d p = map_of d0 p)"

lemma sweeping_step:
  assumes s: "sweeping d0 (x # xs) d1" and t: "stripped x d1 ps d" and x: "\<not> is_src_name x"
  shows "nuking d0 d" and "ps = [] \<Longrightarrow> sweeping d0 xs d"
proof -
  have old: "map_of d p = map_of d1 p \<or> p \<noteq> [] \<and> hd p = x \<and> map_of d p = None" for p
    using t unfolding stripped_def by blast
  have gone: "map_of d q = None" if "q \<noteq> []" "\<not> is_src_name (hd q)" "hd q < x" for q
  proof -
    have "hd q \<notin> set (x # xs)" using s that(3) unfolding sweeping_def by fastforce
    then have "map_of d1 q = None" using s that(1,2) unfolding sweeping_def by blast
    then show ?thesis using old [of q] by auto
  qed
  show n: "nuking d0 d"
    unfolding nuking_def
  proof (intro allI impI)
    fix p assume p: "map_of d p \<noteq> map_of d0 p"
    show "p \<noteq> [] \<and> \<not> is_src_name (hd p) \<and> map_of d p = None \<and>
       (\<forall>q. q \<noteq> [] \<and> \<not> is_src_name (hd q) \<and> hd q < hd p \<longrightarrow> map_of d q = None)"
    proof (cases "map_of d p = map_of d1 p")
      case True
      with p have "map_of d1 p \<noteq> map_of d0 p" by simp
      then have "p \<noteq> [] \<and> \<not> is_src_name (hd p) \<and> map_of d1 p = None \<and>
         (\<forall>q. q \<noteq> [] \<and> \<not> is_src_name (hd q) \<and> hd q < hd p \<longrightarrow> map_of d1 q = None)"
        using s unfolding sweeping_def nuking_def by blast
      with True show ?thesis using old by metis
    next
      case False
      then have "p \<noteq> []" "hd p = x" "map_of d p = None" using old [of p] by auto
      with x gone show ?thesis by blast
    qed
  qed
  assume ps: "ps = []"
  have none: "map_of d p = None" if "p \<noteq> []" "hd p = x" for p
    using t ps that unfolding stripped_def by auto
  show "sweeping d0 xs d"
    unfolding sweeping_def
  proof (intro conjI allI impI)
    show "nuking d0 d" by (rule n)
    show "sorted xs" "distinct xs" using s unfolding sweeping_def by auto
    fix p
    show "p = [] \<or> is_src_name (hd p) \<or> hd p \<in> set xs" if "map_of d p \<noteq> None"
    proof -
      have "map_of d1 p \<noteq> None" "\<not> (p \<noteq> [] \<and> hd p = x)" using old [of p] none [of p] that by auto
      moreover from this(1) have "p = [] \<or> is_src_name (hd p) \<or> hd p \<in> set (x # xs)" using s unfolding sweeping_def by blast
      ultimately show ?thesis by auto
    qed
    show "map_of d p = map_of d0 p" if "p \<noteq> []" "hd p \<in> set xs"
    proof -
      have "map_of d1 p = map_of d0 p" "hd p \<noteq> x" using s that unfolding sweeping_def by auto
      then show ?thesis using old [of p] by auto
    qed
  qed
qed

lemma nukeTree_spec:
  "triple (\<lambda>d. d = d0) nukeTree (\<lambda>_ d. nuking d0 d \<and> cleared d) (nuking d0)"
  unfolding nukeTree_def
proof (rule triple_look_then)
  fix xs
  have step: "triple (sweeping d0 (x # ys)) (if is_src_name x then sret () else remove_all x) (\<lambda>_. sweeping d0 ys) (nuking d0)" for x ys
  proof (rule triple_fix)
    fix d1 assume s: "sweeping d0 (x # ys) d1"
    show "triple (\<lambda>d. d = d1) (if is_src_name x then sret () else remove_all x) (\<lambda>_. sweeping d0 ys) (nuking d0)"
    proof (rule triple_if)
      assume "is_src_name x"
      then have "sweeping d0 ys d1" using s unfolding sweeping_def by auto
      then show "triple (\<lambda>d. d = d1) (sret ()) (\<lambda>_. sweeping d0 ys) (nuking d0)" by (auto intro: triple_ret)
    next
      assume "\<not> is_src_name x"
      then show "triple (\<lambda>d. d = d1) (remove_all x) (\<lambda>_. sweeping d0 ys) (nuking d0)"
        using remove_all_stripped [of d1 x] sweeping_step [OF s]
        by (auto elim!: triple_conseq)
    qed
  qed
  have "triple (sweeping d0 xs) (each (\<lambda>n. if is_src_name n then sret () else remove_all n) xs) (\<lambda>_. sweeping d0 []) (nuking d0)"
    by (rule triple_each) (rule step)
  then show "triple (\<lambda>d. d = d0 \<and> xs = top_names d) (each (\<lambda>n. if is_src_name n then sret () else remove_all n) xs)
      (\<lambda>_ d. nuking d0 d \<and> cleared d) (nuking d0)"
  proof (rule triple_conseq)
    fix d assume "d = d0 \<and> xs = top_names d"
    then have d: "d = d0" "xs = top_names d0" by auto
    have "hd p \<in> set xs" if "map_of d0 p \<noteq> None" "p \<noteq> []" for p
    proof -
      have "p \<in> set (filter (\<lambda>p. p \<noteq> []) (map fst d0))" using that by (auto simp: map_of_eq_None_iff)
      then have "hd p \<in> hd ` set (filter (\<lambda>p. p \<noteq> []) (map fst d0))" by (rule imageI)
      then show ?thesis by (simp add: d(2) top_names_def)
    qed
    then show "sweeping d0 xs d" unfolding sweeping_def d(1) by (auto simp: d(2) top_names_def nuking_refl)
  qed (auto simp: sweeping_def cleared_def)
qed

section \<open>The source\<close>

text \<open>The names the step keeps its own records under.\<close>

definition reserved :: "string \<Rightarrow> bool" where
  "reserved n \<longleftrightarrow> n = ''.kbf-stamp'' \<or> is_src_name n"

definition verified :: "step_env \<Rightarrow> src_file \<Rightarrow> disk \<Rightarrow> bool" where
  "verified E s d \<longleftrightarrow> (case s of In_Src n \<Rightarrow> True
     | In_Build n \<Rightarrow> is_src_name n \<and>
         (getenv E ''SRC_SHA256'' = [] \<or> map_option fileSHA256 (read_file d [n]) = Some (getenv E ''SRC_SHA256'')))"

text \<open>A disk that differs from another one in source files only.\<close>

definition resourced :: "disk \<Rightarrow> disk \<Rightarrow> bool" where
  "resourced d0 d \<longleftrightarrow> plain reserved d \<and> (\<forall>p. map_of d p \<noteq> map_of d0 p \<longrightarrow> (\<exists>n. p = [n] \<and> is_src_name n))"

lemma resolve_top: "proper n \<Longrightarrow> (\<forall>t. map_of d [n] \<noteq> Some (Symlink t)) \<Longrightarrow> resolve k d [] [n] = Some [n]"
  by (auto simp: proper_def split: option.splits node.splits)

lemma src_proper [simp]: "is_src_name n \<Longrightarrow> proper n"
  by (auto simp: is_src_name_def proper_def)

lemma reserved_proper: "reserved n \<Longrightarrow> proper n"
  by (auto simp: reserved_def) (simp add: proper_def)

lemma src_reserved [simp]: "is_src_name n \<Longrightarrow> reserved n"
  by (simp add: reserved_def)

lemma stamp_not_src [simp]: "\<not> is_src_name ''.kbf-stamp''" "\<not> is_src_name ''Makefile''" "\<not> is_src_name ''.kbf-stamp.seed''"
  by (simp_all add: is_src_name_def)

lemma read_reserved:
  assumes "plain reserved d" "reserved n"
  shows "read_file d [n] = (case map_of d [n] of Some (File c _ _) \<Rightarrow> Some c | _ \<Rightarrow> None)"
proof -
  have "\<forall>t. map_of d [n] \<noteq> Some (Symlink t)" using assms unfolding plain_def by blast
  then show ?thesis using resolve_top reserved_proper [OF assms(2)] by (simp add: read_file_def)
qed

lemma resourced_refl: "plain reserved d \<Longrightarrow> resourced d d"
  by (simp add: resourced_def)

lemma resourced_put: "resourced d0 d \<Longrightarrow> is_src_name n \<Longrightarrow> resourced d0 (AList.update [n] (File c m t) d)"
  by (auto simp: resourced_def update_conv' intro!: plain_put)

lemma resourced_del: "resourced d0 d \<Longrightarrow> is_src_name n \<Longrightarrow> resourced d0 (AList.delete [n] d)"
  by (auto simp: resourced_def delete_conv' intro!: plain_del)

lemma write_src:
  "is_src_name n \<Longrightarrow> triple (resourced d0) (write_file [n] c) (\<lambda>_. resourced d0) (resourced d0)"
  by (intro triple_write_file triple_put_content [where R = "resourced d0"]) (auto intro: resourced_put)

lemma remove_src:
  "is_src_name n \<Longrightarrow> triple (resourced d0) (ignore (remove_file [n])) (\<lambda>_. resourced d0) (resourced d0)"
  by (auto intro!: triple_ignore triple_remove_file resourced_del)

lemma store_part_src:
  "is_src_name n \<Longrightarrow> triple (resourced d0) (store_part n f) (\<lambda>_. resourced d0) (resourced d0)"
  unfolding store_part_def by (auto intro!: triple_bind [OF remove_src] triple_ret write_src split: option.splits)

lemma src_part: "is_src_name n \<Longrightarrow> is_src_name (n @ x)"
  by (auto simp: is_src_name_def)

lemma rename_src:
  assumes "is_src_name p" "is_src_name q"
  shows "triple (\<lambda>d. resourced d0 d \<and> (want_sum = [] \<or> map_option fileSHA256 (read_file d [p]) = Some want_sum)) (rename_file [p] [q])
     (\<lambda>_ d. resourced d0 d \<and> (want_sum = [] \<or> map_option fileSHA256 (read_file d [q]) = Some want_sum)) (resourced d0)"
  unfolding rename_file_def
proof (intro triple_look_then triple_option_then triple_sys, goal_cases)
  case (2 x n d)
  then have a: "resourced d0 d" "want_sum = [] \<or> map_option fileSHA256 (read_file d [p]) = Some want_sum" and Some: "map_of d [p] = Some n"
    by (auto split: if_splits)
  then have pl: "plain reserved d" by (simp add: resourced_def)
  let ?d = "AList.update [q] n (AList.delete [p] d)"
  have "n \<noteq> Symlink t" for t using pl Some assms(1) unfolding plain_def by auto
  moreover have "free_node reserved n" using pl Some unfolding plain_def by blast
  ultimately have r: "resourced d0 ?d"
    using a Some assms resourced_del [of d0 d p]
    by (auto simp: resourced_def update_conv' delete_conv' intro!: plain_put plain_del)
  moreover have "want_sum = [] \<or> map_option fileSHA256 (read_file ?d [q]) = Some want_sum"
  proof (cases "want_sum = []")
    case False
    with a obtain c m t where "map_of d [p] = Some (File c m t)" "fileSHA256 c = want_sum"
      by (auto simp: read_reserved pl assms split: option.splits node.splits)
    then show ?thesis
      using r Some assms(2) by (auto simp: read_reserved resourced_def update_conv')
  qed simp
  ultimately show ?case using r a(1) by blast
qed blast

lemma fetch_source_src:
  assumes "is_src_name q"
  shows "triple (resourced d0) (fetch_source E url q want_sum)
     (\<lambda>_ d. resourced d0 d \<and> (want_sum = [] \<or> map_option fileSHA256 (read_file d [q]) = Some want_sum)) (resourced d0)"
proof -
  obtain err f where df: "download (server E url) = (err, f)" by fastforce
  let ?p = "q @ ''.part''"
  have p: "is_src_name ?p" by (rule src_part [OF assms])
  let ?V = "\<lambda>_ d. resourced d0 d \<and> (want_sum = [] \<or> map_option fileSHA256 (read_file d [?p]) = Some want_sum)"
  have check: "triple (resourced d0) (if want_sum = [] then sret ()
             else sbind (look (\<lambda>d. read_file d [?p])) (\<lambda>c.
                  sbind (from_option ''read'' c) (\<lambda>c.
                    if fileSHA256 c = want_sum then sret ()
                    else sbind (ignore (remove_file [?p])) (\<lambda>_. serr ''source sha256 mismatch'')))) ?V (resourced d0)"
  proof (rule triple_if)
    show "want_sum = [] \<Longrightarrow> triple (resourced d0) (sret ()) ?V (resourced d0)" by (auto intro: triple_ret)
    show "triple (resourced d0) (sbind (look (\<lambda>d. read_file d [?p])) (\<lambda>c.
                  sbind (from_option ''read'' c) (\<lambda>c.
                    if fileSHA256 c = want_sum then sret ()
                    else sbind (ignore (remove_file [?p])) (\<lambda>_. serr ''source sha256 mismatch'')))) ?V (resourced d0)"
      by (rule triple_look_then,
          rule triple_bind [where R = "\<lambda>c d. resourced d0 d \<and> read_file d [?p] = Some c"],
          rule triple_from_option)
        (auto intro!: triple_if triple_ret triple_bind [OF triple_pre [OF remove_src [OF p]]] triple_err)
  qed
  have err: "triple (resourced d0) (case err of None \<Rightarrow> sret () | Some e \<Rightarrow> serr ''download'') (\<lambda>_. resourced d0) (resourced d0)"
    by (auto intro: triple_rules split: option.splits)
  show ?thesis
    unfolding fetch_source_def df Let_def prod.case
    by (rule triple_bind [OF store_part_src [OF p]], rule triple_bind [OF err], rule triple_bind [OF check])
      (rule rename_src [OF p assms])
qed

lemma src_ext_name [simp]: "is_src_name (cached_name ext)"
  by (simp add: is_src_name_def cached_name_def)

lemma acquireSource_spec:
  assumes "plain reserved d0"
  shows "triple (\<lambda>d. d = d0) (acquireSource E) (\<lambda>s d. resourced d0 d \<and> verified E s d) (resourced d0)"
proof (cases "getenv E ''SRC_LOCAL'' = []")
  case False
  then show ?thesis
    unfolding acquireSource_def Let_def
    by (auto intro!: triple_rules simp: verified_def resourced_refl [OF assms])
next
  case True
  let ?sum = "getenv E ''SRC_SHA256''" and ?c = cached_name
  let ?Q = "\<lambda>s d. resourced d0 d \<and> verified E s d"
  have fetch: "triple (resourced d0) (sbind (fetch_source E (getenv E ''SRC_URL'') (?c ext) ?sum) (\<lambda>_. sret (In_Build (?c ext)))) ?Q (resourced d0)" for ext
    by (rule triple_bind [OF fetch_source_src [OF src_ext_name]], rule triple_ret)
      (auto simp: verified_def src_ext_name)
  have body: "triple (\<lambda>d. resourced d0 d \<and> c = read_file d [?c ext])
     (if ?sum \<noteq> [] \<and> map_option fileSHA256 c = Some ?sum then sret (In_Build (?c ext))
      else sbind (fetch_source E (getenv E ''SRC_URL'') (?c ext) ?sum) (\<lambda>_. sret (In_Build (?c ext)))) ?Q (resourced d0)" for c ext
  proof (rule triple_if)
    show "triple (\<lambda>d. resourced d0 d \<and> c = read_file d [?c ext]) (sret (In_Build (?c ext))) ?Q (resourced d0)"
      if "?sum \<noteq> [] \<and> map_option fileSHA256 c = Some ?sum"
      by (rule triple_ret) (use that in \<open>auto simp: verified_def\<close>)
  qed (rule triple_pre [OF fetch], blast)
  have "triple (resourced d0) (acquireSource E) ?Q (resourced d0)"
    unfolding acquireSource_def Let_def
    by (rule triple_if, use True in simp)
      (rule triple_bind [OF triple_from_option [where Q = "\<lambda>_. resourced d0"]], assumption, assumption,
        rule triple_look_then, rule body)
  then show ?thesis by (rule triple_pre) (simp add: resourced_refl assms)
qed

section \<open>Filling the tree keeps the records\<close>

lemma resolve_free:
  "resolve k d acc cs = Some r \<Longrightarrow> free R acc \<Longrightarrow> free R cs \<Longrightarrow> plain R d \<Longrightarrow> free R r"
proof (induction k d acc cs rule: resolve.induct)
  case (1 k d acc)
  then show ?case by simp
next
  case (2 k d acc c cs)
  have x: "free R cs" "\<not> R c" using "2.prems"(3) by auto
  consider "c = [] \<or> c = ''.''" | "c = ''..''" | "\<not> (c = [] \<or> c = ''.'')" "c \<noteq> ''..''" by blast
  then show ?case
  proof cases
    case 1
    then have "resolve k d acc cs = Some r" using "2.prems"(1) by (simp del: resolve.simps add: resolve.simps(2))
    from "2.IH"(1) [OF 1 this "2.prems"(2) x(1) "2.prems"(4)] show ?thesis .
  next
    case 2
    then have a: "acc \<noteq> []" and w: "resolve k d (butlast acc) cs = Some r"
      using "2.prems"(1) by (simp_all split: if_splits)
    have n: "\<not> (c = [] \<or> c = ''.'')" using 2 by simp
    from "2.IH"(2) [OF n 2 a w free_butlast [OF "2.prems"(2)] x(1) "2.prems"(4)] show ?thesis .
  next
    case 3
    have ac: "free R (acc @ [c])" using "2.prems"(2) x by simp
    show ?thesis
    proof (cases "\<exists>t. map_of d (acc @ [c]) = Some (Symlink t)")
      case False
      then have w: "resolve k d (acc @ [c]) cs = Some r"
        using "2.prems"(1) 3 by (auto split: option.splits node.splits)
      show ?thesis
        using "2.IH"(3,4,5) [OF 3] False w ac x(1) "2.prems"(4)
        by (cases "map_of d (acc @ [c])" rule: option.exhaust) (metis node.exhaust)+
    next
      case True
      then obtain t where t: "map_of d (acc @ [c]) = Some (Symlink t)" by blast
      with 3 "2.prems"(1) obtain j where j: "k = Suc j" "\<not> has_prefix t ''/''"
          and w: "resolve j d acc (split_on (CHR ''/'') t @ cs) = Some r"
        by (auto split: nat.splits if_splits)
      have "free_node R (Symlink t)" using t "2.prems"(4) unfolding plain_def by blast
      then have "free R (split_on (CHR ''/'') t @ cs)" using x(1) by simp
      from "2.IH"(6) [OF 3 t refl j w "2.prems"(2) this "2.prems"(4)] show ?thesis .
    qed
  qed
qed

lemma root_write_keeps:
  assumes "free R p"
  shows "triple (keeps R f) (root_write p c m) (\<lambda>_. keeps R f) (keeps R f)"
  unfolding root_write_def
proof (rule triple_found [where A = "\<lambda>q. free R q \<and> q \<noteq> []"])
  show "free R q \<and> q \<noteq> []" if "keeps R f d" "(case root_resolve d p of None \<Rightarrow> None
    | Some q \<Rightarrow> if q = [] \<or> is_dir d q \<or> butlast q \<noteq> [] \<and> \<not> is_dir d (butlast q) then None else Some q) = Some q" for d q
    using that assms resolve_free [of root_links d "[]" p q R]
    by (auto simp: root_resolve_def keeps_plain split: option.splits if_splits)
  show "triple (keeps R f) (sbind (look (\<lambda>d. file_mode d q m)) (\<lambda>m'. sbind (sys (AList.update q (File [] m' 0))) (\<lambda>_.
      sbind (sys_write (\<lambda>c. AList.update q (File c m' 0)) c) (\<lambda>_. sys (AList.update q (File c m 0)))))) (\<lambda>_. keeps R f) (keeps R f)"
    if "free R q \<and> q \<noteq> []" for q
    using that by (intro triple_look_then triple_pre [OF triple_bind [OF put_keeps triple_bind [OF put_write_keeps put_keeps]]]) auto
qed

lemma root_unlink_keeps:
  assumes "free R p"
  shows "triple (keeps R f) (root_unlink p) (\<lambda>_. keeps R f) (keeps R f)"
  unfolding root_unlink_def
proof (rule triple_if)
  assume p: "\<not> (p = [] \<or> \<not> proper (last p))"
  show "triple (keeps R f) (sbind (look (\<lambda>d. case root_resolve d (butlast p) of None \<Rightarrow> None
         | Some r \<Rightarrow> if map_of d (r @ [last p]) = None then None else Some (r @ [last p]))) (\<lambda>r.
       sbind (from_option ''remove'' r) root_remove)) (\<lambda>_. keeps R f) (keeps R f)"
  proof (rule triple_found [where A = "\<lambda>q. free R q \<and> q \<noteq> []"])
    show "free R q \<and> q \<noteq> []" if "keeps R f d" "(case root_resolve d (butlast p) of None \<Rightarrow> None
         | Some r \<Rightarrow> if map_of d (r @ [last p]) = None then None else Some (r @ [last p])) = Some q" for d q
      using that p free_last [OF assms] resolve_free [of root_links d "[]" "butlast p" _ R, OF _ _ free_butlast [OF assms]]
      by (auto simp: root_resolve_def keeps_plain split: option.splits if_splits)
  qed (auto intro: root_remove_keeps)
qed (simp add: triple_err)

definition names_free :: "(string \<Rightarrow> bool) \<Rightarrow> gfile \<Rightarrow> bool" where
  "names_free R g \<longleftrightarrow> free R (old_name g) \<and> free R (new_name g)"

lemma apply_file_keeps:
  assumes "names_free R g"
  shows "triple (keeps R f) (apply_file g) (\<lambda>_. keeps R f) (keeps R f)"
proof -
  let ?K = "keeps R f"
  have n: "free R (old_name g)" "free R (new_name g)" using assms by (simp_all add: names_free_def)
  have lift: "triple ?K (lift_result r) (\<lambda>_. ?K) ?K" for r :: "(string, string) result" by (auto intro: triple_rules)
  have opt: "triple ?K (from_option e x) (\<lambda>_. ?K) ?K" for e and x :: "(string \<times> nat) option" by (auto intro: triple_rules)
  have dir: "triple ?K (mkdir_all (butlast (new_name g))) (\<lambda>_. ?K) ?K"
    by (rule triple_conseq [OF mkdir_all_keeps [OF free_butlast [OF n(2)]]]) auto
  have new: "triple ?K (sbind (lift_result (g_apply g [])) (\<lambda>out. sbind (mkdir_all (butlast (new_name g))) (\<lambda>_.
      root_write (new_name g) out (if g_mode g \<noteq> 0 then g_mode g else 420)))) (\<lambda>_. ?K) ?K"
    by (rule triple_bind [OF lift], rule triple_bind [OF dir], rule root_write_keeps [OF n(2)])
  have out: "triple ?K (if g_hunks g then lift_result (g_apply g src) else sret src) (\<lambda>_. ?K) ?K" for src
    by (auto intro: lift triple_ret)
  have ren: "triple ?K (if g_is_rename g \<and> old_name g \<noteq> new_name g then root_unlink (old_name g) else sret ()) (\<lambda>_. ?K) ?K"
    using root_unlink_keeps [OF n(1)] by (auto intro: triple_ret)
  have change: "triple ?K (sbind (look (root_read (old_name g))) (\<lambda>r. sbind (from_option ''read'' r) (\<lambda>(src, m).
        sbind (if g_hunks g then lift_result (g_apply g src) else sret src) (\<lambda>out.
        sbind (root_write (new_name g) out (if g_mode g \<noteq> 0 then g_mode g else m)) (\<lambda>_.
          if g_is_rename g \<and> old_name g \<noteq> new_name g then root_unlink (old_name g) else sret ()))))) (\<lambda>_. ?K) ?K"
    by (rule triple_look_then, rule triple_bind [OF triple_pre [OF opt]], blast, unfold case_prod_beta,
        rule triple_bind [OF out], rule triple_bind [OF root_write_keeps [OF n(2)] ren])
  show ?thesis unfolding apply_file_def by (intro triple_if new root_unlink_keeps n(1) change)
qed

definition clean_inputs :: "step_env \<Rightarrow> bool" where
  "clean_inputs E \<longleftrightarrow>
     (\<forall>ext c st. decode E ext c = Inr st \<longrightarrow> list_all (avoids reserved 1 None) (fst st)) \<and>
     (\<forall>t gs. git_parse E t = Inr gs \<longrightarrow> list_all (names_free reserved) gs)"

lemma applyPatches_keeps:
  assumes "clean_inputs E"
  shows "triple (keeps reserved f) (applyPatches E) (\<lambda>_. keeps reserved f) (keeps reserved f)"
proof -
  let ?K = "keeps reserved f"
  have one: "triple ?K (sbind (lift_result (git_parse E t)) (each apply_file)) (\<lambda>_. ?K) ?K" for t
  proof (rule triple_lift_then)
    fix gs assume "git_parse E t = Inr gs"
    then have "list_all (names_free reserved) gs" using assms unfolding clean_inputs_def by blast
    then show "triple ?K (each apply_file gs) (\<lambda>_. ?K) ?K"
      by (intro triple_each_inv apply_file_keeps) (auto simp: list_all_iff)
  qed
  have "triple ?K (lift_result (patchFiles E)) (\<lambda>_. ?K) ?K" by (auto intro: triple_rules)
  then show ?thesis unfolding applyPatches_def by (rule triple_bind) (auto intro!: triple_each_inv one)
qed

lemma archive_avoids:
  "clean_inputs E \<Longrightarrow> archive_stream E s c = Inr st \<Longrightarrow> list_all (avoids reserved 1 None) (fst st)"
  unfolding archive_stream_def clean_inputs_def Let_def by (metis Inl_Inr_False)

lemma extractTarball_keeps:
  assumes "clean_inputs E"
  shows "triple (keeps reserved f) (extractTarball E s) (\<lambda>_. keeps reserved f) (keeps reserved f)"
proof -
  let ?K = "keeps reserved f"
  have "triple ?K (sbind (lift_result (archive_stream E s c)) (\<lambda>st. untar st 1)) (\<lambda>_. ?K) ?K" for c
    by (rule triple_lift_then) (auto simp: untar_def intro!: untarFiltered_keeps archive_avoids [OF assms, unfolded One_nat_def])
  then show ?thesis
    unfolding extractTarball_def
    by (intro triple_look_then triple_option_then) (blast intro: triple_pre)+
qed

lemma populate_keeps:
  assumes "clean_inputs E"
  shows "triple (keeps reserved f) (populate E s) (\<lambda>_. keeps reserved f) (keeps reserved f)"
  unfolding populate_def
  by (rule triple_bind [OF extractTarball_keeps [OF assms]]) (auto intro: applyPatches_keeps [OF assms] triple_ret)

lemma robust_populate [robust_intros]: "robust (populate E s)"
proof -
  have w: "robust (root_write p c m)" "robust (root_unlink p)" for p c m
    unfolding root_write_def root_unlink_def by (auto intro!: robust_intros)
  have "robust (apply_file g)" for g
    unfolding apply_file_def case_prod_beta by (auto intro!: robust_intros w)
  then have "robust (applyPatches E)" unfolding applyPatches_def by (auto intro!: robust_intros)
  then show ?thesis unfolding populate_def extractTarball_def untar_def by (auto intro!: robust_intros)
qed

end
