(* ===== verification/TreeSafe.thy ===== *)
theory TreeSafe
  imports TreeLogic
begin

text \<open>
  \<open>prepareTree\<close> is safe against interruption: however it stops, a build with the same inputs finds a complete tree or a
  tree it does not take as warm. The proof follows the phases (\<open>replace_source\<close>, clearing, \<open>hydrate\<close>, \<open>cold\<close>) with one
  triple each.
\<close>

section \<open>The stamp comes last\<close>

definition stamped :: "string \<Rightarrow> disk \<Rightarrow> disk \<Rightarrow> bool" where
  "stamped want d2 d \<longleftrightarrow> map_of d = (map_of d2)(stamp_path \<mapsto> File want 420 0)"

text \<open>A tree extracted from a verified source into a cleared mount, patched, then stamped.\<close>

definition cold_tree :: "step_env \<Rightarrow> string \<Rightarrow> disk \<Rightarrow> bool" where
  "cold_tree E want d \<longleftrightarrow>
     (\<exists>s d1 d2. cleared d1 \<and> verified E s d1 \<and> yields (populate E s) d1 d2 \<and> stamped want d2 d)"

text \<open>A tree extracted from a seed with the wanted stamp into a cleared mount, then stamped.\<close>

definition seed_tree :: "step_env \<Rightarrow> seedCfg \<Rightarrow> string \<Rightarrow> disk \<Rightarrow> bool" where
  "seed_tree E c want d \<longleftrightarrow>
     (\<exists>st d1 d2 d3. get_object E c = Object st \<and> cleared d1 \<and> yields (untarSeed st) d1 d2 \<and>
        read_file d2 seed_stamp_path = Some want \<and> (\<forall>p. p \<noteq> seed_stamp_path \<longrightarrow> map_of d3 p = map_of d2 p) \<and>
        stamped want d3 d)"

definition built :: "step_env \<Rightarrow> seedCfg option \<Rightarrow> string \<Rightarrow> disk \<Rightarrow> disk \<Rightarrow> bool" where
  "built E seed want d0 d \<longleftrightarrow>
     d = d0 \<and> treePresent d0 \<and> readStamp d0 = want \<or> cold_tree E want d \<or> (\<exists>c. seed = Some c \<and> seed_tree E c want d)"

text \<open>The next build with the same inputs takes the tree as warm only if it is complete.\<close>

definition safe :: "step_env \<Rightarrow> seedCfg option \<Rightarrow> string \<Rightarrow> disk \<Rightarrow> disk \<Rightarrow> bool" where
  "safe E seed want d0 d \<longleftrightarrow> (if treePresent d \<and> readStamp d = want then built E seed want d0 d else True)"

text \<open>
  What is asked of a seed object: no name or link of it leads to the records, and it carries a Makefile.
\<close>

definition clean_seed :: "step_env \<Rightarrow> seedCfg option \<Rightarrow> bool" where
  "clean_seed E seed \<longleftrightarrow> (\<forall>c st. seed = Some c \<longrightarrow> get_object E c = Object st \<longrightarrow>
     list_all (avoids reserved 0 (Some quarantine)) (fst st) \<and>
     (\<forall>d d'. cleared d \<longrightarrow> yields (untarSeed st) d d' \<longrightarrow> (\<exists>b m t. map_of d' [''Makefile''] = Some (File b m t))))"

lemma readStamp_plain:
  "plain reserved d \<Longrightarrow> readStamp d = (case map_of d stamp_path of Some (File c _ _) \<Rightarrow> c | _ \<Rightarrow> ''none'')"
  by (simp add: readStamp_def stamp_path_def read_reserved reserved_def split: option.splits node.splits)

lemma readStamp_none: "plain reserved d \<Longrightarrow> map_of d stamp_path = None \<Longrightarrow> readStamp d = ''none''"
  by (simp add: readStamp_plain)

lemma stampWant_prefix: "stampWant E = Inr want \<Longrightarrow> \<exists>x. want = ''src='' @ x"
  by (auto simp: stampWant_def rbind_def Let_def split: sum.splits if_splits option.splits)

lemma want_not_none: "stampWant E = Inr want \<Longrightarrow> want \<noteq> ''none'' \<and> want \<noteq> []"
  using stampWant_prefix by fastforce

lemma cleared_absent: "cleared d \<Longrightarrow> \<not> is_src_name n \<Longrightarrow> map_of d [n] = None"
  unfolding cleared_def by fastforce

lemma present_plain: "(\<forall>t. map_of d [''Makefile''] \<noteq> Some (Symlink t)) \<Longrightarrow> treePresent d \<longleftrightarrow> map_of d [''Makefile''] \<noteq> None"
  unfolding treePresent_def stat_exists_def by (simp add: resolve_top proper_def del: resolve.simps)

lemma cleared_not_present: "cleared d \<Longrightarrow> \<not> treePresent d"
  using present_plain [of d] cleared_absent [of d "''Makefile''"] by simp

lemma nuking_plain: "nuking d0 d \<Longrightarrow> plain R d0 \<Longrightarrow> plain R d"
  unfolding plain_def by (metis nuking_Some)

lemma nuking_verified:
  assumes "nuking d0 d" "plain reserved d0" "verified E s d0"
  shows "verified E s d"
proof (cases s)
  case (In_Build n)
  with assms(3) have n: "is_src_name n" by (simp add: verified_def)
  then have "map_of d [n] = map_of d0 [n]" using nuking_src [OF assms(1), of "[n]"] by simp
  then have "read_file d [n] = read_file d0 [n]"
    using n assms(2) nuking_plain [OF assms(1,2)] by (simp add: read_reserved)
  then show ?thesis using assms(3) In_Build by (simp add: verified_def)
qed (simp add: verified_def)

lemma keeps_verified:
  assumes "keeps reserved (map_of d0) d" "plain reserved d0" "verified E s d0"
  shows "verified E s d"
proof (cases s)
  case (In_Build n)
  with assms(3) have n: "is_src_name n" by (simp add: verified_def)
  then have "map_of d [n] = map_of d0 [n]" using assms(1) unfolding keeps_def by auto
  then have "read_file d [n] = read_file d0 [n]"
    using n assms(2) keeps_plain [OF assms(1)] by (simp add: read_reserved)
  then show ?thesis using assms(3) In_Build by (simp add: verified_def)
qed (simp add: verified_def)

text \<open>Writing the stamp onto a tree that has none: interrupted, it is a stamp for nothing else, or it is complete.\<close>

lemma write_stamp:
  assumes "plain reserved d2" "map_of d2 stamp_path = None" "want \<noteq> ''none''" "want \<noteq> []"
  shows "triple (\<lambda>d. d = d2) (write_file stamp_path want) (\<lambda>_. stamped want d2) (\<lambda>d. if readStamp d = want then stamped want d2 d else True)"
proof (rule triple_write_at)
  let ?trunc = "\<lambda>d. map_of d = (map_of d2)(stamp_path \<mapsto> File [] 420 0)"
  have m: "file_mode d2 stamp_path 420 = 420" using assms(2) by (simp add: file_mode_def)
  have r: "readStamp (AList.update stamp_path (File x 420 0) d) = x" for x d
    by (simp add: readStamp_def stamp_path_def read_file_def update_conv')
  have r0: "readStamp d = []" if "?trunc d" for d
    by (simp add: readStamp_def stamp_path_def read_file_def that)
  show "triple (\<lambda>d. d = d2) (put_content stamp_path want (file_mode d2 stamp_path 420)) (\<lambda>_. stamped want d2)
     (\<lambda>d. if readStamp d = want then stamped want d2 d else True)"
    unfolding m using assms
    by (intro triple_put_content [where R = ?trunc]) (auto simp: stamped_def update_conv' r r0 readStamp_none)
qed (use assms in \<open>simp add: readStamp_none\<close>)

lemma readStamp_stamped: "stamped want d2 d \<Longrightarrow> readStamp d = want"
  by (simp add: stamped_def readStamp_def stamp_path_def read_file_def)

definition ready :: "step_env \<Rightarrow> src_file option \<Rightarrow> disk \<Rightarrow> bool" where
  "ready E s d \<longleftrightarrow> cleared d \<and> plain reserved d \<and> (\<forall>x. s = Some x \<longrightarrow> verified E x d)"

definition unstamped :: "disk \<Rightarrow> bool" where
  "unstamped d \<longleftrightarrow> plain reserved d \<and> map_of d stamp_path = None"

lemma ready_unstamped: "ready E s d \<Longrightarrow> unstamped d"
  by (simp add: ready_def unstamped_def stamp_path_def cleared_absent)

lemma nuking_unstamped: "nuking d1 d \<Longrightarrow> unstamped d1 \<Longrightarrow> unstamped d"
  by (auto simp: unstamped_def intro: nuking_plain nuking_None)

lemma keeps_unstamped: "keeps reserved (map_of d1) d \<Longrightarrow> unstamped d1 \<Longrightarrow> unstamped d"
  by (auto simp: unstamped_def keeps_def stamp_path_def reserved_def)

lemma unstamped_safe: "unstamped d \<Longrightarrow> want \<noteq> ''none'' \<Longrightarrow> safe E seed want d0 d"
  by (simp add: safe_def unstamped_def readStamp_none)

lemma nuke_ready:
  assumes "plain reserved d1" "\<And>x. s = Some x \<Longrightarrow> verified E x d1"
  shows "triple (\<lambda>d. d = d1) nukeTree (\<lambda>_. ready E s) (nuking d1)"
  by (rule triple_conseq [OF nukeTree_spec])
    (auto simp: ready_def intro: nuking_plain nuking_verified assms)

lemma nuke_unstamped: "triple unstamped nukeTree (\<lambda>_. unstamped) unstamped"
  by (rule triple_fix, rule triple_conseq [OF nukeTree_spec]) (auto intro: nuking_unstamped)

lemma seedPull_spec:
  assumes "unstamped d1" "clean_seed E (Some c)"
  shows "triple (\<lambda>d. d = d1) (seedPull E c)
     (\<lambda>found d. if found then (\<exists>st. get_object E c = Object st \<and> keeps reserved (map_of d1) d \<and> yields (untarSeed st) d1 d) else d = d1)
     unstamped"
proof (cases "get_object E c")
  case (Object st)
  have av: "list_all (avoids reserved 0 (Some quarantine)) (fst st)"
    using assms(2) Object unfolding clean_seed_def by blast
  let ?K = "keeps reserved (map_of d1)"
  have k: "triple ?K (untarSeed st) (\<lambda>_. ?K) ?K"
    unfolding untarSeed_def by (rule untarFiltered_keeps [OF av])
  have "triple (\<lambda>d. d = d1) (untarSeed st) (\<lambda>_. ?K) ?K"
    by (rule triple_pre [OF k]) (use assms(1) in \<open>simp add: unstamped_def plain_keeps\<close>)
  moreover have "robust (untarSeed st)" unfolding untarSeed_def by (rule robust_untar)
  ultimately have y: "triple (\<lambda>d. d = d1) (untarSeed st) (\<lambda>_ d. ?K d \<and> yields (untarSeed st) d1 d) ?K"
    by (intro triple_yields)
  have h: "triple ?K nukeTree (\<lambda>_. unstamped) unstamped"
    by (rule triple_pre [OF nuke_unstamped]) (rule keeps_unstamped [OF _ assms(1)])
  show ?thesis
    unfolding seedPull_def Object object_reply.case
    by (rule triple_bind [OF triple_on_error [OF y h keeps_unstamped [OF _ assms(1)]]], assumption, rule triple_ret)
      (use Object in auto)
qed (auto simp: seedPull_def assms(1) intro: triple_rules)

text \<open>What a matching seed leaves, the quarantined stamp removed or not.\<close>

definition seeded :: "step_env \<Rightarrow> seedCfg \<Rightarrow> string \<Rightarrow> disk \<Rightarrow> bool" where
  "seeded E c want d3 \<longleftrightarrow> unstamped d3 \<and> (\<exists>b m t. map_of d3 [''Makefile''] = Some (File b m t)) \<and>
     (\<exists>st d1 d2. get_object E c = Object st \<and> cleared d1 \<and> yields (untarSeed st) d1 d2 \<and>
        read_file d2 seed_stamp_path = Some want \<and> (\<forall>p. p \<noteq> seed_stamp_path \<longrightarrow> map_of d3 p = map_of d2 p))"

lemma seeded_stamped:
  assumes "seeded E c want d3" "stamped want d3 d"
  shows "seed_tree E c want d \<and> treePresent d"
proof -
  obtain b m t where "map_of d3 [''Makefile''] = Some (File b m t)" using assms(1) unfolding seeded_def by blast
  then have "map_of d [''Makefile''] = Some (File b m t)" using assms(2) by (simp add: stamped_def stamp_path_def)
  then have "treePresent d" using present_plain [of d] by simp
  moreover have "seed_tree E c want d" using assms unfolding seeded_def seed_tree_def by blast
  ultimately show ?thesis by simp
qed

lemma write_seeded_stamp:
  assumes "want \<noteq> ''none''" "want \<noteq> []"
  shows "triple (seeded E c want) (write_file stamp_path want) (\<lambda>_ d. seed_tree E c want d \<and> treePresent d) (safe E (Some c) want d0)"
proof (rule triple_fix)
  fix d3 assume s: "seeded E c want d3"
  then have u: "plain reserved d3" "map_of d3 stamp_path = None" by (simp_all add: seeded_def unstamped_def)
  show "triple (\<lambda>d. d = d3) (write_file stamp_path want) (\<lambda>_ d. seed_tree E c want d \<and> treePresent d) (safe E (Some c) want d0)"
    by (rule triple_conseq [OF write_stamp [OF u assms]])
      (use seeded_stamped [OF s] in \<open>auto simp: safe_def built_def\<close>)
qed

lemma del_seed_stamp:
  "plain reserved d \<Longrightarrow> map_of d stamp_path = None \<Longrightarrow> map_of (AList.delete seed_stamp_path d) stamp_path = None \<and> plain reserved (AList.delete seed_stamp_path d)"
  by (simp add: delete_conv' plain_del)

lemma hydrate_spec:
  assumes r: "ready E s d1" and cs: "clean_seed E (Some c)" and w: "want \<noteq> ''none''" "want \<noteq> []"
  shows "triple (\<lambda>d. d = d1) (hydrate E want c) (\<lambda>_ d. ready E s d \<or> seed_tree E c want d \<and> treePresent d) (safe E (Some c) want d0)"
proof -
  have u1: "unstamped d1" by (rule ready_unstamped [OF r])
  have us: "safe E (Some c) want d0 d" if "unstamped d" for d using that w(1) by (rule unstamped_safe)
  let ?Q = "\<lambda>_ d. ready E s d \<or> seed_tree E c want d \<and> treePresent d" and ?C = "safe E (Some c) want d0"
  let ?K = "\<lambda>d. keeps reserved (map_of d1) d"
  let ?stamp = "\<lambda>d. case read_file d seed_stamp_path of None \<Rightarrow> [] | Some x \<Rightarrow> x"
  have found: "triple (\<lambda>d. \<exists>st. get_object E c = Object st \<and> ?K d \<and> yields (untarSeed st) d1 d)
     (sbind (look ?stamp) (\<lambda>seedStamp. sbind (ignore (remove_file seed_stamp_path)) (\<lambda>_.
           if seedStamp \<noteq> want then nukeTree else write_file stamp_path want))) ?Q ?C"
  proof (rule triple_look_then, rule triple_fix)
    fix ss d2
    assume "(\<exists>st. get_object E c = Object st \<and> ?K d2 \<and> yields (untarSeed st) d1 d2) \<and> ss = ?stamp d2"
    then obtain st where st: "get_object E c = Object st" "?K d2" "yields (untarSeed st) d1 d2" and ss: "ss = ?stamp d2" by blast
    let ?after = "\<lambda>_::unit. \<lambda>d. ?K d \<and> (\<forall>p. p \<noteq> seed_stamp_path \<longrightarrow> map_of d p = map_of d2 p)"
    have nr: "\<not> reserved ''.kbf-stamp.seed''" by (simp add: reserved_def)
    have kd: "?K (AList.delete seed_stamp_path d2)"
      using st(2) by (rule keeps_del) (simp_all add: seed_stamp_path_def nr)
    have rm: "triple (\<lambda>d. d = d2) (ignore (remove_file seed_stamp_path)) ?after (?after ())"
      by (rule triple_ignore, rule triple_remove_file) (use kd st(2) in \<open>auto simp: delete_conv'\<close>)
    have K: "unstamped d" "plain reserved d" "\<And>x. s = Some x \<Longrightarrow> verified E x d" if "?K d" for d
      using that u1 r keeps_unstamped [of d1 d] keeps_verified [of d1 d] keeps_plain [of reserved "map_of d1" d]
      by (auto simp: unstamped_def ready_def)
    have nuke: "triple (?after ()) nukeTree ?Q ?C"
      by (rule triple_fix, rule triple_conseq [OF nuke_ready [where s = s and E = E]])
        (auto intro: K us nuking_unstamped)
    have mk: "\<exists>b m t. map_of d2 [''Makefile''] = Some (File b m t)"
      using cs st(1,3) r unfolding clean_seed_def ready_def by blast
    have sd: "seeded E c want d" if "?after () d" "ss = want" for d
    proof -
      have "read_file d2 seed_stamp_path = Some want" using that(2) ss w(2) by (auto split: option.splits)
      moreover have "cleared d1" using r by (simp add: ready_def)
      moreover have "\<exists>b m t. map_of d [''Makefile''] = Some (File b m t)"
        using mk that(1) by (auto simp: seed_stamp_path_def)
      ultimately show ?thesis unfolding seeded_def using that(1) K(1) st by blast
    qed
    have stamp: "triple (?after ()) (write_file stamp_path want) ?Q ?C" if "ss = want"
      by (rule triple_conseq [OF write_seeded_stamp [OF w]]) (use sd that in auto)
    show "triple (\<lambda>d. d = d2) (sbind (ignore (remove_file seed_stamp_path)) (\<lambda>_.
           if ss \<noteq> want then nukeTree else write_file stamp_path want)) ?Q ?C"
      by (rule triple_bind [OF triple_conseq [OF rm]], assumption, assumption)
        (use nuke stamp in \<open>auto intro: us K\<close>)
  qed
  show ?thesis
    unfolding hydrate_def
    by (rule triple_bind [OF triple_conseq [OF seedPull_spec [OF u1 cs]]], assumption, assumption, erule us)
      (auto simp del: split_paired_Ex intro: triple_ret r found)
qed

definition warm :: "string \<Rightarrow> disk \<Rightarrow> disk \<Rightarrow> bool" where
  "warm want d0 d \<longleftrightarrow> d = d0 \<and> treePresent d0 \<and> readStamp d0 = want"

lemma stamp_kept:
  assumes "plain reserved d0" "plain reserved d" "map_of d stamp_path = map_of d0 stamp_path \<or> map_of d stamp_path = None"
  shows "readStamp d = readStamp d0 \<or> readStamp d = ''none''"
  using assms by (auto simp: readStamp_plain)

lemma nuking_stamp: "nuking d0 d \<Longrightarrow> map_of d stamp_path = map_of d0 stamp_path \<or> map_of d stamp_path = None"
  using nuking_Some [of d0 d stamp_path] by (cases "map_of d stamp_path") auto

lemma resourced_stamp: "resourced d0 d \<Longrightarrow> map_of d stamp_path = map_of d0 stamp_path"
proof (rule ccontr)
  assume "resourced d0 d" "map_of d stamp_path \<noteq> map_of d0 stamp_path"
  then obtain n where "stamp_path = [n]" "is_src_name n" unfolding resourced_def by blast
  then show False using stamp_not_src(1) by (auto simp: stamp_path_def simp del: stamp_not_src)
qed

lemma replace_source_spec:
  assumes pl: "plain reserved d0" and w: "want \<noteq> ''none''"
  shows "triple (\<lambda>d. d = d0) (replace_source E want)
     (\<lambda>r d. r = None \<and> d = d0 \<and> (treePresent d0 \<longrightarrow> readStamp d0 = want) \<or> ready E r d) (safe E seed want d0)"
  unfolding replace_source_def
proof (rule triple_look_then, rule triple_if)
  fix b :: bool
  let ?C = "safe E seed want d0" and ?Q = "\<lambda>r d. r = None \<and> d = d0 \<and> (treePresent d0 \<longrightarrow> readStamp d0 = want) \<or> ready E r d"
  let ?P = "\<lambda>d. d = d0 \<and> b = (treePresent d \<and> readStamp d \<noteq> want)"
  show "triple ?P (sret None) ?Q ?C" if "\<not> b" by (rule triple_ret) (use that in auto)
  assume b
  show "triple ?P (sbind (acquireSource E) (\<lambda>src. sbind nukeTree (\<lambda>_. sret (Some src)))) ?Q ?C"
  proof (rule triple_under [where A = "readStamp d0 \<noteq> want"])
    show "readStamp d0 \<noteq> want" if "?P d" for d using that \<open>b\<close> by auto
    assume ne: "readStamp d0 \<noteq> want"
    have res: "safe E seed want d0 d" if "resourced d0 d" for d
      using that ne w stamp_kept [OF pl, of d] resourced_stamp [OF that] by (auto simp: safe_def resourced_def)
    have nuk: "safe E seed want d0 d" if "resourced d0 d1" "nuking d1 d" for d1 d
    proof -
      have p: "plain reserved d1" "plain reserved d" using that nuking_plain by (auto simp: resourced_def)
      have "map_of d stamp_path = map_of d0 stamp_path \<or> map_of d stamp_path = None"
        using nuking_stamp [OF that(2)] resourced_stamp [OF that(1)] by auto
      then show ?thesis using ne w stamp_kept [OF pl p(2)] by (auto simp: safe_def)
    qed
    have "triple (\<lambda>d. resourced d0 d \<and> verified E s d) nukeTree (\<lambda>_. ready E (Some s)) ?C" for s
    proof (rule triple_fix)
      fix d1 assume a: "resourced d0 d1 \<and> verified E s d1"
      show "triple (\<lambda>d. d = d1) nukeTree (\<lambda>_. ready E (Some s)) ?C"
        by (rule triple_conseq [OF nuke_ready [where s = "Some s" and E = E]]) (use a nuk in \<open>auto simp: resourced_def\<close>)
    qed
    then have k: "triple (\<lambda>d. resourced d0 d \<and> verified E s d) (sbind nukeTree (\<lambda>_. sret (Some s))) ?Q ?C" for s
      by (rule triple_bind) (rule triple_ret, simp)
    have acq: "triple ?P (acquireSource E) (\<lambda>s d. resourced d0 d \<and> verified E s d) ?C"
      by (rule triple_conseq [OF acquireSource_spec [OF pl]]) (use res in auto)
    show "triple ?P (sbind (acquireSource E) (\<lambda>src. sbind nukeTree (\<lambda>_. sret (Some src)))) ?Q ?C"
      by (rule triple_bind [OF acq k])
  qed
qed

lemma triple_unless_present:
  "triple (\<lambda>d. P d \<and> \<not> treePresent d) m (\<lambda>_. Q) C \<Longrightarrow> (\<And>d. P d \<Longrightarrow> treePresent d \<Longrightarrow> Q d) \<Longrightarrow> triple P (unless_present m) (\<lambda>_. Q) C"
  unfolding unless_present_def
  by (rule triple_look_then, rule triple_if) (auto intro: triple_ret elim: triple_pre)

lemma clear_spec:
  assumes pl: "plain reserved d0" and w: "want \<noteq> ''none''" and mk: "\<forall>t. map_of d0 [''Makefile''] \<noteq> Some (Symlink t)"
  shows "triple (\<lambda>d. s = None \<and> d = d0 \<and> (treePresent d0 \<longrightarrow> readStamp d0 = want) \<or> ready E s d) (unless_present nukeTree)
     (\<lambda>_ d. warm want d0 d \<or> ready E s d) (safe E seed want d0)"
proof (rule triple_unless_present, rule triple_fix)
  fix d1
  assume a: "(s = None \<and> d1 = d0 \<and> (treePresent d0 \<longrightarrow> readStamp d0 = want) \<or> ready E s d1) \<and> \<not> treePresent d1"
  have v: "plain reserved d1" "\<And>x. s = Some x \<Longrightarrow> verified E x d1" using a pl by (auto simp: ready_def)
  have "safe E seed want d0 d" if n: "nuking d1 d" for d
  proof (cases "d1 = d0")
    case True
    then have "map_of d0 [''Makefile''] = None" using a mk present_plain by blast
    then have m: "map_of d [''Makefile''] = None" using n True nuking_None by blast
    then have "\<not> treePresent d" using present_plain [of d] by simp
    then show ?thesis by (simp add: safe_def)
  next
    case False
    then have "ready E s d1" using a by blast
    then show ?thesis by (intro unstamped_safe [OF _ w] nuking_unstamped [OF n] ready_unstamped)
  qed
  then show "triple (\<lambda>d. d = d1) nukeTree (\<lambda>_ d. warm want d0 d \<or> ready E s d) (safe E seed want d0)"
    by (auto intro: triple_conseq [OF nuke_ready [OF v]])
qed (auto simp: warm_def ready_def cleared_not_present)

lemma cold_spec:
  assumes ci: "clean_inputs E" and w: "want \<noteq> ''none''" "want \<noteq> []"
  shows "triple (ready E s) (cold E want s) (\<lambda>_. cold_tree E want) (safe E seed want d0)"
proof -
  let ?C = "safe E seed want d0"
  have src: "triple (ready E s) (case s of Some x \<Rightarrow> sret x | None \<Rightarrow> acquireSource E) (\<lambda>x. ready E (Some x)) ?C"
  proof (cases s)
    case None
    have "triple (\<lambda>d. d = d1) (acquireSource E) (\<lambda>x. ready E (Some x)) ?C" if r: "ready E s d1" for d1
    proof (rule triple_conseq [OF acquireSource_spec])
      have c: "cleared d" "unstamped d" if "resourced d1 d" for d
      proof -
        have o: "map_of d p = map_of d1 p \<or> (\<exists>n. p = [n] \<and> is_src_name n)" for p using that unfolding resourced_def by blast
        then show "cleared d" using r unfolding ready_def cleared_def by (metis list.sel(1))
        then show "unstamped d" using that by (simp add: unstamped_def stamp_path_def cleared_absent resourced_def)
      qed
      show "plain reserved d1" using r by (simp add: ready_def)
      show "ready E (Some x) d" if "resourced d1 d \<and> verified E x d" for x d
        using that c by (auto simp: ready_def resourced_def)
      show "?C d" if "resourced d1 d" for d using c [OF that] w(1) by (intro unstamped_safe)
    qed auto
    then show ?thesis using None by (auto intro: triple_fix)
  qed (auto intro: triple_ret)
  have fill: "triple (ready E (Some x)) (sbind (populate E x) (\<lambda>_. write_file stamp_path want)) (\<lambda>_. cold_tree E want) ?C" for x
  proof (rule triple_fix)
    fix d1 assume r: "ready E (Some x) d1"
    let ?K = "keeps reserved (map_of d1)"
    have "triple (\<lambda>d. d = d1) (populate E x) (\<lambda>_. ?K) ?K"
      by (rule triple_pre [OF populate_keeps [OF ci]]) (use r in \<open>simp add: ready_def plain_keeps\<close>)
    then have y: "triple (\<lambda>d. d = d1) (populate E x) (\<lambda>_ d. ?K d \<and> yields (populate E x) d1 d) ?K"
      by (rule triple_yields [OF robust_populate])
    have u: "unstamped d" if "?K d" for d using keeps_unstamped [OF that ready_unstamped [OF r]] .
    have st: "triple (\<lambda>d. ?K d \<and> yields (populate E x) d1 d) (write_file stamp_path want) (\<lambda>_. cold_tree E want) ?C"
    proof (rule triple_fix)
      fix d2 assume a: "?K d2 \<and> yields (populate E x) d1 d2"
      have ct: "cold_tree E want d" if "stamped want d2 d" for d
        using a that r unfolding cold_tree_def ready_def by blast
      have "plain reserved d2" "map_of d2 stamp_path = None" using u a by (auto simp: unstamped_def)
      from write_stamp [OF this w] show "triple (\<lambda>d. d = d2) (write_file stamp_path want) (\<lambda>_. cold_tree E want) ?C"
        by (rule triple_conseq) (use ct in \<open>auto simp: safe_def built_def\<close>)
    qed
    show "triple (\<lambda>d. d = d1) (sbind (populate E x) (\<lambda>_. write_file stamp_path want)) (\<lambda>_. cold_tree E want) ?C"
      by (rule triple_bind [OF triple_conseq [OF y] st]) (auto intro: unstamped_safe [OF u w(1)])
  qed
  show ?thesis unfolding cold_def by (rule triple_bind [OF src fill])
qed

lemma tree_stamp: "cold_tree E want d \<Longrightarrow> readStamp d = want" "seed_tree E c want d \<Longrightarrow> readStamp d = want"
  unfolding cold_tree_def seed_tree_def using readStamp_stamped by blast+

lemma prepareTree_triple:
  assumes sw: "stampWant E = Inr want" and ci: "clean_inputs E" and cs: "clean_seed E seed" and pl: "plain reserved d0"
    and mk: "\<forall>t. map_of d0 [''Makefile''] \<noteq> Some (Symlink t)"
  shows "triple (\<lambda>d. d = d0) (prepareTree E seed) (\<lambda>_ d. readStamp d = want \<and> built E seed want d0 d) (safe E seed want d0)"
proof -
  have w: "want \<noteq> ''none''" "want \<noteq> []" using want_not_none [OF sw] by auto
  let ?C = "safe E seed want d0"
  let ?full = "\<lambda>d. (\<exists>c. seed = Some c \<and> seed_tree E c want d) \<and> treePresent d"
  let ?R = "\<lambda>s d. warm want d0 d \<or> ready E s d"
  have np: "\<not> treePresent d" if "ready E s d" for s d using that by (simp add: ready_def cleared_not_present)
  have seeding: "triple (?R s) (case seed of None \<Rightarrow> sret () | Some c \<Rightarrow> unless_present (hydrate E want c))
     (\<lambda>_ d. ?R s d \<or> ?full d) ?C" for s
  proof (cases seed)
    case (Some c)
    have "triple (ready E s) (hydrate E want c) (\<lambda>_ d. ?R s d \<or> ?full d) ?C"
    proof (rule triple_fix)
      fix d1 assume "ready E s d1"
      from hydrate_spec [OF this cs [unfolded Some] w, of d0]
      show "triple (\<lambda>d. d = d1) (hydrate E want c) (\<lambda>_ d. ?R s d \<or> ?full d) ?C"
        unfolding Some by (rule triple_conseq) auto
    qed
    then have "triple (\<lambda>d. ?R s d \<and> \<not> treePresent d) (hydrate E want c) (\<lambda>_ d. ?R s d \<or> ?full d) ?C"
      by (rule triple_pre) (auto simp: warm_def)
    then show ?thesis using Some by (auto intro!: triple_unless_present)
  qed (auto intro: triple_ret)
  have rest: "triple (\<lambda>d. ?R s d \<or> ?full d) (unless_present (cold E want s)) (\<lambda>_ d. readStamp d = want \<and> built E seed want d0 d) ?C" for s
  proof (rule triple_unless_present)
    show "triple (\<lambda>d. (?R s d \<or> ?full d) \<and> \<not> treePresent d) (cold E want s) (\<lambda>_ d. readStamp d = want \<and> built E seed want d0 d) ?C"
      by (rule triple_conseq [OF cold_spec [OF ci w]]) (auto simp: warm_def built_def tree_stamp)
    show "readStamp d = want \<and> built E seed want d0 d" if "?R s d \<or> ?full d" "treePresent d" for d
      using that np by (auto simp: warm_def built_def tree_stamp)
  qed
  have "triple (\<lambda>d. d = d0) (sbind (replace_source E want) (\<lambda>src.
     sbind (unless_present nukeTree) (\<lambda>_.
     sbind (case seed of None \<Rightarrow> sret () | Some c \<Rightarrow> unless_present (hydrate E want c)) (\<lambda>_.
       unless_present (cold E want src))))) (\<lambda>_ d. readStamp d = want \<and> built E seed want d0 d) ?C"
    by (rule triple_bind [OF replace_source_spec [OF pl w(1)]], rule triple_bind [OF clear_spec [OF pl w(1) mk]],
        rule triple_bind [OF seeding rest])
  then show ?thesis unfolding prepareTree_def using sw by (intro triple_lift_then) auto
qed

section \<open>The theorems\<close>

text \<open>
  C2. Crash safety of \<^verbatim>\<open>prepareTree\<close>. Take any tree and any sequence of I/O errors, short writes and kills. If \<open>prepareTree\<close>
  returns, the stamp is the one of this build's inputs and the tree is complete: it was warm, or it was extracted (and
  patched) without a fault from a verified source into a cleared mount, or from a seed with that stamp. If it stops early,
  the next build with these inputs sees a complete tree or does not take the tree as warm.
\<close>

theorem prepareTree_crash_safe:
  assumes "stampWant E = Inr want" "clean_inputs E" "clean_seed E seed" "plain reserved (disk w)"
    and "\<forall>t. map_of (disk w) [''Makefile''] \<noteq> Some (Symlink t)"
  shows "case prepareTree E seed w of
      (Ok _, v) \<Rightarrow> readStamp (disk v) = want \<and> built E seed want (disk w) (disk v)
    | (Err _, v) \<Rightarrow> safe E seed want (disk w) (disk v)
    | (Killed, v) \<Rightarrow> safe E seed want (disk w) (disk v)"
  using triple_run [OF prepareTree_triple [OF assms] refl] .

text \<open>A concrete build: an unpinned tarball with a Makefile, and a seed that matches.\<close>

definition demo_entry :: "string \<Rightarrow> entry_kind \<Rightarrow> entry" where
  "demo_entry name k = \<lparr>e_name = name, e_mode = 420, e_mtime = 7, e_kind = k\<rparr>"

definition demo_seed :: stream where
  "demo_seed = ([demo_entry ''.kbf-stamp'' (Reg ''src=v6 patches=none''), demo_entry ''Makefile'' (Reg ''all:'')], None)"

definition demo_env :: step_env where
  "demo_env = \<lparr>
     getenv = (\<lambda>k. if k = ''SRC_URL'' then ''https://e.org/linux.tar.gz'' else if k = ''SRC_ID'' then ''v6'' else []),
     src_mount = Map.empty, patch_mount = [], config_mount = Some ''CONFIG_A=y'',
     decode = (\<lambda>_ _. Inr ([demo_entry ''linux/Makefile'' (Reg ''all:'')], None)),
     server = (\<lambda>_. flaky),
     secrets_of = [''seed_access_key'' \<mapsto> ''k'', ''seed_secret_key'' \<mapsto> ''s''],
     aws_load = (\<lambda>_ _ _. Inr ''cfg''), s3_get = (\<lambda>_ _ _ _ _. Object demo_seed),
     git_parse = (\<lambda>_. Inr []), run_make = (\<lambda>_ _ _. ([], True))\<rparr>"

definition demo_cfg :: seedCfg where
  "demo_cfg = \<lparr>sc_url = ''https://r2.example.com/seeds'', sc_key = ''k'', sc_region = [], sc_push = False\<rparr>"

lemma writeEntry_top:
  assumes "proper n"
  shows "triple P (writeEntry [n] c m t) (\<lambda>_ d. map_of d [n] = Some (File c m t)) (\<lambda>_. True)"
proof -
  have e: "entry_path [n] = sret [n]"
    using assms by (simp add: entry_path_def mkdir_all_def root_walk_def rooted_path_def sbind_def [abs_def] look_def sret_def [abs_def])
  have r: "triple (\<lambda>_. True) (root_remove [n]) (\<lambda>_ _. True) (\<lambda>_. True)"
    by (simp add: triple_def split: prod.splits outcome.splits)
  have s: "triple (\<lambda>_. True) (sys g) (\<lambda>_ _. True) (\<lambda>_. True)" "triple (\<lambda>_. True) (sys_write h c) (\<lambda>_ _. True) (\<lambda>_. True)" for g h
    by (auto intro: triple_sys triple_sys_write)
  have "triple (\<lambda>_. True) (sbind (root_remove [n]) (\<lambda>_. sbind (sys (AList.update [n] (File [] m 0))) (\<lambda>_.
     sbind (sys_write (\<lambda>c. AList.update [n] (File c m 0)) c) (\<lambda>_. sys (AList.update [n] (File c m t))))))
     (\<lambda>_ d. map_of d [n] = Some (File c m t)) (\<lambda>_. True)"
    by (rule triple_bind [OF r], rule triple_bind [OF s(1)], rule triple_bind [OF s(2)], rule triple_sys) (simp add: update_conv')
  then show ?thesis
    unfolding writeEntry_def e by (simp add: sbind_def [abs_def] sret_def triple_def)
qed

lemma demo_clean: "clean_inputs demo_env"
  by (simp add: clean_inputs_def demo_env_def demo_entry_def avoids_def) code_simp

lemma demo_object: "get_object demo_env demo_cfg = Object demo_seed"
  by (simp add: get_object_def demo_env_def demo_cfg_def) code_simp

lemma demo_seed_makefile:
  "triple P (untarSeed demo_seed) (\<lambda>_ d. map_of d [''Makefile''] = Some (File ''all:'' 420 7)) (\<lambda>_. True)"
proof -
  have n: "entry_name 0 (Some quarantine) ''Makefile'' = Some ''Makefile''" by code_simp
  have split_top: "split_on (CHR ''/'') ''Makefile'' = [''Makefile'']" by code_simp
  have m: "write_entry 0 (Some quarantine) (demo_entry ''Makefile'' (Reg ''all:'')) = writeEntry [''Makefile''] ''all:'' 420 7"
    by (simp add: write_entry_def demo_entry_def n path_of_def split_top)
  have any: "triple P g (\<lambda>_ _. True) (\<lambda>_. True)" for P and g :: "unit step"
    by (simp add: triple_def split: prod.splits outcome.splits)
  have "triple (\<lambda>_. True) (each (write_entry 0 (Some quarantine)) [demo_entry ''Makefile'' (Reg ''all:'')])
      (\<lambda>_ d. map_of d [''Makefile''] = Some (File ''all:'' 420 7)) (\<lambda>_. True)"
    unfolding each.simps m by (rule triple_bind [OF writeEntry_top]) (simp_all add: proper_def triple_ret)
  then show ?thesis
    unfolding untarSeed_def untarFiltered_def demo_seed_def fst_conv snd_conv
    by (intro triple_bind [where R = "\<lambda>_ d. map_of d [''Makefile''] = Some (File ''all:'' 420 7)"])
      (auto intro: triple_bind [OF any] triple_ret)
qed

lemma demo_clean_seed: "clean_seed demo_env (Some demo_cfg)"
proof -
  have "list_all (avoids reserved 0 (Some quarantine)) (fst demo_seed)" by code_simp
  then show ?thesis
    using yields_triple [OF demo_seed_makefile] unfolding clean_seed_def by (auto simp: demo_object)
qed

theorem prepareTree_crash_safe_witness:
  "case prepareTree demo_env (Some demo_cfg) (start [] [Good, Good, Good, Good, Kill]) of
      (Ok _, v) \<Rightarrow> readStamp (disk v) = ''src=v6 patches=none'' \<and> built demo_env (Some demo_cfg) ''src=v6 patches=none'' [] (disk v)
    | (Err _, v) \<Rightarrow> safe demo_env (Some demo_cfg) ''src=v6 patches=none'' [] (disk v)
    | (Killed, v) \<Rightarrow> safe demo_env (Some demo_cfg) ''src=v6 patches=none'' [] (disk v)"
proof -
  have "stampWant demo_env = Inr ''src=v6 patches=none''" by (simp add: stampWant_def demo_env_def)
  from prepareTree_crash_safe [OF this demo_clean demo_clean_seed, of "start [] [Good, Good, Good, Good, Kill]", unfolded disk_start]
  show ?thesis by (simp add: plain_def)
qed

text \<open>
  C33. \<^verbatim>\<open>nukeTree\<close> takes the stamp away before the tree: stopped at any point, either the stamp is gone or everything whose
  name follows the stamp's in byte order (the Makefile, the sources and objects of the kernel) is still what it was. The cached
  source tarballs are never touched, and when it returns nothing else is left.
\<close>

definition stamp_guards :: "disk \<Rightarrow> disk \<Rightarrow> bool" where
  "stamp_guards d0 d \<longleftrightarrow> map_of d stamp_path = None \<or> (\<forall>p. p \<noteq> [] \<and> ''.kbf-stamp'' < hd p \<longrightarrow> map_of d p = map_of d0 p)"

definition sources_kept :: "disk \<Rightarrow> disk \<Rightarrow> bool" where
  "sources_kept d0 d \<longleftrightarrow> (\<forall>p. p \<noteq> [] \<and> is_src_name (hd p) \<longrightarrow> map_of d p = map_of d0 p)"



text \<open>
  C35. The replacement is proved before the warm tree is discarded: when the tree is of other inputs and the source cannot be
  acquired (a mistyped checksum, a failed download), the build fails with everything but the cached source files as it was.
\<close>

theorem bad_source_keeps_tree:
  assumes "stampWant E = Inr want" "plain reserved (disk w)" "treePresent (disk w)" "readStamp (disk w) \<noteq> want"
    and "acquireSource E w = (Err e, v)"
  shows "prepareTree E seed w = (Err e, v) \<and> resourced (disk w) (disk v)"
proof -
  have "resourced (disk w) (disk v)"
    using triple_run [OF acquireSource_spec [OF assms(2)] refl, of E] assms(5) by simp
  moreover have "prepareTree E seed w = (Err e, v)"
    using assms by (simp add: prepareTree_def lift_result_def sbind_def sret_def replace_source_def look_def)
  ultimately show ?thesis by simp
qed

definition pin_env :: "string \<Rightarrow> step_env" where
  "pin_env pin = demo_env\<lparr>getenv := (\<lambda>k. if k = ''SRC_SHA256'' then pin else getenv demo_env k)\<rparr>"

definition old_tree :: disk where
  "old_tree = [([''Makefile''], File ''all:'' 420 1), ([''.kbf-stamp''], File ''src=v5 patches=none'' 420 1)]"

lemma plain_old_tree: "plain reserved (([''.kbf-src.tar.gz''], File c 420 1) # old_tree)" "plain reserved old_tree"
  by (auto simp: plain_def old_tree_def split: if_splits)

lemma pin_env_env: "getenv (pin_env pin) ''SRC_LOCAL'' = []" "getenv (pin_env pin) ''SRC_SHA256'' = pin"
  "getenv (pin_env pin) ''SRC_URL'' = ''https://e.org/linux.tar.gz''" "server (pin_env pin) u = flaky"
  by (simp_all add: pin_env_def demo_env_def)

lemma src_ext_demo: "src_ext ''https://e.org/linux.tar.gz'' = Some ''.gz''"
  by code_simp

lemma fileSHA256_length: "length (fileSHA256 c) = 64"
  by (simp add: fileSHA256_def sha256_hex_def)


theorem bad_source_keeps_tree_witness:
  "\<exists>v. prepareTree (pin_env ''beef'') None (start old_tree []) = (Err ''source sha256 mismatch'', v) \<and> resourced old_tree (disk v)"
proof -
  let ?E = "pin_env ''beef''" and ?w = "start old_tree []" and ?p = "[''.kbf-src.tar.gz.part'']"
  have s: "stampWant ?E = Inr ''src=v6 patches=none''" by (simp add: stampWant_def pin_env_def demo_env_def)
  have ne: "fileSHA256 ''kernel'' \<noteq> ''beef''" using fileSHA256_length [of "''kernel''"] by auto
  have t: "treePresent old_tree" "readStamp old_tree = ''src=v5 patches=none''" by code_simp+
  have none: "read_file old_tree [''.kbf-src.tar.gz''] = None" by code_simp
  obtain v where "acquireSource ?E ?w = (Err ''source sha256 mismatch'', v)"
    unfolding acquireSource_def fetch_source_def Let_def pin_env_env src_ext_demo from_option_def option.case cached_name_def append.simps
      download_flaky prod.case store_part_def
    by (simp add: sbind_def sret_def look_def none old_tree_def ignore_def remove_file_def has_children_def sys_def write_file_def put_content_def
        sys_write_def is_dir_def file_mode_def from_option_def read_file_def update_conv' ne serr_def start_def)
  from bad_source_keeps_tree [OF s _ _ _ this, unfolded disk_start, OF plain_old_tree(2) t(1)] show ?thesis
    by (auto simp: t)
qed

section \<open>What a seed can write\<close>

definition is_stamp :: "string \<Rightarrow> bool" where "is_stamp n \<longleftrightarrow> n = ''.kbf-stamp''"

text \<open>
  The quarantine of the stamp: extracting a seed, however far it gets, leaves the live stamp as it was, for every stream
  whose names and links have no component \<^verbatim>\<open>.kbf-stamp\<close> after the renaming (the stamp of the seed itself is renamed).
\<close>

theorem untarSeed_quarantine:
  assumes "list_all (avoids is_stamp 0 (Some quarantine)) (fst st)" "plain is_stamp (disk w)"
  shows "map_of (disk (snd (untarSeed st w))) stamp_path = map_of (disk w) stamp_path"
proof -
  have "triple (keeps is_stamp (map_of (disk w))) (untarSeed st) (\<lambda>_. keeps is_stamp (map_of (disk w))) (keeps is_stamp (map_of (disk w)))"
    unfolding untarSeed_def by (rule untarFiltered_keeps [OF assms(1)])
  from triple_run [OF this plain_keeps [OF assms(2)]] have "keeps is_stamp (map_of (disk w)) (disk (snd (untarSeed st w)))"
    by (auto split: prod.splits outcome.splits)
  then show ?thesis by (simp add: keeps_def stamp_path_def is_stamp_def)
qed

theorem untarSeed_quarantine_witness:
  "map_of (disk (snd (untarSeed demo_seed (start [] [Good, Good, Good, Kill])))) stamp_path = None"
proof -
  have "list_all (avoids is_stamp 0 (Some quarantine)) (fst demo_seed)" by code_simp
  from untarSeed_quarantine [OF this, of "start [] [Good, Good, Good, Kill]"] show ?thesis by (simp add: plain_def)
qed

text \<open>
  The quarantine compares whole names only: through a link to the directory itself, a seed writes the live stamp.
\<close>

theorem quarantine_bypass:
  "readStamp (disk (snd (untarSeed ([demo_entry ''d'' (Sym ''.''), demo_entry ''d/.kbf-stamp'' (Reg ''src=v6 patches=none'')], None) (start [] []))))
     = ''src=v6 patches=none''"
  by code_simp

definition evil_env :: "string \<Rightarrow> step_env" where
  "evil_env pin = (pin_env pin)\<lparr>
     decode := (\<lambda>_ c. Inr ([demo_entry ''linux/Makefile'' (Reg c)], None)),
     s3_get := (\<lambda>_ _ _ _ _. Object ([demo_entry ''.kbf-src.tar.gz'' (Reg ''evil'')], None))\<rparr>"

definition cached_tree :: disk where
  "cached_tree = ([''.kbf-src.tar.gz''], File ''kernel'' 420 1) # old_tree"

lemma evil_rest:
  "sbind nukeTree (\<lambda>_. sbind (unless_present nukeTree) (\<lambda>_.
     sbind (unless_present (hydrate (evil_env pin) ''src=v6 patches=none'' demo_cfg)) (\<lambda>_.
       unless_present (cold (evil_env pin) ''src=v6 patches=none'' (Some (In_Build ''.kbf-src.tar.gz'')))))) (start cached_tree [])
   = (Ok (), start [([''.kbf-src.tar.gz''], File ''evil'' 420 7), ([''Makefile''], File ''evil'' 420 7), ([''.kbf-stamp''], File ''src=v6 patches=none'' 420 0)] [])"
  by code_simp

text \<open>
  A seed that is discarded can still replace the source: the verified tarball is acquired before the seed is pulled, a seed
  may carry \<^verbatim>\<open>.kbf-src.tar.gz\<close>, and clearing the mismatching seed spares that name. The tree is then extracted from the
  seed's file under the stamp of the pinned source.
\<close>

theorem seed_replaces_source:
  "\<exists>v. prepareTree (evil_env (fileSHA256 ''kernel'')) (Some demo_cfg) (start cached_tree []) = (Ok (), v) \<and>
     read_file (disk v) [''Makefile''] = Some ''evil'' \<and> readStamp (disk v) = ''src=v6 patches=none''"
proof -
  let ?E = "evil_env (fileSHA256 ''kernel'')"
  have sw: "stampWant ?E = Inr ''src=v6 patches=none''" by (simp add: stampWant_def evil_env_def pin_env_def demo_env_def)
  have ne: "fileSHA256 ''kernel'' \<noteq> []" using fileSHA256_length [of "''kernel''"] by auto
  have mismatch: "treePresent cached_tree \<and> readStamp cached_tree \<noteq> ''src=v6 patches=none''" by code_simp
  have r: "read_file cached_tree [''.kbf-src.tar.gz''] = Some ''kernel''" by code_simp
  have e: "getenv ?E ''SRC_LOCAL'' = []" "getenv ?E ''SRC_SHA256'' = fileSHA256 ''kernel''" "getenv ?E ''SRC_URL'' = ''https://e.org/linux.tar.gz''"
    by (simp_all add: evil_env_def pin_env_env)
  have a: "acquireSource ?E (start cached_tree []) = (Ok (In_Build ''.kbf-src.tar.gz''), start cached_tree [])"
    unfolding acquireSource_def Let_def e src_ext_demo from_option_def option.case cached_name_def append.simps
    by (simp add: sbind_def sret_def look_def r ne)
  have "prepareTree ?E (Some demo_cfg) (start cached_tree []) =
     (Ok (), start [([''.kbf-src.tar.gz''], File ''evil'' 420 7), ([''Makefile''], File ''evil'' 420 7), ([''.kbf-stamp''], File ''src=v6 patches=none'' 420 0)] [])"
    using evil_rest [of "fileSHA256 ''kernel''"] mismatch
    by (auto simp: prepareTree_def sw lift_result_def replace_source_def look_def sbind_def sret_def a split: prod.splits outcome.splits)
  then show ?thesis by (simp add: readStamp_def stamp_path_def read_file_def)
qed

end
