(* ===== verification/Configure.thy ===== *)
theory Configure
  imports TreeSafe
begin

text \<open>
  The configuration of the tree: the marker \<^verbatim>\<open>.kbf-config-src\<close> names the configuration \<^verbatim>\<open>.config\<close> was produced from, under
  interruption and for any two builds.
\<close>

section \<open>The configuration marker\<close>

definition resolve_config :: "step_env \<Rightarrow> string \<Rightarrow> unit step" where
  "resolve_config E cfg = sbind (base_config E cfg) (\<lambda>_. runMake E (archArgs E [''olddefconfig'']))"

definition configured :: "step_env \<Rightarrow> string \<Rightarrow> disk \<Rightarrow> disk \<Rightarrow> bool" where
  "configured E cfg d0 d \<longleftrightarrow> d = d0 \<and> read_file d0 marker_path = Some (cfgID E cfg) \<or>
     (\<exists>d1 d2. map_of d1 = (map_of d0)(marker_path := None) \<and> yields (resolve_config E cfg) d1 d2 \<and>
        map_of d = (map_of d2)(marker_path \<mapsto> File (cfgID E cfg) 420 0))"

text \<open>What an interrupted run may leave: nothing changed, no marker, or the first \<open>n\<close> bytes of the marker.\<close>

definition unmarked :: "step_env \<Rightarrow> string \<Rightarrow> disk \<Rightarrow> disk \<Rightarrow> bool" where
  "unmarked E cfg d0 d \<longleftrightarrow> d = d0 \<or> map_of d marker_path = None \<or>
     (\<exists>n. map_of d marker_path = Some (File (take n (cfgID E cfg)) 420 0) \<and>
        (if length (cfgID E cfg) \<le> n then configured E cfg d0 d else True))"

text \<open>Make does not write the step's own records.\<close>

definition make_spares :: "step_env \<Rightarrow> bool" where
  "make_spares E \<longleftrightarrow> (\<forall>env args d0 f d q. f \<in> set (fst (run_make E env args d0)) \<longrightarrow> q \<in> {marker_path, stamp_path} \<longrightarrow>
     map_of (f d) q = map_of d q)"

lemma runMake_spares:
  assumes "make_spares E" "q \<in> {marker_path, stamp_path}"
  shows "triple (\<lambda>d. map_of d q = x) (runMake E args) (\<lambda>_ d. map_of d q = x) (\<lambda>d. map_of d q = x)"
  unfolding runMake_def case_prod_beta
proof (rule triple_look_then)
  fix r :: "(disk \<Rightarrow> disk) list \<times> bool"
  let ?P = "\<lambda>d. map_of d q = x" and ?run = "run_make E (getenv E) args"
  show "triple (\<lambda>d. ?P d \<and> r = ?run d) (sbind (each sys (fst r)) (\<lambda>_. if snd r then sret () else serr ''make'')) (\<lambda>_. ?P) ?P"
  proof (rule triple_under [where A = "\<exists>d. r = ?run d"])
    assume "\<exists>d. r = ?run d"
    then have f: "map_of (f d) q = map_of d q" if "f \<in> set (fst r)" for f d
      using assms that unfolding make_spares_def by blast
    have each: "triple ?P (each sys (fst r)) (\<lambda>_. ?P) ?P"
      by (intro triple_each_inv triple_sys) (auto simp: f)
    show "triple (\<lambda>d. ?P d \<and> r = ?run d) (sbind (each sys (fst r)) (\<lambda>_. if snd r then sret () else serr ''make'')) (\<lambda>_. ?P) ?P"
      by (rule triple_bind [OF triple_pre [OF each]]) (auto intro: triple_ret triple_err)
  qed auto
qed

lemma base_config_spares:
  assumes "make_spares E" "q \<in> {marker_path, stamp_path}"
  shows "triple (\<lambda>d. map_of d q = x) (base_config E cfg) (\<lambda>_ d. map_of d q = x) (\<lambda>d. map_of d q = x)"
proof -
  let ?P = "\<lambda>d. map_of d q = x"
  have ne: "q \<noteq> config_path" using assms(2) by (auto simp: marker_path_def config_path_def stamp_path_def)
  have w: "triple ?P (write_file config_path cfg) (\<lambda>_. ?P) ?P"
    by (intro triple_write_file triple_put_content [where R = ?P]) (auto simp: update_conv' ne)
  have a: "triple ?P (append_config cfg) (\<lambda>_. ?P) ?P"
    unfolding append_config_def
    by (rule triple_look_then) (auto intro!: triple_sys_write triple_err simp: update_conv' ne split: option.splits node.splits)
  show ?thesis
    unfolding base_config_def Let_def
    by (intro triple_if w triple_bind [OF runMake_spares [OF assms]] a) (simp add: triple_ret)
qed

lemma resolve_config_spares:
  assumes "make_spares E" "q \<in> {marker_path, stamp_path}"
  shows "triple (\<lambda>d. map_of d q = x) (resolve_config E cfg) (\<lambda>_ d. map_of d q = x) (\<lambda>d. map_of d q = x)"
  unfolding resolve_config_def by (rule triple_bind [OF base_config_spares runMake_spares]) (rule assms)+

lemma robust_resolve_config: "robust (resolve_config E cfg)"
proof -
  have m: "robust (runMake E args)" for args unfolding runMake_def case_prod_beta by (auto intro!: robust_intros)
  have "robust (append_config cfg)" unfolding append_config_def by (auto intro!: robust_intros split: option.splits node.splits)
  then have "robust (base_config E cfg)"
    unfolding base_config_def Let_def by (auto intro!: robust_intros m)
  then show ?thesis unfolding resolve_config_def by (auto intro!: robust_intros m)
qed

lemma resolve_config_assoc:
  "sbind (base_config E cfg) (\<lambda>_. sbind (runMake E (archArgs E [''olddefconfig''])) (\<lambda>_. m)) = sbind (resolve_config E cfg) (\<lambda>_. m)"
  by (rule ext) (simp add: resolve_config_def sbind_def split: prod.splits outcome.splits)

lemma configure_stamp:
  assumes "make_spares E"
  shows "triple (\<lambda>d. map_of d stamp_path = x) (configure E) (\<lambda>_ d. map_of d stamp_path = x) (\<lambda>d. map_of d stamp_path = x)"
proof -
  let ?P = "\<lambda>d. map_of d stamp_path = x"
  have ne: "stamp_path \<noteq> marker_path" by (simp add: marker_path_def stamp_path_def)
  have r: "triple ?P (remove_file marker_path) (\<lambda>_. ?P) ?P"
    by (rule triple_remove_file) (simp add: delete_conv' ne)
  have w: "triple ?P (write_file marker_path c) (\<lambda>_. ?P) ?P" for c
    by (intro triple_write_file triple_put_content [where R = ?P]) (auto simp: update_conv' ne)
  have c: "triple ?P (resolve_config E cfg) (\<lambda>_. ?P) ?P" for cfg by (rule resolve_config_spares [OF assms]) simp
  have all: "triple ?P (sbind (remove_file marker_path) (\<lambda>_. sbind (resolve_config E cfg) (\<lambda>_. write_file marker_path (cfgID E cfg)))) (\<lambda>_. ?P) ?P" for cfg
    by (rule triple_bind [OF r], rule triple_bind [OF c w])
  show ?thesis
    unfolding configure_def resolve_config_assoc
    by (intro triple_option_then triple_look_then triple_if) (auto intro: triple_ret triple_pre [OF all])
qed

lemma configure_triple:
  assumes cm: "config_mount E = Some cfg" and ms: "make_spares E"
  shows "triple (\<lambda>d. d = d0) (configure E) (\<lambda>_. configured E cfg d0) (unmarked E cfg d0)"
proof -
  let ?Q = "\<lambda>_::unit. configured E cfg d0" and ?C = "unmarked E cfg d0" and ?id = "cfgID E cfg"
  let ?none = "\<lambda>d. map_of d marker_path = None"
  have rm: "triple (\<lambda>d. d = d0) (remove_file marker_path) (\<lambda>_ d. map_of d = (map_of d0)(marker_path := None)) ?C"
    by (rule triple_remove_file) (auto simp: delete_conv' unmarked_def)
  have rest: "triple (\<lambda>d. map_of d = (map_of d0)(marker_path := None))
      (sbind (resolve_config E cfg) (\<lambda>_. write_file marker_path ?id)) ?Q ?C"
  proof (rule triple_fix)
    fix d1 assume d1: "map_of d1 = (map_of d0)(marker_path := None)"
    have "triple (\<lambda>d. d = d1) (resolve_config E cfg) (\<lambda>_. ?none) ?none"
      by (rule triple_pre [OF resolve_config_spares [OF ms, of marker_path]]) (simp_all add: d1)
    then have y: "triple (\<lambda>d. d = d1) (resolve_config E cfg) (\<lambda>_ d. ?none d \<and> yields (resolve_config E cfg) d1 d) ?none"
      by (rule triple_yields [OF robust_resolve_config])
    have wr: "triple (\<lambda>d. ?none d \<and> yields (resolve_config E cfg) d1 d) (write_file marker_path ?id) ?Q ?C"
    proof (rule triple_fix)
      fix d2 assume d2: "?none d2 \<and> yields (resolve_config E cfg) d1 d2"
      let ?trunc = "\<lambda>d. map_of d = (map_of d2)(marker_path \<mapsto> File [] 420 0)"
      have ok: "configured E cfg d0 (AList.update marker_path (File ?id 420 0) d)" if "?trunc d" for d
        using that d1 d2 unfolding configured_def by (auto simp: update_conv')
      have "triple (\<lambda>d. d = d2) (put_content marker_path ?id 420) ?Q ?C"
      proof (rule triple_put_content [where R = ?trunc], use d2 in \<open>simp add: update_conv' unmarked_def\<close>, intro conjI allI)
        fix d n assume tr: "?trunc d"
        show "configured E cfg d0 (AList.update marker_path (File ?id 420 0) d)" using ok tr .
        have "?id \<noteq> []" by (simp add: cfgID_def)
        then show "?C d" using tr unfolding unmarked_def by (intro disjI2 exI [of _ 0]) simp
        show "?C (AList.update marker_path (File (take n ?id) 420 0) d)"
          unfolding unmarked_def by (intro disjI2 exI [of _ n]) (use ok [OF tr] in \<open>auto simp: update_conv'\<close>)
      qed
      moreover have "file_mode d2 marker_path 420 = 420" using d2 by (simp add: file_mode_def)
      ultimately show "triple (\<lambda>d. d = d2) (write_file marker_path ?id) ?Q ?C"
        by (intro triple_write_at) (use d2 in \<open>simp_all add: unmarked_def\<close>)
    qed
    show "triple (\<lambda>d. d = d1) (sbind (resolve_config E cfg) (\<lambda>_. write_file marker_path ?id)) ?Q ?C"
      by (rule triple_bind [OF triple_conseq [OF y] wr]) (auto simp: unmarked_def)
  qed
  show ?thesis
    unfolding configure_def
  proof (rule triple_option_then)
    fix c assume "config_mount E = Some c"
    then have c: "c = cfg" using cm by simp
    show "triple (\<lambda>d. d = d0) (sbind (look (\<lambda>d. read_file d marker_path = Some (cfgID E c))) (\<lambda>same.
       if same then sret () else sbind (remove_file marker_path) (\<lambda>_. sbind (base_config E c) (\<lambda>_.
         sbind (runMake E (archArgs E [''olddefconfig''])) (\<lambda>_. write_file marker_path (cfgID E c)))))) ?Q ?C"
      unfolding c resolve_config_assoc
    proof (intro triple_look_then triple_if)
      fix same assume s: same
      show "triple (\<lambda>d. d = d0 \<and> same = (read_file d marker_path = Some ?id)) (sret ()) ?Q ?C"
        by (rule triple_ret) (use s in \<open>auto simp: configured_def\<close>)
    next
      fix same
      show "triple (\<lambda>d. d = d0 \<and> same = (read_file d marker_path = Some ?id))
          (sbind (remove_file marker_path) (\<lambda>_. sbind (resolve_config E cfg) (\<lambda>_. write_file marker_path ?id))) ?Q ?C"
        by (rule triple_bind [OF triple_pre [OF rm] rest]) simp
    qed
  qed (simp add: cm)
qed



section \<open>What the marker tells apart\<close>

lemma fields_from_props:
  "x \<in> set (fields_from cur s) \<Longrightarrow> CHR '' '' \<notin> set cur \<Longrightarrow> x \<noteq> [] \<and> set x \<subseteq> set cur \<union> set s \<and> CHR '' '' \<notin> set x"
proof (induction cur s rule: fields_from.induct)
  case (1 cur s)
  show ?case
  proof (cases "s = []")
    case True
    with "1.prems" show ?thesis by (subst (asm) fields_from.simps) (auto split: if_splits)
  next
    case ne: False
    show ?thesis
    proof (cases "blank_len space_seqs s = 0")
      case True
      have "hd s \<noteq> CHR '' ''"
      proof
        assume "hd s = CHR '' ''"
        then have "s = CHR '' '' # tl s" using ne by (cases s) auto
        then have "blank_len space_seqs (CHR '' '' # tl s) = 0" using True by simp
        then show False by (simp add: space_seqs_def blank_len_def)
      qed
      with "1.prems" ne True have "x \<noteq> [] \<and> set x \<subseteq> set (cur @ [hd s]) \<union> set (tl s) \<and> CHR '' '' \<notin> set x"
        by (intro "1.IH"(1)) (auto simp: fields_from.simps [of cur s])
      then show ?thesis using ne by (cases s) auto
    next
      case False
      have "x = cur \<and> cur \<noteq> [] \<or> x \<in> set (fields_from [] (drop (blank_len space_seqs s) s))"
        using "1.prems"(1) ne False by (subst (asm) fields_from.simps) (auto split: if_splits)
      then show ?thesis
        using "1.IH"(2) [OF ne False] "1.prems"(2) set_drop_subset [of "blank_len space_seqs s" s] by fastforce
    qed
  qed
qed

lemma str_fields_props:
  "x \<in> set (str_fields s) \<Longrightarrow> x \<noteq> [] \<and> set x \<subseteq> set s \<and> CHR '' '' \<notin> set x"
  using fields_from_props [of x "[]" s] by (simp add: str_fields_def)

lemma join_fields_inject:
  assumes "join '' '' (str_fields s) = join '' '' (str_fields t)"
  shows "str_fields s = str_fields t"
proof -
  have sp: "split_on (CHR '' '') (join '' '' (str_fields u)) = str_fields u" if "str_fields u \<noteq> []" for u
    using that str_fields_props by (intro split_on_join) blast+
  have e: "join '' '' (str_fields u) = [] \<longleftrightarrow> str_fields u = []" for u
  proof -
    have "join '' '' xs = [] \<longleftrightarrow> xs = []" if "\<forall>x \<in> set xs. x \<noteq> []" for xs :: "string list"
      using that by (induction "'' ''" xs rule: join.induct) auto
    then show ?thesis using str_fields_props by blast
  qed
  show ?thesis using sp [of s] sp [of t] e [of s] e [of t] assms by metis
qed

lemma join_fields_set: "set (join '' '' (str_fields s)) \<subseteq> insert (CHR '' '') (set s)"
proof -
  have "set (join '' '' xs) \<subseteq> insert (CHR '' '') (\<Union> (set ` set xs))" for xs
    by (induction "'' ''" xs rule: join.induct) auto
  then show ?thesis using str_fields_props by fastforce
qed

text \<open>
  The marker tells configurations apart: environment strings hold no zero byte, and then two builds write the same marker
  only if their base targets and their configuration files are the same, so skipping \<^verbatim>\<open>olddefconfig\<close> is justified.
\<close>

theorem cfgID_injective:
  assumes "CHR 0x00 \<notin> set (getenv E ''BASE_MAKE'')" "CHR 0x00 \<notin> set (getenv E' ''BASE_MAKE'')" "cfgID E cfg = cfgID E' cfg'"
  shows "str_fields (getenv E ''BASE_MAKE'') = str_fields (getenv E' ''BASE_MAKE'') \<and> cfg = cfg'"
proof -
  have z: "CHR 0x00 \<notin> set (join '' '' (str_fields s))" if "CHR 0x00 \<notin> set s" for s
    using join_fields_set [of s] that by auto
  have "join '' '' (str_fields (getenv E ''BASE_MAKE'')) @ CHR 0x00 # cfg = join '' '' (str_fields (getenv E' ''BASE_MAKE'')) @ CHR 0x00 # cfg'"
    using assms(3) by (simp add: cfgID_def)
  from cut_inject [OF z [OF assms(1)] z [OF assms(2)] this] show ?thesis
    using join_fields_inject by blast
qed

definition base_env :: "string \<Rightarrow> step_env" where
  "base_env b = demo_env\<lparr>getenv := (\<lambda>k. if k = ''BASE_MAKE'' then b else getenv demo_env k)\<rparr>"

theorem cfgID_injective_witness:
  "str_fields (getenv (base_env ''defconfig  kvm'') ''BASE_MAKE'') = str_fields (getenv (base_env ''defconfig kvm '') ''BASE_MAKE'') \<and> ''A'' = ''A''"
proof -
  have "cfgID (base_env ''defconfig  kvm'') ''A'' = cfgID (base_env ''defconfig kvm '') ''A''" by code_simp
  from cfgID_injective [OF _ _ this] show ?thesis by (simp add: base_env_def)
qed

section \<open>Two windows\<close>

text \<open>
  The marker can outlive \<^verbatim>\<open>.config\<close>. \<^verbatim>\<open>nukeTree\<close> removes \<^verbatim>\<open>.config\<close> before the marker and the stamp; killed in between,
  it leaves a tree that the build of the old inputs takes as warm and whose \<^verbatim>\<open>olddefconfig\<close> it skips, with no \<^verbatim>\<open>.config\<close>.
\<close>

definition full_tree :: disk where
  "full_tree = [([''.config''], File ''CONFIG_A=y'' 420 1), ([''.kbf-config-src''], File (cfgID demo_env ''CONFIG_A=y'') 420 1),
     ([''.kbf-stamp''], File ''src=v6 patches=none'' 420 1), ([''Makefile''], File ''all:'' 420 1)]"

theorem nuke_leaves_marker:
  "case nukeTree (start full_tree [Good, Kill]) of (r, v) \<Rightarrow>
     r = Killed \<and> prepareTree demo_env None v = (Ok (), v) \<and> configure demo_env v = (Ok (), v) \<and> read_file (disk v) config_path = None"
  by code_simp

text \<open>
  The marker is written in place: killed while writing it, the step can leave the marker of a shorter configuration, and
  the next build of that configuration then keeps the \<^verbatim>\<open>.config\<close> of the longer one.
\<close>

definition cfg_env :: "string \<Rightarrow> step_env" where
  "cfg_env cfg = demo_env\<lparr>config_mount := Some cfg\<rparr>"

theorem short_marker:
  "case configure (cfg_env ''A=y;B=y'') (start [] [Good, Good, Good, Good, Short 14]) of (r, v) \<Rightarrow>
     r = Killed \<and> configure (cfg_env ''A=y'') v = (Ok (), v) \<and> read_file (disk v) config_path = Some ''A=y;B=y''"
  by code_simp

end
