(* ===== verification/Pack.thy ===== *)
theory Pack
  imports Configure
begin

text \<open>
  What the step writes besides the tree: the files under \<^verbatim>\<open>/out\<close> (\<open>copyFile\<close>, \<open>bundleKconfigs\<close>, \<open>packModules\<close>) and the seed it
  publishes (\<open>seedPush\<close>). The encoders are arguments. A published seed is read back by \<open>untarSeed\<close> unchanged.
\<close>

section \<open>Files under \<^verbatim>\<open>/out\<close>\<close>

definition emit :: "string \<Rightarrow> string \<Rightarrow> unit step" where
  "emit name c w =
     (case fates w of
        [] \<Rightarrow> (Ok (), w\<lparr>out := out w @ [(name, c)]\<rparr>)
      | Good # fs \<Rightarrow> (Ok (), w\<lparr>out := out w @ [(name, c)], fates := fs\<rparr>)
      | Fail # fs \<Rightarrow> (Err ''i/o error'', w\<lparr>fates := fs\<rparr>)
      | Kill # fs \<Rightarrow> (Killed, w\<lparr>fates := fs\<rparr>)
      | Short n # fs \<Rightarrow> (Killed, w\<lparr>out := out w @ [(name, take n c)], fates := fs\<rparr>))"

definition copyFile :: "path \<Rightarrow> string \<Rightarrow> unit step" where
  "copyFile src dst = sbind (look (\<lambda>d. read_file d src)) (\<lambda>c. sbind (from_option ''open'' c) (emit dst))"

section \<open>The Kconfig bundle\<close>

definition skip_dirs :: "string list" where
  "skip_dirs = [''.git'', ''Documentation'', ''tools'', ''samples'', ''scripts'']"

definition kconfig_path :: "disk \<Rightarrow> path \<Rightarrow> bool" where
  "kconfig_path d p \<longleftrightarrow> p \<noteq> [] \<and> \<not> is_dir d p \<and> \<not> (hd p \<in> set skip_dirs \<and> is_dir d [hd p]) \<and> has_prefix (last p) ''Kconfig''"

definition path_name :: "path \<Rightarrow> string" where "path_name p = join ''/'' p"

definition kconfig_files :: "disk \<Rightarrow> path list" where
  "kconfig_files d = sort_key path_name (filter (kconfig_path d) (remdups (map fst d)))"

fun kconfig_sections :: "disk \<Rightarrow> path list \<Rightarrow> string option" where
  "kconfig_sections d [] = Some []"
| "kconfig_sections d (p # ps) =
     (case read_file d p of
        None \<Rightarrow> None
      | Some c \<Rightarrow> map_option (\<lambda>rest. ''### '' @ path_name p @ [newline] @ c @ rest) (kconfig_sections d ps))"

text \<open>The output is created before the sections are read: one that cannot be read leaves a cut file behind.\<close>

definition bundleKconfigs :: "(string \<Rightarrow> string) \<Rightarrow> string \<Rightarrow> unit step" where
  "bundleKconfigs gzip dst =
     sbind (look (\<lambda>d. kconfig_sections d (kconfig_files d))) (\<lambda>t.
       case t of
         None \<Rightarrow> sbind (emit dst []) (\<lambda>_. serr ''open'')
       | Some text \<Rightarrow> emit dst (gzip text))"

section \<open>Archives\<close>

text \<open>\<^verbatim>\<open>filepath.WalkDir\<close>: a directory, then its entries in byte order, which is the lexicographic order of paths.\<close>

definition walk :: "disk \<Rightarrow> path list" where
  "walk d = sort (filter (\<lambda>p. p \<noteq> []) (remdups (map fst d)))"

definition node_kind :: "node \<Rightarrow> entry_kind" where
  "node_kind n = (case n of File c _ _ \<Rightarrow> Reg c | Directory _ \<Rightarrow> Dir_Entry | Symlink t \<Rightarrow> Sym t)"

definition node_mode :: "node \<Rightarrow> nat" where
  "node_mode n = (case n of File _ m _ \<Rightarrow> m | Directory m \<Rightarrow> m | Symlink _ \<Rightarrow> 511)"

definition node_mtime :: "node \<Rightarrow> int" where
  "node_mtime n = (case n of File _ _ t \<Rightarrow> t | _ \<Rightarrow> 0)"

definition module_header :: "string \<Rightarrow> path \<Rightarrow> node \<Rightarrow> entry" where
  "module_header epoch p n =
     \<lparr>e_name = path_name p @ (case n of Directory _ \<Rightarrow> ''/'' | _ \<Rightarrow> []), e_mode = node_mode n,
      e_mtime = (case parse_int64 epoch of Some ts \<Rightarrow> ts | None \<Rightarrow> node_mtime n), e_kind = node_kind n\<rparr>"

definition module_entries :: "string \<Rightarrow> disk \<Rightarrow> entry list" where
  "module_entries epoch d = map (\<lambda>p. module_header epoch p (the (map_of d p))) (walk d)"

text \<open>
  \<open>staged\<close> is what \<^verbatim>\<open>modules_install\<close> leaves in the staging directory \<open>stage\<close>; \<open>enc\<close> is tar and zstd.
\<close>

definition packModules :: "step_env \<Rightarrow> string \<Rightarrow> (disk \<Rightarrow> disk) \<Rightarrow> (entry list \<Rightarrow> string) \<Rightarrow> unit step" where
  "packModules E stage staged enc =
     sbind (runMake E (archArgs E [''modules_install'', ''INSTALL_MOD_PATH='' @ stage, ''INSTALL_MOD_STRIP=1''])) (\<lambda>_.
     sbind (look staged) (\<lambda>s.
       emit ''/out/modules.tar.zst'' (enc (module_entries (getenv E ''SOURCE_DATE_EPOCH'') s))))"

definition seed_skips :: "path \<Rightarrow> bool" where
  "seed_skips p \<longleftrightarrow> has_prefix (last p) ''.kbf-seed-'' \<or> has_prefix (last p) ''.kbf-src''"

definition seed_header :: "path \<Rightarrow> node \<Rightarrow> entry" where
  "seed_header p n = \<lparr>e_name = path_name p, e_mode = node_mode n, e_mtime = node_mtime n, e_kind = node_kind n\<rparr>"

definition seed_entries :: "disk \<Rightarrow> entry list" where
  "seed_entries d = map (\<lambda>p. seed_header p (the (map_of d p))) (filter (\<lambda>p. \<not> seed_skips p) (walk d))"

text \<open>
  \<open>put\<close> is the upload (configuration, endpoint, path style, bucket, key, body), \<open>tmp\<close> the name \<^verbatim>\<open>CreateTemp\<close> chose. The
  temporary file is removed however the upload ends, unless the process is killed.
\<close>

definition seedPush ::
  "step_env \<Rightarrow> (string \<Rightarrow> string \<Rightarrow> bool \<Rightarrow> string \<Rightarrow> string \<Rightarrow> string \<Rightarrow> string option) \<Rightarrow> string \<Rightarrow> (entry list \<Rightarrow> string) \<Rightarrow> seedCfg \<Rightarrow> unit step" where
  "seedPush E put tmp enc c =
     (case s3Client (aws_load E) put (secrets_of E) c of
        Inl _ \<Rightarrow> serr ''s3 client''
      | Inr (cl, bucket) \<Rightarrow>
          sbind (look (\<lambda>d. map_of d [tmp] = None)) (\<lambda>free. if \<not> free then serr ''exists'' else
          sbind (sys (AList.update [tmp] (File [] 384 0))) (\<lambda>_.
          let body = sbind (look (\<lambda>d. enc (seed_entries d))) (\<lambda>a.
                sbind (sys_write (\<lambda>b. AList.update [tmp] (File b 384 0)) a) (\<lambda>_.
                  case cl bucket (sc_key c) a of None \<Rightarrow> sret () | Some e \<Rightarrow> serr e))
          in sbind (on_error body (ignore (remove_file [tmp]))) (\<lambda>_. ignore (remove_file [tmp])))))"

section \<open>Names and paths\<close>

definition fine_name :: "string \<Rightarrow> bool" where "fine_name c \<longleftrightarrow> proper c \<and> CHR ''/'' \<notin> set c"

lemma path_of_name: "p \<noteq> [] \<Longrightarrow> list_all fine_name p \<Longrightarrow> path_of (path_name p) = p"
  unfolding path_of_def path_name_def by (rule split_on_join) (auto simp: list_all_iff fine_name_def)

lemma path_name_inject: "p \<noteq> [] \<Longrightarrow> q \<noteq> [] \<Longrightarrow> list_all fine_name p \<Longrightarrow> list_all fine_name q \<Longrightarrow> path_name p = path_name q \<Longrightarrow> p = q"
  by (metis path_of_name)

lemma clean_comps_fine: "list_all fine_name cs \<Longrightarrow> clean_comps r acc cs = acc @ cs"
  by (induction r acc cs rule: clean_comps.induct) (auto simp: fine_name_def proper_def)

lemma name_shape:
  assumes "p \<noteq> []" "list_all fine_name p"
  shows "path_name p \<noteq> []" "\<not> has_prefix (path_name p) ''/''"
proof -
  obtain c cs where p: "p = c # cs" using assms(1) by (cases p) auto
  then obtain x c' where c: "c = x # c'" "x \<noteq> CHR ''/''" using assms(2) by (cases c) (auto simp: fine_name_def proper_def)
  then show "path_name p \<noteq> []" "\<not> has_prefix (path_name p) ''/''"
    by (cases cs; simp add: p path_name_def)+
qed

lemma Clean_name: "p \<noteq> [] \<Longrightarrow> list_all fine_name p \<Longrightarrow> Clean (path_name p) = path_name p"
  using name_shape [of p] path_of_name [of p]
  by (simp add: Clean_def path_of_def clean_comps_fine Let_def path_name_def [symmetric])

lemma strip_name: "p \<noteq> [] \<Longrightarrow> list_all fine_name p \<Longrightarrow> stripComponents (path_name p) 0 = Some (path_name p)"
proof -
  assume p: "p \<noteq> []" "list_all fine_name p"
  have f: "filter (\<lambda>c. c \<noteq> []) p = p" using p(2) by (auto simp: filter_id_conv list_all_iff fine_name_def proper_def)
  have "Join p = path_name p" using p Clean_name [OF p] by (simp add: Join_def f path_name_def)
  then show ?thesis using p path_of_name [OF p] by (simp add: stripComponents_def Clean_name [OF p] path_of_def)
qed

text \<open>Where the entry of a path lands.\<close>

definition landing :: "path \<Rightarrow> path" where
  "landing p = (if p = [''.kbf-stamp''] then [''.kbf-stamp.seed''] else p)"

lemma fine_stamp: "fine_name ''.kbf-stamp''" "fine_name ''.kbf-stamp.seed''"
  by (simp_all add: fine_name_def proper_def)

lemma landing_fine: "p \<noteq> [] \<Longrightarrow> list_all fine_name p \<Longrightarrow> landing p \<noteq> [] \<and> list_all fine_name (landing p)"
  by (auto simp: landing_def fine_stamp)

lemma quarantine_name:
  assumes "p \<noteq> []" "list_all fine_name p"
  shows "quarantine (path_name p) = path_name (landing p)"
proof -
  have "path_name p = ''.kbf-stamp'' \<longleftrightarrow> p = [''.kbf-stamp'']"
    using path_name_inject [OF assms(1) _ assms(2), of "[''.kbf-stamp'']"] by (auto simp: fine_stamp path_name_def)
  then show ?thesis by (auto simp: quarantine_def landing_def path_name_def)
qed

lemma seed_entry_name:
  assumes "p \<noteq> []" "list_all fine_name p"
  shows "entry_name 0 (Some quarantine) (path_name p) = Some (path_name (landing p))"
    and "path_of (path_name (landing p)) = landing p"
  using assms landing_fine [OF assms] name_shape [of "landing p"]
  by (simp_all add: entry_name_def strip_name quarantine_name path_of_name)

section \<open>Writing below existing directories\<close>

definition dirs_above :: "disk \<Rightarrow> path \<Rightarrow> bool" where
  "dirs_above d p \<longleftrightarrow> (\<forall>q. strict_prefix q p \<longrightarrow> q \<noteq> [] \<longrightarrow> is_dir d q)"

lemma mk_walk_dirs:
  "list_all fine_name cs \<Longrightarrow> (\<And>q. q \<noteq> [] \<Longrightarrow> prefix q cs \<Longrightarrow> is_dir d (acc @ q)) \<Longrightarrow>
   mk_walk k d acc (cs @ rest) = mk_walk k d (acc @ cs) rest"
proof (induction cs arbitrary: acc)
  case (Cons c cs)
  have "is_dir d (acc @ [c])" using Cons.prems(2) [of "[c]"] by simp
  then obtain m where m: "map_of d (acc @ [c]) = Some (Directory m)"
    by (auto simp: is_dir_def split: option.splits node.splits)
  have "is_dir d ((acc @ [c]) @ q)" if "q \<noteq> []" "prefix q cs" for q
    using Cons.prems(2) [of "c # q"] that by simp
  from Cons.IH [OF _ this] have "mk_walk k d (acc @ [c]) (cs @ rest) = mk_walk k d ((acc @ [c]) @ cs) rest"
    using Cons.prems(1) by simp
  with Cons.prems(1) m show ?case by (simp add: fine_name_def proper_def)
qed simp

lemma prefix_butlast: "p \<noteq> [] \<Longrightarrow> prefix q (butlast p) \<Longrightarrow> strict_prefix q p"
  by (metis append_butlast_last_id prefix_snocD strict_prefix_def prefix_order.dual_order.strict_trans2 strict_prefixI')

lemma root_walk_parent:
  assumes "p \<noteq> []" "list_all fine_name p" "dirs_above d p"
  shows "root_walk d (butlast p) = Some ([], butlast p)"
proof -
  have "is_dir d q" if "q \<noteq> []" "prefix q (butlast p)" for q
    using assms(3) prefix_butlast [OF assms(1) that(2)] that(1) by (simp add: dirs_above_def)
  moreover have "list_all fine_name (butlast p)" using assms(2) by (auto simp: list_all_iff dest: in_set_butlastD)
  ultimately have "mk_walk root_links d [] (butlast p) = Some ([], butlast p)"
    using mk_walk_dirs [of "butlast p" d "[]" root_links "[]"] by simp
  moreover have "\<not> rooted_path (butlast p)"
    using \<open>list_all fine_name (butlast p)\<close> by (cases "butlast p") (auto simp: rooted_path_def fine_name_def proper_def)
  ultimately show ?thesis by (simp add: root_walk_def)
qed

lemma entry_path_fine:
  assumes "p \<noteq> []" "list_all fine_name p" "dirs_above (disk w) p"
  shows "entry_path p w = (Ok p, w)"
proof -
  have "proper (last p)" using assms(1,2) by (auto simp: list_all_iff fine_name_def)
  then show ?thesis
    using assms by (simp add: entry_path_def mkdir_all_def sbind_def look_def root_walk_parent sret_def)
qed

lemma root_walk_new:
  assumes "p \<noteq> []" "list_all fine_name p" "dirs_above d p" "map_of d p = None"
  shows "root_walk d p = Some ([p], p)"
proof -
  have p: "p = butlast p @ [last p]" using assms(1) by simp
  have f: "list_all fine_name (butlast p)" "fine_name (last p)"
    using assms(1,2) by (auto simp: list_all_iff dest: in_set_butlastD)
  have "is_dir d q" if "q \<noteq> []" "prefix q (butlast p)" for q
    using assms(3) prefix_butlast [OF assms(1) that(2)] that(1) by (simp add: dirs_above_def)
  then have "mk_walk root_links d [] (butlast p @ [last p]) = mk_walk root_links d (butlast p) [last p]"
    using mk_walk_dirs [of "butlast p" d "[]" root_links "[last p]"] f by simp
  also have "\<dots> = Some ([p], p)" using f(2) assms(1,4) by (simp add: fine_name_def proper_def)
  finally have "mk_walk root_links d [] p = Some ([p], p)" using p by simp
  moreover have "\<not> rooted_path p" using assms(2) by (cases p) (auto simp: rooted_path_def fine_name_def proper_def)
  ultimately show ?thesis by (simp add: root_walk_def)
qed

text \<open>An entry of a seed puts its node where it lands.\<close>

lemma write_seed_entry:
  assumes p: "p \<noteq> []" "list_all fine_name p" and d: "dirs_above (disk w) (landing p)" "map_of (disk w) (landing p) = None"
    and f: "fates w = []" and n: "\<not> (\<exists>m. n = Directory m) \<or> landing p = p"
  shows "\<exists>v. write_entry 0 (Some quarantine) (seed_header p n) w = (Ok (), v) \<and> fates v = [] \<and>
     map_of (disk v) = (map_of (disk w))(landing p \<mapsto> n)"
proof -
  have l: "landing p \<noteq> []" "list_all fine_name (landing p)" using landing_fine [OF p] by auto
  note e = seed_entry_name [OF p] entry_path_fine [OF l d(1)] root_walk_new [OF l d]
  show ?thesis
    by (cases n)
      (simp_all add: write_entry_def seed_header_def node_kind_def node_mode_def node_mtime_def e writeEntry_def write_dir_def write_symlink_def
        sbind_def sys_def sys_write_def root_remove_def look_def sret_def d(2) f update_conv' mkdir_all_def l)
qed

section \<open>A published seed is read back\<close>

text \<open>
  A tree as the step leaves it: clean names below directories; the records are plain files, no quarantined stamp is left.
\<close>

definition tree_ok :: "disk \<Rightarrow> bool" where
  "tree_ok d \<longleftrightarrow> list_all (\<lambda>p. p \<noteq> [] \<and> list_all fine_name p \<and> dirs_above d p \<and> (seed_skips p \<longrightarrow> \<not> is_dir d p)) (map fst d) \<and>
     \<not> is_dir d [''.kbf-stamp''] \<and> map_of d [''.kbf-stamp.seed''] = None"

definition reload :: "disk \<Rightarrow> path \<Rightarrow> node option" where
  "reload d p = (if p = [] \<or> p = [''.kbf-stamp''] then None else if p = [''.kbf-stamp.seed''] then map_of d [''.kbf-stamp'']
     else if seed_skips p then None else map_of d p)"

lemma strict_prefix_less: "strict_prefix q p \<Longrightarrow> q < (p :: string list)"
proof (induction q arbitrary: p)
  case Nil
  then show ?case by (cases p) auto
next
  case (Cons c q)
  then show ?case by (cases p) (auto simp: strict_prefix_def)
qed

lemma set_walk: "p \<in> set (walk d) \<longleftrightarrow> p \<noteq> [] \<and> map_of d p \<noteq> None"
  by (auto simp: walk_def map_of_eq_None_iff)

lemma tree_okD:
  assumes "tree_ok d" "map_of d p \<noteq> None"
  shows "p \<noteq> [] \<and> list_all fine_name p \<and> dirs_above d p \<and> (seed_skips p \<longrightarrow> \<not> is_dir d p)"
proof -
  have "p \<in> set (map fst d)" using assms(2) by (simp add: map_of_eq_None_iff)
  then show ?thesis using assms(1) unfolding tree_ok_def list_all_iff by blast
qed

definition loaded :: "disk \<Rightarrow> path list \<Rightarrow> disk \<Rightarrow> bool" where
  "loaded d qs m \<longleftrightarrow> (\<forall>r. map_of m r = (if \<exists>p \<in> set qs. landing p = r then reload d r else None))"

lemma reload_landing: "p \<noteq> [] \<Longrightarrow> \<not> seed_skips p \<Longrightarrow> p \<noteq> [''.kbf-stamp.seed''] \<Longrightarrow> reload d (landing p) = map_of d p"
  by (simp add: reload_def landing_def)

lemma load_entries:
  assumes ok: "tree_ok d" and l: "filter (\<lambda>p. \<not> seed_skips p) (walk d) = qs @ ps"
    and m: "loaded d qs (disk w)" and f: "fates w = []"
  shows "\<exists>v. each (write_entry 0 (Some quarantine)) (map (\<lambda>p. seed_header p (the (map_of d p))) ps) w = (Ok (), v) \<and> fates v = [] \<and>
     loaded d (qs @ ps) (disk v)"
  using l m f
proof (induction ps arbitrary: qs w)
  case Nil
  then show ?case by (simp add: sret_def)
next
  case (Cons p ps)
  let ?L = "filter (\<lambda>p. \<not> seed_skips p) (walk d)"
  have inL: "r \<in> set ?L \<longleftrightarrow> r \<noteq> [] \<and> map_of d r \<noteq> None \<and> \<not> seed_skips r" for r using set_walk by auto
  have sd: "sorted ?L" "distinct ?L" by (simp_all add: walk_def sorted_wrt_filter)
  have p: "p \<noteq> []" "map_of d p \<noteq> None" "\<not> seed_skips p" using inL [of p] Cons.prems(1) by auto
  obtain n where n: "map_of d p = Some n" using p(2) by blast
  have okp: "list_all fine_name p" "dirs_above d p" using tree_okD [OF ok p(2)] by auto
  have ns: "p \<noteq> [''.kbf-stamp.seed'']" using ok p(2) by (auto simp: tree_ok_def)
  have fresh: "map_of (disk w) (landing p) = None"
  proof -
    have "landing q \<noteq> landing p" if "q \<in> set qs" for q
    proof -
      have "q \<in> set ?L" "q \<noteq> p" using that sd(2) Cons.prems(1) by auto
      then have "q \<noteq> [''.kbf-stamp.seed'']" using ok inL [of q] by (auto simp: tree_ok_def)
      then show ?thesis using ns \<open>q \<noteq> p\<close> by (auto simp: landing_def)
    qed
    then show ?thesis using Cons.prems(2) by (auto simp: loaded_def)
  qed
  have above: "dirs_above (disk w) (landing p)"
  proof (cases "p = [''.kbf-stamp'']")
    case True
    then show ?thesis by (auto simp: landing_def dirs_above_def strict_prefix_def prefix_Cons)
  next
    case False
    have "is_dir (disk w) q" if q: "strict_prefix q p" "q \<noteq> []" for q
    proof -
      have dq: "is_dir d q" using okp(2) q by (simp add: dirs_above_def)
      then have mq: "map_of d q \<noteq> None" by (auto simp: is_dir_def split: option.splits)
      then have "\<not> seed_skips q" using tree_okD [OF ok mq] dq by blast
      then have "q \<in> set ?L" using inL q(2) mq by blast
      moreover have "q \<notin> set (p # ps)"
        using strict_prefix_less [OF q(1)] sd(1) Cons.prems(1) by (fastforce simp: sorted_append)
      ultimately have "q \<in> set qs" using Cons.prems(1) by auto
      moreover have "q \<noteq> [''.kbf-stamp'']" "q \<noteq> [''.kbf-stamp.seed'']" using ok dq by (auto simp: tree_ok_def is_dir_def)
      ultimately have "map_of (disk w) q = map_of d q"
        using Cons.prems(2) \<open>\<not> seed_skips q\<close> q(2) unfolding loaded_def reload_def landing_def by force
      then show ?thesis using dq by (simp add: is_dir_def)
    qed
    then show ?thesis using False by (simp add: landing_def dirs_above_def)
  qed
  have nd: "\<not> (\<exists>k. n = Directory k) \<or> landing p = p"
    using ok n by (auto simp: landing_def tree_ok_def is_dir_def)
  from write_seed_entry [OF p(1) okp(1) above fresh Cons.prems(3) nd]
  obtain v where v: "write_entry 0 (Some quarantine) (seed_header p n) w = (Ok (), v)" "fates v = []"
      "map_of (disk v) = (map_of (disk w))(landing p \<mapsto> n)" by blast
  have "loaded d (qs @ [p]) (disk v)"
    using Cons.prems(2) reload_landing [OF p(1,3) ns, of d] n unfolding loaded_def v(3) by auto
  from Cons.IH [OF _ this v(2)] Cons.prems(1)
  obtain u where "each (write_entry 0 (Some quarantine)) (map (\<lambda>p. seed_header p (the (map_of d p))) ps) v = (Ok (), u)" "fates u = []"
      "loaded d (qs @ p # ps) (disk u)" by auto
  then show ?case using v(1) n by (simp add: sbind_def)
qed

text \<open>
  The archive that \<^verbatim>\<open>seedPush\<close> packs from a tree, extracted by \<^verbatim>\<open>untarSeed\<close> into an empty mount, gives back every file with its
  content, mode and modification time, every directory and every link; only the stamp arrives under its quarantined name,
  and cached sources and temporary files are left out.
\<close>

lemma seed_extracts:
  assumes "tree_ok d"
  shows "\<exists>v. untarSeed (seed_entries d, None) (start [] []) = (Ok (), v) \<and> map_of (disk v) = reload d"
proof -
  have "loaded d [] []" by (simp add: loaded_def)
  with load_entries [OF assms, of "[]" _ "start [] []"]
  obtain v where v: "each (write_entry 0 (Some quarantine)) (map (\<lambda>p. seed_header p (the (map_of d p))) (filter (\<lambda>p. \<not> seed_skips p) (walk d))) (start [] []) = (Ok (), v)"
      "loaded d (filter (\<lambda>p. \<not> seed_skips p) (walk d)) (disk v)" by auto
  have "reload d r = None" if "\<not> (\<exists>p \<in> set (filter (\<lambda>p. \<not> seed_skips p) (walk d)). landing p = r)" for r
  proof (rule ccontr)
    assume a: "reload d r \<noteq> None"
    have sk: "\<not> seed_skips [''.kbf-stamp'']" by (simp add: seed_skips_def)
    have "\<exists>p. p \<noteq> [] \<and> map_of d p \<noteq> None \<and> \<not> seed_skips p \<and> landing p = r"
    proof (cases "r = [''.kbf-stamp.seed'']")
      case True
      then show ?thesis using a sk by (intro exI [of _ "[''.kbf-stamp'']"]) (simp add: reload_def landing_def)
    next
      case False
      then show ?thesis using a by (intro exI [of _ r]) (auto simp: reload_def landing_def split: if_splits)
    qed
    then show False using that set_walk by fastforce
  qed
  then have "map_of (disk v) = reload d" using v(2) unfolding loaded_def by fastforce
  then show ?thesis using v(1) by (simp add: untarSeed_def untarFiltered_def seed_entries_def sbind_def sret_def)
qed

definition demo_tree :: disk where
  "demo_tree = [([''arch''], Directory 493), ([''arch'', ''Kconfig''], File ''k'' 420 5), ([''init.sh''], File ''run'' 493 9),
     ([''link''], Symlink ''arch/Kconfig''), ([''.kbf-stamp''], File ''src=v6 patches=none'' 420 1), ([''.kbf-src.tar.gz''], File ''tar'' 420 2)]"

lemma demo_tree_ok: "tree_ok demo_tree"
proof -
  have "strict_prefix q [''arch'', ''Kconfig''] \<longleftrightarrow> q = [] \<or> q = [''arch'']" "strict_prefix q [n] \<longleftrightarrow> q = []" for q n
    by (cases q; auto simp: strict_prefix_def prefix_Cons)+
  then show ?thesis
    by (simp add: tree_ok_def demo_tree_def dirs_above_def fine_name_def proper_def seed_skips_def is_dir_def)
qed

section \<open>The module archive and the Kconfig bundle\<close>

text \<open>Two staged trees that differ in modification times only.\<close>

definition untimed :: "node \<Rightarrow> node" where
  "untimed n = (case n of File c m _ \<Rightarrow> File c m 0 | _ \<Rightarrow> n)"



end
