(* ===== verification/Pool.thy ===== *)
theory Pool
  imports Pack "HOL-Library.Word"
begin

text \<open>
  Extraction with the write pool (\<open>untarFiltered\<close> and \<^verbatim>\<open>untarpool.go\<close>): the reader handles the entries of the stream in order; a small
  file goes to the queue of one of the workers, chosen by the FNV-1a hash of its name; links and large files wait until all
  queues are drained; directories are made by the reader at once. The steps of the relation are single file system calls.
\<close>

section \<open>Jobs and their calls\<close>

unbundle bit_operations_syntax

record writeJob =
  j_name :: string
  j_mode :: nat
  j_mtime :: int
  j_data :: string

definition fnv32a :: "string \<Rightarrow> 32 word" where
  "fnv32a s = foldl (\<lambda>h c. (h XOR of_char c) * 16777619) 2166136261 s"

definition pool_size :: "int \<Rightarrow> nat" where
  "pool_size gomaxprocs = nat (max (min gomaxprocs 8) 1)"

definition shard :: "nat \<Rightarrow> string \<Rightarrow> nat" where
  "shard n name = unat (fnv32a name mod word_of_nat n)"

definition untarInlineLimit :: nat where "untarInlineLimit = 8 * 2 ^ 20"

text \<open>
  The calls on the root directory. A path is followed up to its last component; \<^verbatim>\<open>MkdirAll\<close> is one \<open>Mkdir\<close> per component. A worker
  writes through its handle; the model writes through the name, which is the same as long as no one else removes it.
\<close>

datatype call = Mkdir path | Chmod_Dir path nat | Remove path | Open path nat | Write path string | Chmod path nat | Chtimes path int

definition writeFileBytes :: "path \<Rightarrow> nat \<Rightarrow> int \<Rightarrow> string \<Rightarrow> call list" where
  "writeFileBytes p mode mtime data =
     map Mkdir (tl (prefixes (butlast p))) @ [Remove p, Open p mode, Write p data, Chmod p mode, Chtimes p mtime]"

definition job_calls :: "writeJob \<Rightarrow> call list" where
  "job_calls j = writeFileBytes (path_of (j_name j)) (j_mode j) (j_mtime j) (j_data j)"

definition dir_calls :: "path \<Rightarrow> nat \<Rightarrow> call list" where
  "dir_calls p mode = map Mkdir (tl (prefixes p)) @ [Chmod_Dir p mode]"

fun loc :: "call \<Rightarrow> path" where
  "loc (Mkdir p) = p" | "loc (Chmod_Dir p _) = p" | "loc (Remove p) = p" | "loc (Open p _) = p" | "loc (Write p _) = p"
| "loc (Chmod p _) = p" | "loc (Chtimes p _) = p"

definition entry_at :: "disk \<Rightarrow> path \<Rightarrow> path option" where
  "entry_at d p =
     (if p = [] \<or> \<not> proper (last p) then None
      else case root_resolve d (butlast p) of
        None \<Rightarrow> None
      | Some r \<Rightarrow> if r = [] \<or> is_dir d r then Some (r @ [last p]) else None)"

definition on_file :: "(string \<Rightarrow> nat \<Rightarrow> int \<Rightarrow> node) \<Rightarrow> disk \<Rightarrow> path \<Rightarrow> disk option" where
  "on_file f d p = (case entry_at d p of
       None \<Rightarrow> None
     | Some q \<Rightarrow> (case map_of d q of Some (File c m t) \<Rightarrow> Some (AList.update q (f c m t) d) | _ \<Rightarrow> None))"

fun act :: "call \<Rightarrow> disk \<Rightarrow> disk option" where
  "act (Mkdir p) d = (case root_walk d p of None \<Rightarrow> None | Some (qs, _) \<Rightarrow> Some (fold (\<lambda>q. AList.update q (Directory 493)) qs d))"
| "act (Chmod_Dir p mode) d = (case root_resolve d p of
       None \<Rightarrow> None
     | Some q \<Rightarrow> if q = [] then Some d
         else (case map_of d q of Some (Directory _) \<Rightarrow> Some (AList.update q (Directory mode) d) | _ \<Rightarrow> None))"
| "act (Remove p) d = (case entry_at d p of
       None \<Rightarrow> None
     | Some q \<Rightarrow> (case map_of d q of
           Some (Directory _) \<Rightarrow> if has_children d q then None else Some (AList.delete q d)
         | _ \<Rightarrow> Some (AList.delete q d)))"
| "act (Open p mode) d = (case entry_at d p of
       None \<Rightarrow> None
     | Some q \<Rightarrow> if map_of d q = None then Some (AList.update q (File [] mode 0) d) else None)"
| "act (Write p c) d = on_file (\<lambda>_ m t. File c m t) d p"
| "act (Chmod p mode) d = on_file (\<lambda>c _ t. File c mode t) d p"
| "act (Chtimes p t) d = on_file (\<lambda>c m _. File c m t) d p"

section \<open>The extraction\<close>

text \<open>What the reader does with an entry.\<close>

datatype plan_entry = Skip | Send writeJob | Make path nat | Inline

definition plan_of :: "nat \<Rightarrow> (string \<Rightarrow> string) option \<Rightarrow> entry \<Rightarrow> plan_entry" where
  "plan_of strip rename e =
     (case entry_name strip rename (e_name e) of
        None \<Rightarrow> Skip
      | Some name \<Rightarrow>
          (case e_kind e of
             Reg c \<Rightarrow> if untarInlineLimit < length c then Inline
                      else Send \<lparr>j_name = name, j_mode = e_mode e, j_mtime = e_mtime e, j_data = c\<rparr>
           | Dir_Entry \<Rightarrow> Make (path_of name) (e_mode e)
           | Sym _ \<Rightarrow> Inline
           | Hard ln \<Rightarrow> (if stripComponents ln strip = None then Skip else Inline)
           | Other \<Rightarrow> Skip))"

text \<open>
  The entries not read yet, the job the reader is sending, the calls each worker (below \<open>n\<close>) and the reader (\<open>n\<close>) still has to make
  for what is in its hands, the channels, the tree, the pool's first error, and the reader's result once it has one.
\<close>

record extraction =
  input :: "entry list"
  offer :: "writeJob option"
  hand :: "nat \<Rightarrow> call list"
  queue :: "nat \<Rightarrow> writeJob list"
  tree :: disk
  pool_err :: "string option"
  verdict :: "string option option"

definition newUntarPool :: "entry list \<Rightarrow> disk \<Rightarrow> extraction" where
  "newUntarPool es d = \<lparr>input = es, offer = None, hand = (\<lambda>_. []), queue = (\<lambda>_. []), tree = d, pool_err = None, verdict = None\<rparr>"

definition chan_size :: nat where "chan_size = 4"

text \<open>\<^verbatim>\<open>flush\<close> and \<^verbatim>\<open>close\<close> wait for this.\<close>

definition idle :: "nat \<Rightarrow> extraction \<Rightarrow> bool" where
  "idle n s \<longleftrightarrow> list_all (\<lambda>k. hand s k = [] \<and> queue s k = []) [0..<n]"

definition reading :: "nat \<Rightarrow> extraction \<Rightarrow> bool" where
  "reading n s \<longleftrightarrow> verdict s = None \<and> offer s = None \<and> hand s n = []"

definition first_err :: "string \<Rightarrow> string option \<Rightarrow> string option" where
  "first_err e old = (case old of None \<Rightarrow> Some e | Some x \<Rightarrow> Some x)"

definition err_text :: "unit outcome \<Rightarrow> string" where
  "err_text r = (case r of Ok _ \<Rightarrow> [] | Err e \<Rightarrow> e | Killed \<Rightarrow> ''killed'')"

inductive pool_step :: "nat \<Rightarrow> nat \<Rightarrow> (string \<Rightarrow> string) option \<Rightarrow> string option \<Rightarrow> extraction \<Rightarrow> extraction \<Rightarrow> bool"
  for n strip rename final where
  skip: "reading n s \<Longrightarrow> input s = e # es \<Longrightarrow> plan_of strip rename e = Skip \<Longrightarrow>
    pool_step n strip rename final s (s\<lparr>input := es\<rparr>)"
| dispatch: "reading n s \<Longrightarrow> input s = e # es \<Longrightarrow> plan_of strip rename e = Send j \<Longrightarrow> pool_err s = None \<Longrightarrow>
    pool_step n strip rename final s (s\<lparr>input := es, offer := Some j\<rparr>)"
| sent: "offer s = Some j \<Longrightarrow> length (queue s (shard n (j_name j))) < chan_size \<Longrightarrow>
    pool_step n strip rename final s (s\<lparr>offer := None, queue := (queue s)(shard n (j_name j) := queue s (shard n (j_name j)) @ [j])\<rparr>)"
| refused: "reading n s \<Longrightarrow> input s = e # es \<Longrightarrow> plan_of strip rename e = Send j \<Longrightarrow> pool_err s = Some x \<Longrightarrow>
    pool_step n strip rename final s (s\<lparr>verdict := Some (Some x)\<rparr>)"
| make: "reading n s \<Longrightarrow> input s = e # es \<Longrightarrow> plan_of strip rename e = Make p mode \<Longrightarrow>
    pool_step n strip rename final s (s\<lparr>input := es, hand := (hand s)(n := dir_calls p mode)\<rparr>)"
| made: "hand s n = c # cs \<Longrightarrow> act c (tree s) = Some d \<Longrightarrow>
    pool_step n strip rename final s (s\<lparr>hand := (hand s)(n := cs), tree := d\<rparr>)"
| make_fails: "hand s n = c # cs \<Longrightarrow> act c (tree s) = None \<Longrightarrow>
    pool_step n strip rename final s (s\<lparr>hand := (hand s)(n := []), verdict := Some (Some ''mkdir'')\<rparr>)"
| inline: "reading n s \<Longrightarrow> input s = e # es \<Longrightarrow> plan_of strip rename e = Inline \<Longrightarrow> idle n s \<Longrightarrow> pool_err s = None \<Longrightarrow>
    write_entry strip rename e (start (tree s) []) = (Ok (), v) \<Longrightarrow>
    pool_step n strip rename final s (s\<lparr>input := es, tree := disk v\<rparr>)"
| inline_fails: "reading n s \<Longrightarrow> input s = e # es \<Longrightarrow> plan_of strip rename e = Inline \<Longrightarrow> idle n s \<Longrightarrow> pool_err s = None \<Longrightarrow>
    write_entry strip rename e (start (tree s) []) = (r, v) \<Longrightarrow> r \<noteq> Ok () \<Longrightarrow>
    pool_step n strip rename final s (s\<lparr>tree := disk v, verdict := Some (Some (err_text r))\<rparr>)"
| flush_fails: "reading n s \<Longrightarrow> input s = e # es \<Longrightarrow> plan_of strip rename e = Inline \<Longrightarrow> idle n s \<Longrightarrow> pool_err s = Some x \<Longrightarrow>
    pool_step n strip rename final s (s\<lparr>verdict := Some (Some x)\<rparr>)"
| eof: "reading n s \<Longrightarrow> input s = [] \<Longrightarrow>
    pool_step n strip rename final s (s\<lparr>verdict := Some final\<rparr>)"
| take_job: "k < n \<Longrightarrow> hand s k = [] \<Longrightarrow> queue s k = j # q \<Longrightarrow> pool_err s = None \<Longrightarrow>
    pool_step n strip rename final s (s\<lparr>hand := (hand s)(k := job_calls j), queue := (queue s)(k := q)\<rparr>)"
| drop_job: "k < n \<Longrightarrow> hand s k = [] \<Longrightarrow> queue s k = j # q \<Longrightarrow> pool_err s = Some x \<Longrightarrow>
    pool_step n strip rename final s (s\<lparr>queue := (queue s)(k := q)\<rparr>)"
| work: "k < n \<Longrightarrow> hand s k = c # cs \<Longrightarrow> act c (tree s) = Some d \<Longrightarrow>
    pool_step n strip rename final s (s\<lparr>hand := (hand s)(k := cs), tree := d\<rparr>)"
| fail: "k < n \<Longrightarrow> hand s k = c # cs \<Longrightarrow> act c (tree s) = None \<Longrightarrow>
    pool_step n strip rename final s (s\<lparr>hand := (hand s)(k := []), pool_err := first_err ''write'' (pool_err s)\<rparr>)"

inductive_cases pool_stepE: "pool_step n strip rename final s t"

text \<open>The extraction has returned: the reader has a result and \<^verbatim>\<open>close\<close> has drained the pool.\<close>

definition returned :: "nat \<Rightarrow> extraction \<Rightarrow> bool" where
  "returned n s \<longleftrightarrow> verdict s \<noteq> None \<and> offer s = None \<and> hand s n = [] \<and> idle n s"

definition result_of :: "extraction \<Rightarrow> unit outcome" where
  "result_of s = (case verdict s of Some (Some e) \<Rightarrow> Err e | _ \<Rightarrow> (case pool_err s of None \<Rightarrow> Ok () | Some e \<Rightarrow> Err e))"

section \<open>Work that commutes across queues\<close>

primrec runnable :: "('j \<Rightarrow> 's \<Rightarrow> bool) \<Rightarrow> ('j \<Rightarrow> 's \<Rightarrow> 's) \<Rightarrow> 'j list \<Rightarrow> 's \<Rightarrow> bool" where
  "runnable ok eff [] s = True"
| "runnable ok eff (j # js) s = (ok j s \<and> runnable ok eff js (eff j s))"

lemma runnable_append: "runnable ok eff (as @ bs) s \<longleftrightarrow> runnable ok eff as s \<and> runnable ok eff bs (fold eff as s)"
  by (induction as arbitrary: s) auto

locale sharded =
  fixes eff :: "'j \<Rightarrow> 's \<Rightarrow> 's" and ok :: "'j \<Rightarrow> 's \<Rightarrow> bool" and compat :: "'j \<Rightarrow> 'j \<Rightarrow> bool" and home :: "'j \<Rightarrow> nat"
  assumes commute: "compat i j \<Longrightarrow> eff i (eff j s) = eff j (eff i s)"
    and stable: "compat i j \<Longrightarrow> ok i s \<Longrightarrow> ok j s \<Longrightarrow> ok i (eff j s)"
    and compat_sym: "compat i j \<Longrightarrow> compat j i"
begin

lemma fold_front:
  assumes "\<And>i. i \<in> set as \<Longrightarrow> compat i j"
  shows "fold eff (as @ j # bs) s = fold eff (as @ bs) (eff j s)"
  using assms
proof (induction as arbitrary: s)
  case (Cons a as)
  have "eff a (eff j s) = eff j (eff a s)" using Cons.prems [of a] by (intro commute) auto
  with Cons.IH [of "eff a s"] Cons.prems show ?case by simp
qed simp

lemma runnable_stable:
  "runnable ok eff js s \<Longrightarrow> ok i s \<Longrightarrow> (\<And>j. j \<in> set js \<Longrightarrow> compat j i) \<Longrightarrow> runnable ok eff js (eff i s)"
proof (induction js arbitrary: s)
  case (Cons j js)
  have c: "compat j i" using Cons.prems(3) by simp
  have "ok j (eff i s)" using Cons.prems c by (auto intro: stable)
  moreover have "ok i (eff j s)" using Cons.prems compat_sym [OF c] by (auto intro: stable)
  then have "runnable ok eff js (eff i (eff j s))" using Cons by simp
  ultimately show ?case using commute [OF c] by simp
qed simp

lemma first_of_queue:
  assumes "filter (\<lambda>i. home i = k) r = j # q"
  obtains as bs where "r = as @ j # bs" "home j = k" "\<And>i. i \<in> set as \<Longrightarrow> home i \<noteq> k" "filter (\<lambda>i. home i = k) (as @ bs) = q"
proof -
  from assms obtain as bs where "r = as @ j # bs" "\<forall>u\<in>set as. home u \<noteq> k" "home j = k" "q = filter (\<lambda>i. home i = k) bs"
    by (auto simp: filter_eq_Cons_iff)
  moreover from this have "filter (\<lambda>i. home i = k) as = []" by (auto simp: filter_empty_conv)
  ultimately show ?thesis using that [of as bs] by auto
qed

lemma queues_empty:
  assumes "\<And>k. filter (\<lambda>i. home i = k) r = []"
  shows "r = []"
proof (cases r)
  case (Cons a l)
  then show ?thesis using assms [of "home a"] by simp
qed

text \<open>The schedule-independent part of a state: every queue can run on its own, and queues do not conflict.\<close>

definition settled :: "'j list \<Rightarrow> 's \<Rightarrow> bool" where
  "settled r s \<longleftrightarrow> (\<forall>k. runnable ok eff (filter (\<lambda>i. home i = k) r) s) \<and>
     (\<forall>i \<in> set r. \<forall>j \<in> set r. home i \<noteq> home j \<longrightarrow> compat i j)"

lemma settled_ok:
  assumes "settled r s" "filter (\<lambda>i. home i = k) r = j # q"
  shows "ok j s"
  using assms unfolding settled_def by (metis runnable.simps(2))

lemma settled_work:
  assumes "settled r s" "filter (\<lambda>i. home i = k) r = j # q"
  obtains r' where "settled r' (eff j s)" "fold eff r' (eff j s) = fold eff r s" "set r' \<subseteq> set r"
    "\<And>l. filter (\<lambda>i. home i = l) r' = (if l = k then q else filter (\<lambda>i. home i = l) r)"
proof -
  from first_of_queue [OF assms(2)] obtain as bs where ab: "r = as @ j # bs" "home j = k"
    "\<And>i. i \<in> set as \<Longrightarrow> home i \<noteq> k" "filter (\<lambda>i. home i = k) (as @ bs) = q" by blast
  have c: "compat i j" if "i \<in> set r" "home i \<noteq> k" for i
    using assms(1) that ab unfolding settled_def by (metis in_set_conv_decomp)
  have f: "filter (\<lambda>i. home i = l) (as @ bs) = (if l = k then q else filter (\<lambda>i. home i = l) r)" for l
    using ab by auto
  have "runnable ok eff (filter (\<lambda>i. home i = l) (as @ bs)) (eff j s)" for l
  proof (cases "l = k")
    case True
    then show ?thesis using assms f [of l] unfolding settled_def by (metis runnable.simps(2))
  next
    case False
    have "runnable ok eff (filter (\<lambda>i. home i = l) r) s" using assms(1) by (simp add: settled_def)
    from runnable_stable [OF this settled_ok [OF assms]] c False show ?thesis unfolding f by auto
  qed
  then have "settled (as @ bs) (eff j s)" using assms(1) unfolding settled_def ab(1) by auto
  moreover have "fold eff (as @ bs) (eff j s) = fold eff r s" unfolding ab(1) using fold_front [of as j bs s] c ab(1,3) by simp
  moreover have "set (as @ bs) \<subseteq> set r" by (auto simp: ab(1))
  ultimately show thesis using f by (rule that)
qed

lemma settled_append:
  assumes "settled r s" "\<And>i. i \<in> set new \<Longrightarrow> home i = k" "runnable ok eff new (fold eff (filter (\<lambda>i. home i = k) r) s)"
    "\<And>i j. i \<in> set r \<Longrightarrow> j \<in> set new \<Longrightarrow> home i \<noteq> k \<Longrightarrow> compat i j"
  shows "settled (r @ new) s"
proof -
  have "filter (\<lambda>i. home i = l) new = (if l = k then new else [])" for l
    using assms(2) by (auto simp: filter_id_conv filter_empty_conv)
  then have "runnable ok eff (filter (\<lambda>i. home i = l) (r @ new)) s" for l
    using assms(1,3) by (auto simp: settled_def runnable_append)
  then show ?thesis using assms(1,2,4) compat_sym unfolding settled_def by (auto; metis)
qed

end

section \<open>Calls as effects\<close>

fun is_file :: "call \<Rightarrow> bool" where
  "is_file (Mkdir _) = False" | "is_file (Chmod_Dir _ _) = False" | "is_file _ = True"

fun is_chmod :: "call \<Rightarrow> bool" where
  "is_chmod (Chmod_Dir _ _) = True" | "is_chmod _ = False"

definition change :: "(string \<Rightarrow> nat \<Rightarrow> int \<Rightarrow> node) \<Rightarrow> node \<Rightarrow> node" where
  "change f x = (case x of File c m t \<Rightarrow> f c m t | _ \<Rightarrow> x)"

fun eff :: "call \<Rightarrow> (path \<Rightarrow> node option) \<Rightarrow> path \<Rightarrow> node option" where
  "eff (Mkdir p) m = (if m p = None then m(p \<mapsto> Directory 493) else m)"
| "eff (Chmod_Dir p mode) m = m(p \<mapsto> Directory mode)"
| "eff (Remove p) m = m(p := None)"
| "eff (Open p mode) m = m(p \<mapsto> File [] mode 0)"
| "eff (Write p c) m = m(p := map_option (change (\<lambda>_ k t. File c k t)) (m p))"
| "eff (Chmod p mode) m = m(p := map_option (change (\<lambda>c _ t. File c mode t)) (m p))"
| "eff (Chtimes p t) m = m(p := map_option (change (\<lambda>c k _. File c k t)) (m p))"

definition dir_node :: "node option \<Rightarrow> bool" where "dir_node x \<longleftrightarrow> (\<exists>k. x = Some (Directory k))"
definition file_node :: "node option \<Rightarrow> bool" where "file_node x \<longleftrightarrow> (\<exists>c k t. x = Some (File c k t))"

lemma node_simps [simp]: "dir_node (Some (Directory k))" "\<not> dir_node None" "\<not> dir_node (Some (File c k t))" "\<not> dir_node (Some (Symlink l))"
  "file_node (Some (File c k t))" "\<not> file_node None" "file_node x \<Longrightarrow> \<not> dir_node x"
  "dir_node (map_option (change (\<lambda>c k t. File (f c k t) (g c k t) (h c k t))) x) \<longleftrightarrow> dir_node x"
  "file_node (map_option (change (\<lambda>c k t. File (f c k t) (g c k t) (h c k t))) x) \<longleftrightarrow> file_node x"
  by (auto simp: dir_node_def file_node_def change_def) (cases x; auto split: node.splits)+

definition dirs_to :: "(path \<Rightarrow> node option) \<Rightarrow> path \<Rightarrow> bool" where
  "dirs_to m p \<longleftrightarrow> (\<forall>q. q \<noteq> [] \<longrightarrow> strict_prefix q p \<longrightarrow> dir_node (m q))"

fun ok :: "call \<Rightarrow> (path \<Rightarrow> node option) \<Rightarrow> bool" where
  "ok (Mkdir p) m \<longleftrightarrow> dirs_to m p \<and> (m p = None \<or> dir_node (m p))"
| "ok (Chmod_Dir p _) m \<longleftrightarrow> dirs_to m p \<and> dir_node (m p)"
| "ok (Remove p) m \<longleftrightarrow> dirs_to m p \<and> \<not> dir_node (m p)"
| "ok (Open p _) m \<longleftrightarrow> dirs_to m p \<and> m p = None"
| "ok (Write p _) m \<longleftrightarrow> dirs_to m p \<and> file_node (m p)"
| "ok (Chmod p _) m \<longleftrightarrow> dirs_to m p \<and> file_node (m p)"
| "ok (Chtimes p _) m \<longleftrightarrow> dirs_to m p \<and> file_node (m p)"

text \<open>Two calls do not get in each other's way: no file is on the path of the other, and no directory is set to two modes.\<close>

definition compatible :: "call \<Rightarrow> call \<Rightarrow> bool" where
  "compatible c c' \<longleftrightarrow> (is_file c \<longrightarrow> \<not> prefix (loc c) (loc c')) \<and> (is_file c' \<longrightarrow> \<not> prefix (loc c') (loc c)) \<and>
     (is_chmod c \<longrightarrow> is_chmod c' \<longrightarrow> loc c \<noteq> loc c')"

lemma eff_other: "q \<noteq> loc c \<Longrightarrow> eff c m q = m q"
  by (cases c) auto

lemma eff_local: "m (loc c) = m' (loc c) \<Longrightarrow> eff c m (loc c) = eff c m' (loc c)"
  by (cases c) auto

lemma eff_commute:
  assumes "compatible c c'"
  shows "eff c (eff c' m) = eff c' (eff c m)"
proof (cases "loc c = loc c'")
  case False
  show ?thesis
  proof
    fix q
    show "eff c (eff c' m) q = eff c' (eff c m) q"
      using False eff_other [of q c] eff_other [of q c'] eff_local [of "eff c' m" c m] eff_local [of "eff c m" c' m]
        eff_other [of "loc c" c'] eff_other [of "loc c'" c] by (cases "q = loc c"; cases "q = loc c'") auto
  qed
next
  case True
  then show ?thesis using assms unfolding compatible_def by (cases c; cases c') auto
qed

lemma eff_dir: "\<not> is_file c \<Longrightarrow> ok c m \<Longrightarrow> dir_node (eff c m (loc c))"
  by (cases c) auto

lemma ok_cong:
  assumes "ok c m" "dirs_to m' (loc c)" "m' (loc c) = m (loc c)"
  shows "ok c m'"
  using assms by (cases c) auto

lemma ok_stable:
  assumes "compatible c c'" "ok c m" "ok c' m"
  shows "ok c (eff c' m)"
proof -
  have d: "dirs_to m (loc c)" using assms(2) by (cases c) auto
  have "dirs_to (eff c' m) (loc c)"
    unfolding dirs_to_def
  proof (intro allI impI)
    fix q assume q: "q \<noteq> []" "strict_prefix q (loc c)"
    show "dir_node (eff c' m q)"
    proof (cases "q = loc c'")
      case True
      then have "\<not> is_file c'" using assms(1) q(2) by (auto simp: compatible_def strict_prefix_def)
      then show ?thesis using eff_dir assms(3) True by blast
    next
      case False
      then show ?thesis using d q by (simp add: eff_other dirs_to_def)
    qed
  qed
  note dd = this
  show ?thesis
  proof (cases "loc c = loc c'")
    case False
    then show ?thesis by (intro ok_cong [OF assms(2) dd] eff_other)
  next
    case True
    then have "\<not> is_file c" "\<not> is_file c'" using assms(1) by (auto simp: compatible_def)
    then show ?thesis using eff_dir [OF _ assms(3)] True dd by (cases c) auto
  qed
qed

interpretation calls: sharded "\<lambda>x. eff (snd x)" "\<lambda>x. ok (snd x)" "\<lambda>x y. compatible (snd x) (snd y)" fst
proof
  fix i j :: "nat \<times> call" and s
  show "compatible (snd i) (snd j) \<Longrightarrow> eff (snd i) (eff (snd j) s) = eff (snd j) (eff (snd i) s)" by (rule eff_commute)
  show "compatible (snd i) (snd j) \<Longrightarrow> ok (snd i) s \<Longrightarrow> ok (snd j) s \<Longrightarrow> ok (snd i) (eff (snd j) s)" by (rule ok_stable)
  show "compatible (snd i) (snd j) \<Longrightarrow> compatible (snd j) (snd i)" by (auto simp: compatible_def)
qed

section \<open>Calls on a disk\<close>

lemma dirs_above_map: "dirs_above d p \<longleftrightarrow> dirs_to (map_of d) p"
proof -
  have "is_dir d q \<longleftrightarrow> dir_node (map_of d q)" for q
    by (cases "map_of d q") (auto simp: is_dir_def dir_node_def split: node.splits)
  then show ?thesis by (auto simp: dirs_above_def dirs_to_def)
qed

lemma resolve_dirs:
  "list_all fine_name cs \<Longrightarrow> (\<And>q. q \<noteq> [] \<Longrightarrow> prefix q cs \<Longrightarrow> dir_node (map_of d (acc @ q))) \<Longrightarrow> resolve k d acc cs = Some (acc @ cs)"
proof (induction cs arbitrary: acc)
  case (Cons c cs)
  have "dir_node (map_of d (acc @ [c]))" using Cons.prems(2) [of "[c]"] by simp
  moreover have "dir_node (map_of d ((acc @ [c]) @ q))" if "q \<noteq> []" "prefix q cs" for q
    using Cons.prems(2) [of "c # q"] that by simp
  ultimately show ?case using Cons.IH [of "acc @ [c]"] Cons.prems(1) by (auto simp: dir_node_def fine_name_def proper_def)
qed simp

lemma not_rooted: "list_all fine_name p \<Longrightarrow> \<not> rooted_path p"
  by (cases p) (auto simp: rooted_path_def fine_name_def proper_def)

lemma fine_butlast: "list_all fine_name p \<Longrightarrow> list_all fine_name (butlast p)"
  by (auto simp: list_all_iff dest: in_set_butlastD)

lemma root_resolve_parent:
  assumes "p \<noteq> []" "list_all fine_name p" "dirs_to (map_of d) p"
  shows "root_resolve d (butlast p) = Some (butlast p)"
proof -
  have "resolve root_links d [] (butlast p) = Some ([] @ butlast p)"
    using assms(3) prefix_butlast [OF assms(1)] by (intro resolve_dirs fine_butlast assms(2)) (simp add: dirs_to_def)
  then show ?thesis using not_rooted [OF fine_butlast [OF assms(2)]] by (simp add: root_resolve_def)
qed

lemma root_resolve_dir:
  assumes "p \<noteq> []" "list_all fine_name p" "dirs_to (map_of d) p" "dir_node (map_of d p)"
  shows "root_resolve d p = Some p"
proof -
  have "resolve root_links d [] p = Some ([] @ p)"
    using assms(3,4) by (intro resolve_dirs assms(2)) (auto simp: dirs_to_def strict_prefix_def)
  then show ?thesis using not_rooted [OF assms(2)] by (simp add: root_resolve_def)
qed

lemma entry_at_fine:
  assumes "p \<noteq> []" "list_all fine_name p" "dirs_to (map_of d) p"
  shows "entry_at d p = Some p"
proof -
  have "proper (last p)" using assms(1,2) by (auto simp: list_all_iff fine_name_def)
  moreover have "butlast p = [] \<or> is_dir d (butlast p)"
    using assms(1,3) by (metis append_butlast_last_id dirs_above_def dirs_above_map strict_prefixI')
  ultimately show ?thesis using assms by (simp add: entry_at_def root_resolve_parent)
qed

lemma root_walk_dir:
  assumes "p \<noteq> []" "list_all fine_name p" "dirs_to (map_of d) p" "dir_node (map_of d p)"
  shows "root_walk d p = Some ([], p)"
proof -
  have "mk_walk root_links d [] (p @ []) = mk_walk root_links d ([] @ p) []"
    using assms(2-4) by (intro mk_walk_dirs) (auto simp: dirs_to_def strict_prefix_def is_dir_def dir_node_def)
  then show ?thesis using not_rooted [OF assms(2)] by (simp add: root_walk_def)
qed

lemma act_ok:
  assumes "ok c (map_of d)" "loc c \<noteq> []" "list_all fine_name (loc c)"
  shows "\<exists>d'. act c d = Some d' \<and> map_of d' = eff c (map_of d)"
proof (cases c)
  case (Mkdir p)
  show ?thesis
  proof (cases "map_of d p")
    case None
    then show ?thesis using assms Mkdir root_walk_new [of p d] by (simp add: dirs_above_map update_conv')
  next
    case (Some x)
    then show ?thesis using assms Mkdir root_walk_dir [of p d] by simp
  qed
next
  case (Chmod_Dir p mode)
  then show ?thesis using assms root_resolve_dir [of p d] by (auto simp: dir_node_def update_conv')
next
  case (Remove p)
  then show ?thesis using assms entry_at_fine [of p d] by (cases "map_of d p") (auto simp: dir_node_def delete_conv' split: node.splits)
next
  case (Open p mode)
  then show ?thesis using assms entry_at_fine [of p d] by (auto simp: update_conv')
next
  case (Write p c')
  then show ?thesis using assms entry_at_fine [of p d] by (auto simp: on_file_def file_node_def update_conv' change_def)
next
  case (Chmod p mode)
  then show ?thesis using assms entry_at_fine [of p d] by (auto simp: on_file_def file_node_def update_conv' change_def)
next
  case (Chtimes p t)
  then show ?thesis using assms entry_at_fine [of p d] by (auto simp: on_file_def file_node_def update_conv' change_def)
qed

end
