(* ===== verification/Extract.thy ===== *)
theory Extract
  imports Pool
begin

text \<open>
  What the calls of one entry do, alone and as part of a stream: the serial extraction in terms of effects, and the streams in
  which no file is in the way of another entry.
\<close>

section \<open>What the calls of one entry do\<close>

lemma made_dirs: "q \<in> set (tl (prefixes p)) \<longleftrightarrow> q \<noteq> [] \<and> prefix q p"
  by (cases p) (auto simp: prefix_Cons)

lemma tl_prefixes_snoc: "tl (prefixes (p @ [x])) = tl (prefixes p) @ [p @ [x]]"
  by (cases p) simp_all

lemma parents_iff: "p \<noteq> [] \<Longrightarrow> q \<in> set (tl (prefixes (butlast p))) \<longleftrightarrow> q \<noteq> [] \<and> strict_prefix q p"
  unfolding made_dirs using prefix_butlast [of p q] by (metis append_butlast_last_id prefix_snoc strict_prefix_def)

definition vacant :: "(path \<Rightarrow> node option) \<Rightarrow> path \<Rightarrow> bool" where
  "vacant m q \<longleftrightarrow> m q = None \<or> dir_node (m q)"

lemma fold_mkdirs:
  "fold eff (map Mkdir (tl (prefixes p))) m = (\<lambda>q. if q \<in> set (tl (prefixes p)) \<and> m q = None then Some (Directory 493) else m q)"
proof (induction p rule: rev_induct)
  case (snoc x p)
  then show ?case by (auto simp: tl_prefixes_snoc fun_eq_iff)
qed simp

lemma mkdirs_dir:
  assumes "list_all (vacant m) (tl (prefixes p))" "q \<noteq> []" "prefix q p"
  shows "dir_node (fold eff (map Mkdir (tl (prefixes p))) m q)"
proof -
  have "q \<in> set (tl (prefixes p))" using assms(2,3) by (simp add: made_dirs)
  moreover from this have "vacant m q" using assms(1) by (simp add: list_all_iff)
  ultimately show ?thesis unfolding fold_mkdirs vacant_def by auto
qed

lemma runnable_mkdirs:
  "list_all (vacant m) (tl (prefixes p)) \<Longrightarrow> runnable ok eff (map Mkdir (tl (prefixes p))) m"
proof (induction p rule: rev_induct)
  case (snoc x p)
  then have v: "list_all (vacant m) (tl (prefixes p))" "vacant m (p @ [x])" by (simp_all add: tl_prefixes_snoc)
  have "dirs_to (fold eff (map Mkdir (tl (prefixes p))) m) (p @ [x])"
    using mkdirs_dir [OF v(1)] unfolding dirs_to_def by (auto simp: strict_prefix_def simp del: fold_map)
  moreover have "p @ [x] \<notin> set (tl (prefixes p))" by (auto simp: made_dirs dest: prefix_length_le)
  then have "fold eff (map Mkdir (tl (prefixes p))) m (p @ [x]) = m (p @ [x])" by (simp add: fold_mkdirs del: fold_map)
  ultimately show ?case using snoc.IH [OF v(1)] v(2)
    by (auto simp: tl_prefixes_snoc runnable_append vacant_def simp del: fold_map)
qed simp

lemma fold_file:
  assumes "p \<noteq> []"
  shows "fold eff (writeFileBytes p mode t data) m =
    (\<lambda>q. if q = p then Some (File data mode t) else if q \<in> set (tl (prefixes (butlast p))) \<and> m q = None then Some (Directory 493) else m q)"
  by (simp add: writeFileBytes_def fold_mkdirs fun_eq_iff change_def)

lemma runnable_file:
  assumes "p \<noteq> []" "list_all (vacant m) (tl (prefixes (butlast p)))" "\<not> dir_node (m p)"
  shows "runnable ok eff (writeFileBytes p mode t data) m"
proof -
  let ?m = "fold eff (map Mkdir (tl (prefixes (butlast p)))) m"
  have np: "p \<notin> set (tl (prefixes (butlast p)))" using parents_iff [OF assms(1), of p] by simp
  have "dir_node (?m q)" if "q \<noteq> []" "strict_prefix q p" for q
    using mkdirs_dir [OF assms(2)] parents_iff [OF assms(1), of q] that by (simp add: made_dirs)
  then have d: "dirs_to (?m(p := x)) p" for x by (simp add: dirs_to_def strict_prefix_def)
  have "?m p = m p" using np by (simp add: fold_mkdirs)
  then show ?thesis
    using runnable_mkdirs [OF assms(2)] d [of "m p"] d [of None] d assms(3)
    by (simp add: writeFileBytes_def runnable_append fun_upd_idem change_def del: fold_map)
qed

lemma fold_dir:
  "fold eff (dir_calls p mode) m =
    (\<lambda>q. if q = p then Some (Directory mode) else if q \<in> set (tl (prefixes p)) \<and> m q = None then Some (Directory 493) else m q)"
  by (simp add: dir_calls_def fold_mkdirs fun_eq_iff)

lemma runnable_dir:
  assumes "p \<noteq> []" "list_all (vacant m) (tl (prefixes p))"
  shows "runnable ok eff (dir_calls p mode) m"
proof -
  have "dirs_to (fold eff (map Mkdir (tl (prefixes p))) m) p" "dir_node (fold eff (map Mkdir (tl (prefixes p))) m p)"
    using mkdirs_dir [OF assms(2)] assms(1) by (auto simp: dirs_to_def strict_prefix_def)
  then show ?thesis using runnable_mkdirs [OF assms(2)] by (simp add: dir_calls_def runnable_append del: fold_map)
qed

section \<open>The serial extraction\<close>

lemma mk_walk_make:
  "list_all fine_name cs \<Longrightarrow> (\<And>q. q \<noteq> [] \<Longrightarrow> prefix q cs \<Longrightarrow> vacant (map_of d) (acc @ q)) \<Longrightarrow>
   \<exists>qs. mk_walk k d acc cs = Some (qs, acc @ cs) \<and> set qs = {acc @ q |q. q \<noteq> [] \<and> prefix q cs \<and> map_of d (acc @ q) = None}"
proof (induction cs arbitrary: acc)
  case (Cons c cs)
  have "vacant (map_of d) ((acc @ [c]) @ q)" if "q \<noteq> []" "prefix q cs" for q
    using Cons.prems(2) [of "c # q"] that by simp
  with Cons.prems(1) obtain qs where qs: "mk_walk k d (acc @ [c]) cs = Some (qs, (acc @ [c]) @ cs)"
      "set qs = {(acc @ [c]) @ q |q. q \<noteq> [] \<and> prefix q cs \<and> map_of d ((acc @ [c]) @ q) = None}"
    using Cons.IH [of "acc @ [c]"] by auto
  have split: "{acc @ q |q. q \<noteq> [] \<and> prefix q (c # cs) \<and> map_of d (acc @ q) = None} =
     (if map_of d (acc @ [c]) = None then {acc @ [c]} else {}) \<union> set qs"
    unfolding qs(2) by (auto simp: prefix_Cons)
  from Cons.prems(2) [of "[c]"] have "map_of d (acc @ [c]) = None \<or> (\<exists>k. map_of d (acc @ [c]) = Some (Directory k))"
    by (simp add: vacant_def dir_node_def)
  then show ?case
    unfolding split using Cons.prems(1) qs(1) by (auto simp: fine_name_def proper_def)
qed simp

lemma each_mkdir:
  "fates w = [] \<Longrightarrow> \<exists>v. each (\<lambda>q. sys (AList.update q (Directory 493))) qs w = (Ok (), v) \<and> fates v = [] \<and>
     map_of (disk v) = (\<lambda>r. if r \<in> set qs then Some (Directory 493) else map_of (disk w) r)"
proof (induction qs arbitrary: w)
  case Nil
  then show ?case by (simp add: sret_def)
next
  case (Cons q qs)
  let ?w = "w\<lparr>disk := AList.update q (Directory 493) (disk w)\<rparr>"
  from Cons.IH [of ?w] Cons.prems obtain v where v: "each (\<lambda>q. sys (AList.update q (Directory 493))) qs ?w = (Ok (), v)" "fates v = []"
      "map_of (disk v) = (\<lambda>r. if r \<in> set qs then Some (Directory 493) else map_of (disk ?w) r)" by auto
  have "sys (AList.update q (Directory 493)) w = (Ok (), ?w)" using Cons.prems by (simp add: sys_def)
  then show ?case using v by (auto simp: sbind_def update_conv' fun_eq_iff)
qed

lemma mkdir_all_clear:
  assumes "fates w = []" "list_all fine_name p" "list_all (vacant (map_of (disk w))) (tl (prefixes p))"
  shows "\<exists>u. mkdir_all p w = (Ok p, u) \<and> fates u = [] \<and> map_of (disk u) = fold eff (map Mkdir (tl (prefixes p))) (map_of (disk w))"
proof -
  have "vacant (map_of (disk w)) ([] @ q)" if "q \<noteq> []" "prefix q p" for q
    using assms(3) that by (auto simp: list_all_iff made_dirs)
  from mk_walk_make [OF assms(2) this, of root_links] obtain qs where
    qs: "mk_walk root_links (disk w) [] p = Some (qs, p)" "set qs = {q. q \<noteq> [] \<and> prefix q p \<and> map_of (disk w) q = None}" by auto
  from each_mkdir [OF assms(1), of qs] obtain u where "each (\<lambda>q. sys (AList.update q (Directory 493))) qs w = (Ok (), u)" "fates u = []"
      "map_of (disk u) = (\<lambda>r. if r \<in> set qs then Some (Directory 493) else map_of (disk w) r)" by blast
  then show ?thesis
    using not_rooted [OF assms(2)] qs
    by (auto simp: mkdir_all_def root_walk_def sbind_def look_def sret_def fold_mkdirs made_dirs fun_eq_iff simp del: fold_map)
qed

lemma entry_path_clear:
  assumes "fates w = []" "p \<noteq> []" "list_all fine_name p" "list_all (vacant (map_of (disk w))) (tl (prefixes (butlast p)))"
  shows "\<exists>u. entry_path p w = (Ok p, u) \<and> fates u = [] \<and>
     map_of (disk u) = fold eff (map Mkdir (tl (prefixes (butlast p)))) (map_of (disk w))"
proof -
  have "proper (last p)" using assms(2,3) by (auto simp: list_all_iff fine_name_def)
  then show ?thesis
    using mkdir_all_clear [OF assms(1) fine_butlast [OF assms(3)] assms(4)] assms(2)
    by (auto simp: entry_path_def sbind_def sret_def)
qed

lemma root_remove_clear:
  assumes "fates u = []" "\<not> dir_node (map_of (disk u) p)"
  shows "\<exists>t. root_remove p u = (Ok (), t) \<and> fates t = [] \<and> map_of (disk t) = (map_of (disk u))(p := None)"
  using assms
  by (cases "map_of (disk u) p" rule: option.exhaust; cases "the (map_of (disk u) p)")
    (auto simp: root_remove_def sbind_def look_def sret_def sys_def delete_conv' fun_eq_iff)

text \<open>The way an entry is replaced: its directories are made and the old entry goes.\<close>

lemma clear_entry:
  assumes "fates w = []" "p \<noteq> []" "list_all fine_name p" "list_all (vacant (map_of (disk w))) (tl (prefixes (butlast p)))"
    "\<not> dir_node (map_of (disk w) p)"
  shows "\<exists>t. sbind (entry_path p) (\<lambda>q. sbind (root_remove q) (\<lambda>_. k q)) w = k p t \<and> fates t = [] \<and>
     map_of (disk t) = (fold eff (map Mkdir (tl (prefixes (butlast p)))) (map_of (disk w)))(p := None)"
proof -
  from entry_path_clear [OF assms(1-4)] obtain u where u: "entry_path p w = (Ok p, u)" "fates u = []"
    "map_of (disk u) = fold eff (map Mkdir (tl (prefixes (butlast p)))) (map_of (disk w))" by blast
  have "p \<notin> set (tl (prefixes (butlast p)))" using parents_iff [OF assms(2), of p] by simp
  then have "\<not> dir_node (map_of (disk u) p)" using u(3) assms(5) by (simp add: fold_mkdirs del: fold_map)
  from root_remove_clear [OF u(2) this] obtain t where "root_remove p u = (Ok (), t)" "fates t = []" "map_of (disk t) = (map_of (disk u))(p := None)" by blast
  then show ?thesis using u by (auto simp: sbind_def)
qed

lemma writeEntry_clear:
  assumes "fates w = []" "p \<noteq> []" "list_all fine_name p" "list_all (vacant (map_of (disk w))) (tl (prefixes (butlast p)))"
    "\<not> dir_node (map_of (disk w) p)"
  shows "\<exists>v. writeEntry p data mode t w = (Ok (), v) \<and> fates v = [] \<and>
     map_of (disk v) = fold eff (writeFileBytes p mode t data) (map_of (disk w))"
proof -
  from clear_entry [OF assms, of "\<lambda>q. sbind (sys (AList.update q (File [] mode 0))) (\<lambda>_.
     sbind (sys_write (\<lambda>c. AList.update q (File c mode 0)) data) (\<lambda>_. sys (AList.update q (File data mode t))))"]
  obtain x where x: "writeEntry p data mode t w = sbind (sys (AList.update p (File [] mode 0))) (\<lambda>_.
     sbind (sys_write (\<lambda>c. AList.update p (File c mode 0)) data) (\<lambda>_. sys (AList.update p (File data mode t)))) x" "fates x = []"
    "map_of (disk x) = (fold eff (map Mkdir (tl (prefixes (butlast p)))) (map_of (disk w)))(p := None)"
    unfolding writeEntry_def by blast
  then show ?thesis
    using assms(2) by (auto simp: sbind_def sys_def sys_write_def update_conv' fold_file fold_mkdirs fun_eq_iff simp del: fold_map)
qed

lemma write_dir_clear:
  assumes "fates w = []" "p \<noteq> []" "list_all fine_name p" "list_all (vacant (map_of (disk w))) (tl (prefixes p))"
  shows "\<exists>v. write_dir p mode w = (Ok (), v) \<and> fates v = [] \<and> map_of (disk v) = fold eff (dir_calls p mode) (map_of (disk w))"
  using mkdir_all_clear [OF assms(1,3,4)] assms(2)
  by (auto simp: write_dir_def sbind_def sys_def update_conv' fold_dir fold_mkdirs fun_eq_iff simp del: fold_map)

section \<open>Extraction sees the disk as a map\<close>

definition same :: "world \<Rightarrow> world \<Rightarrow> bool" where
  "same w w' \<longleftrightarrow> map_of (disk w) = map_of (disk w') \<and> fates w = [] \<and> fates w' = []"

definition extensional :: "'a step \<Rightarrow> bool" where
  "extensional m \<longleftrightarrow> (\<forall>w w'. same w w' \<longrightarrow> fst (m w) = fst (m w') \<and> fst (m w) \<noteq> Killed \<and> same (snd (m w)) (snd (m w')))"

named_theorems ext_intros \<open>computations that depend on the disk as a map only\<close>

lemma ext_basic [ext_intros]: "extensional (sret a)" "extensional (serr e)"
  by (simp_all add: extensional_def sret_def serr_def)

lemma ext_look:
  assumes "\<And>d d'. map_of d = map_of d' \<Longrightarrow> f d = f d'"
  shows "extensional (look f)"
  unfolding extensional_def
proof (intro allI impI)
  fix w w' assume s: "same w w'"
  then have "f (disk w) = f (disk w')" unfolding same_def by (intro assms) (elim conjE)
  with s show "fst (look f w) = fst (look f w') \<and> fst (look f w) \<noteq> Killed \<and> same (snd (look f w)) (snd (look f w'))" by (simp add: look_def)
qed

lemma ext_sys:
  assumes "\<And>d d'. map_of d = map_of d' \<Longrightarrow> map_of (g d) = map_of (g d')"
  shows "extensional (sys g)"
  unfolding extensional_def
proof (intro allI impI)
  fix w w' assume s: "same w w'"
  then have "map_of (g (disk w)) = map_of (g (disk w'))" unfolding same_def by (intro assms) (elim conjE)
  with s show "fst (sys g w) = fst (sys g w') \<and> fst (sys g w) \<noteq> Killed \<and> same (snd (sys g w)) (snd (sys g w'))" by (simp add: sys_def same_def)
qed

lemma ext_put [ext_intros]: "extensional (sys (AList.update q x))" "extensional (sys (AList.delete q))"
  "extensional (sys_write (\<lambda>c. AList.update q (h c)) b)" "extensional (sys (\<lambda>d. if q = [] then d else AList.update q x d))"
  by (auto intro!: ext_sys simp: update_conv' delete_conv')
    (auto simp: extensional_def same_def sys_write_def update_conv')

lemma ext_bind [ext_intros]:
  assumes "extensional m" "\<And>a. extensional (f a)"
  shows "extensional (sbind m f)"
  unfolding extensional_def
proof (intro allI impI)
  fix w w' assume s: "same w w'"
  obtain x u where m: "m w = (x, u)" by fastforce
  obtain x' u' where m': "m w' = (x', u')" by fastforce
  have e: "x = x'" "x \<noteq> Killed" "same u u'" using assms(1) s m m' unfolding extensional_def by (metis fst_conv snd_conv)+
  show "fst (sbind m f w) = fst (sbind m f w') \<and> fst (sbind m f w) \<noteq> Killed \<and> same (snd (sbind m f w)) (snd (sbind m f w'))"
  proof (cases x)
    case (Ok a)
    then show ?thesis using m m' e assms(2) [of a, unfolded extensional_def, rule_format, OF e(3)] by (auto simp: sbind_def)
  qed (use m m' e in \<open>simp_all add: sbind_def\<close>)
qed

lemma ext_if [ext_intros]: "extensional m \<Longrightarrow> extensional n \<Longrightarrow> extensional (if b then m else n)"
  by simp

lemma ext_each [ext_intros]: "(\<And>x. extensional (f x)) \<Longrightarrow> extensional (each f xs)"
  by (induction xs) (auto intro: ext_intros)

lemma mk_walk_cong: "map_of d = map_of d' \<Longrightarrow> mk_walk k d acc cs = mk_walk k d' acc cs"
  by (induction k d acc cs rule: mk_walk.induct) (auto split: option.splits node.splits nat.splits)

lemma resolve_cong: "map_of d = map_of d' \<Longrightarrow> resolve k d acc cs = resolve k d' acc cs"
  by (induction k d acc cs rule: resolve.induct) (auto split: option.splits node.splits nat.splits)

lemma root_walk_cong: "map_of d = map_of d' \<Longrightarrow> root_walk d p = root_walk d' p"
  unfolding root_walk_def using mk_walk_cong by metis

lemma root_resolve_cong: "map_of d = map_of d' \<Longrightarrow> root_resolve d p = root_resolve d' p"
  unfolding root_resolve_def using resolve_cong by metis

lemma children_cong:
  assumes "map_of d = map_of d'"
  shows "has_children d q = has_children d' q"
proof -
  have "set (map fst d) = set (map fst d')" using arg_cong [OF assms, of dom] by (simp add: dom_map_of_conv_image_fst)
  then show ?thesis unfolding has_children_def list_ex_iff by simp
qed

lemma ext_files [ext_intros]: "extensional (mkdir_all p)" "extensional (entry_path p)" "extensional (root_remove q)"
proof -
  have w: "extensional (look (\<lambda>d. root_walk d p))" for p
    by (rule ext_look) (rule root_walk_cong)
  show m: "extensional (mkdir_all p)" for p
    unfolding mkdir_all_def by (auto intro!: ext_intros w split: option.splits)
  show "extensional (entry_path p)" unfolding entry_path_def by (intro ext_intros m)
  have "extensional (look (\<lambda>d. (map_of d q, has_children d q)))"
  proof (rule ext_look)
    fix d d' :: disk assume d: "map_of d = map_of d'"
    show "(map_of d q, has_children d q) = (map_of d' q, has_children d' q)" using fun_cong [OF d, of q] children_cong [OF d, of q] by simp
  qed
  then show "extensional (root_remove q)"
    unfolding root_remove_def by (auto intro!: ext_intros split: option.splits node.splits)
qed

lemma ext_write_entry: "extensional (write_entry strip rename e)"
proof -
  have l: "extensional (look (\<lambda>d. case root_resolve d p of None \<Rightarrow> None | Some r \<Rightarrow> map_of d (r @ x)))" for p x
  proof (rule ext_look)
    fix d d' :: disk assume d: "map_of d = map_of d'"
    then have "root_resolve d p = root_resolve d' p" by (rule root_resolve_cong)
    then show "(case root_resolve d p of None \<Rightarrow> None | Some r \<Rightarrow> map_of d (r @ x)) = (case root_resolve d' p of None \<Rightarrow> None | Some r \<Rightarrow> map_of d' (r @ x))"
      using d by (auto split: option.splits)
  qed
  have k: "extensional (write_link p t)" for p t
    unfolding write_link_def by (auto intro!: ext_intros l split: option.splits node.splits)
  show ?thesis
    unfolding write_entry_def writeEntry_def write_dir_def write_symlink_def
    by (auto intro!: ext_intros k split: option.splits entry_kind.splits)
qed

lemma ext_untar: "extensional (untarFiltered st strip rename)"
  unfolding untarFiltered_def by (auto intro!: ext_intros ext_write_entry split: option.splits)

section \<open>Streams in which no file is in the way\<close>

text \<open>The path an entry is for, and whether it is a directory.\<close>

definition item :: "nat \<Rightarrow> (string \<Rightarrow> string) option \<Rightarrow> entry \<Rightarrow> (path \<times> bool) option" where
  "item strip rename e =
     (case plan_of strip rename e of
        Skip \<Rightarrow> None
      | Send j \<Rightarrow> Some (path_of (j_name j), False)
      | Make p _ \<Rightarrow> Some (p, True)
      | Inline \<Rightarrow> map_option (\<lambda>name. (path_of name, False)) (entry_name strip rename (e_name e)))"

definition dir_list :: "(path \<times> bool) list \<Rightarrow> path list" where
  "dir_list its = concat (map (\<lambda>(p, b). tl (prefixes (if b then p else butlast p))) its)"

definition file_list :: "(path \<times> bool) list \<Rightarrow> path list" where
  "file_list its = map fst (filter (\<lambda>it. \<not> snd it) its)"

definition tidy :: "(path \<times> bool) list \<Rightarrow> bool" where
  "tidy its \<longleftrightarrow> list_all (\<lambda>(p, _). p \<noteq> [] \<and> list_all fine_name p) its \<and> list_all (\<lambda>p. p \<notin> set (dir_list its)) (file_list its)"

definition open_for :: "(path \<times> bool) list \<Rightarrow> (path \<Rightarrow> node option) \<Rightarrow> bool" where
  "open_for its m \<longleftrightarrow> list_all (vacant m) (dir_list its) \<and> list_all (\<lambda>p. \<not> dir_node (m p)) (file_list its)"

definition items :: "nat \<Rightarrow> (string \<Rightarrow> string) option \<Rightarrow> entry list \<Rightarrow> (path \<times> bool) list" where
  "items strip rename es = List.map_filter (item strip rename) es"

lemma dir_list_iff:
  "q \<in> set (dir_list its) \<longleftrightarrow> (\<exists>p b. (p, b) \<in> set its \<and> q \<in> set (tl (prefixes (if b then p else butlast p))))"
  by (auto simp: dir_list_def)

lemma file_list_iff: "p \<in> set (file_list its) \<longleftrightarrow> (p, False) \<in> set its"
  by (auto simp: file_list_def image_iff)

definition fits :: "(path \<times> bool) list \<Rightarrow> call \<Rightarrow> bool" where
  "fits its c \<longleftrightarrow> loc c \<in> set (if is_file c then file_list its else dir_list its)"

lemma tidyD:
  assumes "tidy its"
  shows "\<And>p b. (p, b) \<in> set its \<Longrightarrow> p \<noteq> [] \<and> list_all fine_name p"
    and "\<And>p. p \<in> set (file_list its) \<Longrightarrow> p \<notin> set (dir_list its)"
  using assms by (auto simp: tidy_def list_all_iff)

lemma dir_list_closed:
  assumes "tidy its" "prefix q p" "q \<noteq> []" "p \<in> set (dir_list its) \<or> p \<in> set (file_list its) \<and> q \<noteq> p"
  shows "q \<in> set (dir_list its)"
  using assms(4)
proof
  assume "p \<in> set (dir_list its)"
  then show ?thesis using assms(2,3) unfolding dir_list_iff made_dirs by (meson prefix_order.trans)
next
  assume p: "p \<in> set (file_list its) \<and> q \<noteq> p"
  then have i: "(p, False) \<in> set its" by (simp add: file_list_iff)
  from tidyD(1) [OF assms(1) i] parents_iff [of p q] assms(2,3) p
  have "q \<in> set (tl (prefixes (butlast p)))" by (simp add: strict_prefix_def)
  with i show ?thesis unfolding dir_list_iff by force
qed

lemma fits_fine:
  assumes "tidy its" "fits its c"
  shows "loc c \<noteq> [] \<and> list_all fine_name (loc c)"
proof (cases "is_file c")
  case True
  then show ?thesis using assms tidyD(1) [OF assms(1), of "loc c" False] by (simp add: fits_def file_list_iff)
next
  case False
  then obtain p b where p: "(p, b) \<in> set its" "loc c \<in> set (tl (prefixes (if b then p else butlast p)))"
    using assms(2) by (auto simp: fits_def dir_list_iff)
  from tidyD(1) [OF assms(1) p(1)] have "list_all fine_name (if b then p else butlast p)" by (simp add: fine_butlast)
  then show ?thesis using p(2) by (auto simp: made_dirs list_all_iff dest: set_mono_prefix)
qed

lemma fits_calls:
  assumes "tidy its" "(p, b) \<in> set its"
  shows "\<not> b \<Longrightarrow> c \<in> set (writeFileBytes p mode t data) \<Longrightarrow> fits its c"
    and "b \<Longrightarrow> c \<in> set (dir_calls p mode) \<Longrightarrow> fits its c"
proof -
  have p: "p \<noteq> []" using tidyD(1) [OF assms] by simp
  have d: "q \<in> set (tl (prefixes (if b then p else butlast p))) \<Longrightarrow> q \<in> set (dir_list its)" for q
    using assms(2) unfolding dir_list_iff by blast
  show "\<not> b \<Longrightarrow> c \<in> set (writeFileBytes p mode t data) \<Longrightarrow> fits its c"
    using d assms(2) by (auto simp: writeFileBytes_def fits_def file_list_iff)
  have "p \<in> set (tl (prefixes p))" using p by (simp add: made_dirs)
  then show "b \<Longrightarrow> c \<in> set (dir_calls p mode) \<Longrightarrow> fits its c"
    using d by (auto simp: dir_calls_def fits_def)
qed

lemma open_for_eff:
  assumes "tidy its" "open_for its m" "fits its c"
  shows "open_for its (eff c m)"
proof -
  have "vacant (eff c m) q" if "q \<in> set (dir_list its)" for q
  proof (cases "q = loc c")
    case True
    then have "\<not> is_file c" using assms(3) that tidyD(2) [OF assms(1)] by (auto simp: fits_def split: if_splits)
    then show ?thesis using True assms(2) that by (cases c) (auto simp: open_for_def list_all_iff vacant_def)
  next
    case False
    then show ?thesis using assms(2) that by (auto simp: open_for_def list_all_iff vacant_def eff_other)
  qed
  moreover have "\<not> dir_node (eff c m p)" if "p \<in> set (file_list its)" for p
  proof (cases "p = loc c")
    case True
    then have "is_file c" using assms(3) that tidyD(2) [OF assms(1)] by (auto simp: fits_def split: if_splits)
    then show ?thesis using True assms(2) that by (cases c) (auto simp: open_for_def list_all_iff)
  next
    case False
    then show ?thesis using assms(2) that by (auto simp: open_for_def list_all_iff eff_other)
  qed
  ultimately show ?thesis by (simp add: open_for_def list_all_iff)
qed

lemma open_for_fold: "tidy its \<Longrightarrow> open_for its m \<Longrightarrow> (\<And>c. c \<in> set cs \<Longrightarrow> fits its c) \<Longrightarrow> open_for its (fold eff cs m)"
  by (induction cs arbitrary: m) (auto simp: open_for_eff)

lemma item_in: "e \<in> set es \<Longrightarrow> item strip rename e = Some it \<Longrightarrow> it \<in> set (items strip rename es)"
  by (force simp: items_def List.map_filter_def image_iff)

definition entry_calls :: "nat \<Rightarrow> (string \<Rightarrow> string) option \<Rightarrow> entry \<Rightarrow> call list" where
  "entry_calls strip rename e =
     (case plan_of strip rename e of Send j \<Rightarrow> job_calls j | Make p mode \<Rightarrow> dir_calls p mode | _ \<Rightarrow> [])"

lemma fits_entry:
  assumes "tidy its" "e \<in> set es" "its = items strip rename es" "c \<in> set (entry_calls strip rename e)"
  shows "fits its c"
proof (cases "plan_of strip rename e")
  case (Send j)
  then have "item strip rename e = Some (path_of (j_name j), False)" by (simp add: item_def)
  from item_in [OF assms(2) this] show ?thesis
    using assms(1,3,4) Send by (auto simp: entry_calls_def job_calls_def intro: fits_calls(1))
next
  case (Make p mode)
  then have "item strip rename e = Some (p, True)" by (simp add: item_def)
  from item_in [OF assms(2) this] show ?thesis
    using assms(1,3,4) Make by (auto simp: entry_calls_def intro: fits_calls(2))
qed (use assms(4) in \<open>auto simp: entry_calls_def\<close>)

lemma dir_list_of: "(p, b) \<in> set its \<Longrightarrow> q \<in> set (tl (prefixes (if b then p else butlast p))) \<Longrightarrow> q \<in> set (dir_list its)"
  unfolding dir_list_iff by blast

lemma open_for_file:
  assumes "tidy its" "open_for its m" "(p, False) \<in> set its"
  shows "p \<noteq> []" "list_all fine_name p" "list_all (vacant m) (tl (prefixes (butlast p)))" "\<not> dir_node (m p)"
proof -
  show "p \<noteq> []" "list_all fine_name p" using tidyD(1) [OF assms(1,3)] by auto
  show "list_all (vacant m) (tl (prefixes (butlast p)))" "\<not> dir_node (m p)"
    using assms(2,3) dir_list_of [OF assms(3)] unfolding open_for_def list_all_iff by (simp_all add: file_list_iff)
qed

lemma open_for_dir:
  assumes "tidy its" "open_for its m" "(p, True) \<in> set its"
  shows "p \<noteq> []" "list_all fine_name p" "list_all (vacant m) (tl (prefixes p))"
proof -
  show "p \<noteq> []" "list_all fine_name p" using tidyD(1) [OF assms(1,3)] by auto
  show "list_all (vacant m) (tl (prefixes p))"
    using assms(2) dir_list_of [OF assms(3)] unfolding open_for_def list_all_iff by simp
qed

lemma entry_runnable:
  assumes "tidy its" "e \<in> set es" "its = items strip rename es" "open_for its m"
  shows "runnable ok eff (entry_calls strip rename e) m"
proof (cases "plan_of strip rename e")
  case (Send j)
  then have "item strip rename e = Some (path_of (j_name j), False)" by (simp add: item_def)
  from open_for_file [OF assms(1,4) item_in [OF assms(2) this, folded assms(3)]] show ?thesis
    using Send by (simp add: entry_calls_def job_calls_def runnable_file)
next
  case (Make p mode)
  then have "item strip rename e = Some (p, True)" by (simp add: item_def)
  from open_for_dir [OF assms(1,4) item_in [OF assms(2) this, folded assms(3)]] show ?thesis
    using Make by (simp add: entry_calls_def runnable_dir)
qed (auto simp: entry_calls_def)

lemma serial_entry:
  assumes "tidy its" "e \<in> set es" "its = items strip rename es" "open_for its (map_of (disk w))" "fates w = []"
    and p: "plan_of strip rename e \<noteq> Inline"
  shows "\<exists>v. write_entry strip rename e w = (Ok (), v) \<and> fates v = [] \<and>
     map_of (disk v) = fold eff (entry_calls strip rename e) (map_of (disk w))"
proof (cases "plan_of strip rename e")
  case (Send j)
  then have i: "item strip rename e = Some (path_of (j_name j), False)" by (simp add: item_def)
  from Send have "write_entry strip rename e = writeEntry (path_of (j_name j)) (j_data j) (j_mode j) (j_mtime j)"
    by (auto simp: plan_of_def write_entry_def split: option.splits entry_kind.splits if_splits)
  with writeEntry_clear [OF assms(5) open_for_file [OF assms(1,4) item_in [OF assms(2) i, folded assms(3)]]] show ?thesis
    using Send by (simp add: entry_calls_def job_calls_def)
next
  case (Make p mode)
  then have i: "item strip rename e = Some (p, True)" by (simp add: item_def)
  from Make have "write_entry strip rename e = write_dir p mode"
    by (auto simp: plan_of_def write_entry_def split: option.splits entry_kind.splits if_splits)
  with write_dir_clear [OF assms(5) open_for_dir [OF assms(1,4) item_in [OF assms(2) i, folded assms(3)]]] show ?thesis
    using Make by (simp add: entry_calls_def)
next
  case Skip
  then have "write_entry strip rename e = sret ()"
    by (auto simp: plan_of_def write_entry_def split: option.splits entry_kind.splits if_splits)
  then show ?thesis using Skip assms(5) by (simp add: entry_calls_def sret_def)
qed (use p in simp)

lemma open_for_put:
  assumes "tidy its" "open_for its m" "(p, False) \<in> set its" "\<not> dir_node x"
  shows "open_for its (m(p := x))"
proof -
  have "p \<notin> set (dir_list its)" using tidyD(2) [OF assms(1)] assms(3) by (simp add: file_list_iff)
  then show ?thesis using assms(2,4) by (auto simp: open_for_def list_all_iff vacant_def)
qed

lemma open_for_mkdirs:
  assumes "tidy its" "open_for its m" "(p, False) \<in> set its"
  shows "open_for its (fold eff (map Mkdir (tl (prefixes (butlast p)))) m)"
proof (rule open_for_fold [OF assms(1,2)])
  fix c assume "c \<in> set (map Mkdir (tl (prefixes (butlast p))))"
  then show "fits its c" using fits_calls(1) [OF assms(1,3), of c] by (simp add: writeFileBytes_def)
qed

lemma write_symlink_clear:
  assumes "fates w = []" "p \<noteq> []" "list_all fine_name p" "list_all (vacant (map_of (disk w))) (tl (prefixes (butlast p)))"
    "\<not> dir_node (map_of (disk w) p)"
  shows "\<exists>v. write_symlink p l w = (Ok (), v) \<and> fates v = [] \<and>
     map_of (disk v) = (fold eff (map Mkdir (tl (prefixes (butlast p)))) (map_of (disk w)))(p \<mapsto> Symlink l)"
proof -
  from clear_entry [OF assms, of "\<lambda>q. sys (AList.update q (Symlink l))"] obtain x where
    "write_symlink p l w = sys (AList.update p (Symlink l)) x" "fates x = []"
    "map_of (disk x) = (fold eff (map Mkdir (tl (prefixes (butlast p)))) (map_of (disk w)))(p := None)"
    unfolding write_symlink_def by blast
  then show ?thesis by (auto simp: sys_def update_conv' fun_upd_def fun_eq_iff simp del: fold_map)
qed

lemma write_link_clear:
  assumes "fates w = []" "p \<noteq> []" "list_all fine_name p" "list_all (vacant (map_of (disk w))) (tl (prefixes (butlast p)))"
    "\<not> dir_node (map_of (disk w) p)" "write_link p t w = (Ok (), v)"
  shows "fates v = [] \<and> (\<exists>n. \<not> dir_node n \<and>
     map_of (disk v) = (fold eff (map Mkdir (tl (prefixes (butlast p)))) (map_of (disk w)))(p := n))"
proof -
  let ?f = "\<lambda>d. case root_resolve d (butlast t) of None \<Rightarrow> None | Some r \<Rightarrow> map_of d (r @ [last t])"
  let ?k = "\<lambda>q n. case n of None \<Rightarrow> serr ''link'' | Some (Directory _) \<Rightarrow> serr ''link'' | Some x \<Rightarrow> sys (AList.update q x)"
  from clear_entry [OF assms(1-5), of "\<lambda>q. sbind (look ?f) (?k q)"] obtain x where
    x: "write_link p t w = sbind (look ?f) (?k p) x" "fates x = []"
    "map_of (disk x) = (fold eff (map Mkdir (tl (prefixes (butlast p)))) (map_of (disk w)))(p := None)"
    unfolding write_link_def by blast
  from x(1) assms(6) have k: "?k p (?f (disk x)) x = (Ok (), v)" by (simp add: sbind_def look_def)
  then obtain n where n: "?f (disk x) = Some n" "\<not> dir_node (Some n)" "sys (AList.update p n) x = (Ok (), v)"
    by (cases "?f (disk x)") (auto simp: serr_def dir_node_def split: node.splits)
  then have "v = x\<lparr>disk := AList.update p n (disk x)\<rparr>" using x(2) by (simp add: sys_def)
  then show ?thesis using n(2) x(2,3) by (intro conjI exI [of _ "Some n"]) (simp_all add: update_conv' del: fold_map)
qed

lemma inline_open:
  assumes "tidy its" "e \<in> set es" "its = items strip rename es" "open_for its (map_of (disk w))" "fates w = []"
    and p: "plan_of strip rename e = Inline" and w: "write_entry strip rename e w = (Ok (), v)"
  shows "open_for its (map_of (disk v)) \<and> fates v = []"
proof -
  from p obtain name where n: "entry_name strip rename (e_name e) = Some name" by (cases "entry_name strip rename (e_name e)") (auto simp: plan_of_def)
  let ?p = "path_of name"
  have "item strip rename e = Some (?p, False)" by (simp add: item_def p n)
  from item_in [OF assms(2) this] have it: "(?p, False) \<in> set its" by (simp add: assms(3))
  note c = open_for_file [OF assms(1,4) it] and put = open_for_put [OF assms(1) open_for_mkdirs [OF assms(1,4) it] it]
  show ?thesis
  proof (cases "e_kind e")
    case (Reg b)
    with writeEntry_clear [OF assms(5) c, of b "e_mode e" "e_mtime e"] w n show ?thesis
      using open_for_fold [OF assms(1,4) fits_calls(1) [OF assms(1) it]] by (auto simp: write_entry_def)
  next
    case (Sym l)
    with write_symlink_clear [OF assms(5) c, of l] w n show ?thesis
      using put [of "Some (Symlink l)"] by (auto simp: write_entry_def)
  next
    case (Hard l)
    then obtain ln where "stripComponents l strip = Some ln" using p n by (auto simp: plan_of_def split: if_splits)
    with Hard w n have "write_link ?p (path_of ln) w = (Ok (), v)" by (simp add: write_entry_def)
    from write_link_clear [OF assms(5) c this] show ?thesis using put by auto
  qed (use p n in \<open>auto simp: plan_of_def\<close>)
qed

end
