(* ===== verification/PoolSafe.thy ===== *)
theory PoolSafe
  imports Extract
begin

text \<open>
  The extraction with its write pool against the serial extraction: every schedule, call by call, has the serial outcome on
  streams in which no file is in the way, and one stream for which it has not; no schedule hangs; memory is bounded; a
  published seed is read back whatever the schedule.
\<close>

section \<open>Every schedule is the serial one\<close>

text \<open>What the serial extraction of the rest would do from a tree \<open>M\<close>: its result and the tree it leaves.\<close>

definition outcome_of :: "string option \<Rightarrow> unit outcome" where
  "outcome_of x = (case x of None \<Rightarrow> Ok () | Some e \<Rightarrow> Err e)"

definition ends :: "nat \<Rightarrow> (string \<Rightarrow> string) option \<Rightarrow> string option \<Rightarrow> entry list \<Rightarrow> (path \<Rightarrow> node option) \<Rightarrow>
    string option \<times> (path \<Rightarrow> node option) \<Rightarrow> bool" where
  "ends strip rename final es M x \<longleftrightarrow> (\<exists>w v. fates w = [] \<and> map_of (disk w) = M \<and>
     untarFiltered (es, final) strip rename w = (outcome_of (fst x), v) \<and> map_of (disk v) = snd x)"

lemma untar_Cons:
  assumes "write_entry strip rename e w = (r, u)"
  shows "untarFiltered (e # es, final) strip rename w = (case r of Ok _ \<Rightarrow> untarFiltered (es, final) strip rename u | Err x \<Rightarrow> (Err x, u) | Killed \<Rightarrow> (Killed, u))"
  using assms by (cases r) (simp_all add: untarFiltered_def sbind_def)

lemma ends_entry:
  assumes "tidy its" "e \<in> set es0" "its = items strip rename es0" "open_for its M" "plan_of strip rename e \<noteq> Inline"
    "ends strip rename final (e # es) M x"
  shows "ends strip rename final es (fold eff (entry_calls strip rename e) M) x"
proof -
  from assms(6) obtain w v where w: "fates w = []" "map_of (disk w) = M" "untarFiltered (e # es, final) strip rename w = (outcome_of (fst x), v)"
    "map_of (disk v) = snd x" unfolding ends_def by blast
  from serial_entry [OF assms(1-3) _ w(1) assms(5)] assms(4) w(2) obtain u where u: "write_entry strip rename e w = (Ok (), u)" "fates u = []"
    "map_of (disk u) = fold eff (entry_calls strip rename e) M" by auto
  then show ?thesis using w(3,4) untar_Cons [OF u(1), of es final] unfolding ends_def by auto
qed

lemma ends_Nil: "ends strip rename final [] M x \<Longrightarrow> x = (final, M)"
  by (cases x; cases final; cases "fst x")
    (auto simp: ends_def untarFiltered_def sbind_def sret_def serr_def outcome_of_def split: option.splits)

lemma ends_inline:
  assumes "ends strip rename final (e # es) (map_of d) x" "write_entry strip rename e (start d []) = (r, v)"
  shows "r = Ok () \<Longrightarrow> ends strip rename final es (map_of (disk v)) x"
    and "r \<noteq> Ok () \<Longrightarrow> x = (Some (err_text r), map_of (disk v))"
proof -
  from assms(1) obtain w y where w: "fates w = []" "map_of (disk w) = map_of d" "untarFiltered (e # es, final) strip rename w = (outcome_of (fst x), y)"
    "map_of (disk y) = snd x" unfolding ends_def by blast
  obtain r' u where u: "write_entry strip rename e w = (r', u)" by fastforce
  have "same w (start d [])" using w(1,2) by (simp add: same_def)
  with ext_write_entry [of strip rename e] u assms(2) have s: "r' = r" "same u v" unfolding extensional_def by (metis fst_conv snd_conv)+
  note un = w(3) [unfolded untar_Cons [OF u]]
  show "r = Ok () \<Longrightarrow> ends strip rename final es (map_of (disk v)) x"
    using un s w(4) unfolding ends_def same_def by (intro exI [of _ u] exI [of _ y]) auto
  show "r \<noteq> Ok () \<Longrightarrow> x = (Some (err_text r), map_of (disk v))"
    using un s w(4) by (cases r; cases x; cases "fst x") (auto simp: outcome_of_def same_def err_text_def)
qed

text \<open>The calls that are still to come from a worker or the reader, in order.\<close>

definition pending :: "nat \<Rightarrow> extraction \<Rightarrow> nat \<Rightarrow> call list" where
  "pending n s k = hand s k @ concat (map job_calls (queue s k))
     @ (case offer s of None \<Rightarrow> [] | Some j \<Rightarrow> if shard n (j_name j) = k then job_calls j else [])"

definition placed :: "nat \<Rightarrow> (path \<times> bool) list \<Rightarrow> nat \<times> call \<Rightarrow> bool" where
  "placed n its y \<longleftrightarrow> fits its (snd y) \<and> (is_file (snd y) \<longrightarrow> fst y = shard n (path_name (loc (snd y)))) \<and> (is_chmod (snd y) \<longrightarrow> fst y = n)"

lemma placed_compatible:
  assumes "tidy its" "placed n its x" "placed n its y" "fst x \<noteq> fst y"
  shows "compatible (snd x) (snd y)"
proof -
  have one: "\<not> prefix (loc c) (loc c')" if c: "placed n its (k, c)" "placed n its (l, c')" "k \<noteq> l" "is_file c" for k l c c'
  proof
    assume pre: "prefix (loc c) (loc c')"
    have f: "loc c \<in> set (file_list its)" "loc c \<noteq> []" using c(1,4) fits_fine [OF assms(1), of c] by (auto simp: placed_def fits_def)
    have "loc c \<noteq> loc c' \<or> \<not> is_file c'" using c by (auto simp: placed_def)
    then have "loc c \<in> set (dir_list its)"
      using c(2) dir_list_closed [OF assms(1) pre f(2)] by (auto simp: placed_def fits_def split: if_splits)
    then show False using tidyD(2) [OF assms(1) f(1)] by simp
  qed
  show ?thesis
    using one [of "fst x" "snd x" "fst y" "snd y"] one [of "fst y" "snd y" "fst x" "snd x"] assms(2-4)
    unfolding compatible_def by (auto simp: placed_def)
qed

lemma path_name_of: "path_name (path_of name) = name"
  unfolding path_name_def path_of_def by (rule join_split_on)

lemma placed_entry:
  assumes "tidy its" "e \<in> set es" "its = items strip rename es" "c \<in> set (entry_calls strip rename e)"
    and "k = (case plan_of strip rename e of Send j \<Rightarrow> shard n (j_name j) | _ \<Rightarrow> n)"
  shows "placed n its (k, c)"
  using fits_entry [OF assms(1-4)] assms(4,5)
  by (cases "plan_of strip rename e") (auto simp: placed_def entry_calls_def job_calls_def writeFileBytes_def dir_calls_def path_name_of)

definition concludes :: "nat \<Rightarrow> (string \<Rightarrow> string) option \<Rightarrow> string option \<Rightarrow> string option \<times> (path \<Rightarrow> node option) \<Rightarrow>
    string option option \<Rightarrow> entry list \<Rightarrow> (path \<Rightarrow> node option) \<Rightarrow> bool" where
  "concludes strip rename final x v es M = (case v of None \<Rightarrow> ends strip rename final es M x | Some r \<Rightarrow> x = (r, M))"

lemma concludes_simps [simp]:
  "concludes strip rename final x None es M = ends strip rename final es M x"
  "concludes strip rename final x (Some r) es M \<longleftrightarrow> x = (r, M)"
  by (simp_all add: concludes_def)

definition on_track :: "nat \<Rightarrow> nat \<Rightarrow> (string \<Rightarrow> string) option \<Rightarrow> string option \<Rightarrow> entry list \<Rightarrow> string option \<times> (path \<Rightarrow> node option) \<Rightarrow> extraction \<Rightarrow> bool" where
  "on_track n strip rename final es x s \<longleftrightarrow> pool_err s = None \<and> set (input s) \<subseteq> set es \<and>
     (verdict s = None \<longrightarrow> open_for (items strip rename es) (map_of (tree s))) \<and>
     (\<exists>r. (\<forall>k. filter (\<lambda>y. fst y = k) r = map (Pair k) (pending n s k)) \<and> list_all (placed n (items strip rename es)) r \<and>
        calls.settled r (map_of (tree s)) \<and>
        concludes strip rename final x (verdict s) (input s) (fold (\<lambda>y. eff (snd y)) r (map_of (tree s))))"

lemma on_trackE:
  assumes "on_track n strip rename final es x s"
  obtains r where "pool_err s = None" "set (input s) \<subseteq> set es" "verdict s = None \<longrightarrow> open_for (items strip rename es) (map_of (tree s))"
    "\<forall>k. filter (\<lambda>y. fst y = k) r = map (Pair k) (pending n s k)" "list_all (placed n (items strip rename es)) r"
    "calls.settled r (map_of (tree s))" "concludes strip rename final x (verdict s) (input s) (fold (\<lambda>y. eff (snd y)) r (map_of (tree s)))"
  using assms unfolding on_track_def by (elim conjE exE)

lemma on_trackI:
  assumes "pool_err s = None" "set (input s) \<subseteq> set es" "verdict s = None \<Longrightarrow> open_for (items strip rename es) (map_of (tree s))"
    "\<And>k. filter (\<lambda>y. fst y = k) r = map (Pair k) (pending n s k)" "list_all (placed n (items strip rename es)) r"
    "calls.settled r (map_of (tree s))" "concludes strip rename final x (verdict s) (input s) (fold (\<lambda>y. eff (snd y)) r (map_of (tree s)))"
  shows "on_track n strip rename final es x s"
  using assms unfolding on_track_def by blast

lemma fold_tagged: "fold (\<lambda>y. eff (snd y)) (map (Pair k) cs) m = fold eff cs m"
  by (induction cs arbitrary: m) auto

lemma runnable_tagged: "runnable (\<lambda>y. ok (snd y)) (\<lambda>y. eff (snd y)) (map (Pair k) cs) m = runnable ok eff cs m"
  by (induction cs arbitrary: m) auto

text \<open>A step that takes the next call of a worker, or of the reader.\<close>

lemma on_track_call:
  assumes t: "tidy (items strip rename es)" and on: "on_track n strip rename final es x s" and h: "hand s k = c # cs"
  shows "\<exists>d. act c (tree s) = Some d"
    and "act c (tree s) = Some d \<Longrightarrow> on_track n strip rename final es x (s\<lparr>hand := (hand s)(k := cs), tree := d\<rparr>)"
proof -
  let ?its = "items strip rename es" and ?E = "\<lambda>y::nat \<times> call. eff (snd y)"
  from on obtain r where e0: "pool_err s = None" "set (input s) \<subseteq> set es" "verdict s = None \<longrightarrow> open_for ?its (map_of (tree s))"
    and r0: "\<forall>k. filter (\<lambda>y. fst y = k) r = map (Pair k) (pending n s k)" "list_all (placed n ?its) r" "calls.settled r (map_of (tree s))"
      "concludes strip rename final x (verdict s) (input s) (fold ?E r (map_of (tree s)))"
    by (rule on_trackE)
  note e = e0(1,2) mp [OF e0(3)] and r = spec [OF r0(1)] r0(2-4)
  let ?q = "map (Pair k) (cs @ concat (map job_calls (queue s k))
     @ (case offer s of None \<Rightarrow> [] | Some j \<Rightarrow> if shard n (j_name j) = k then job_calls j else []))"
  have q: "filter (\<lambda>y. fst y = k) r = (k, c) # ?q" by (simp add: r(1) pending_def h)
  then have "(k, c) \<in> set (filter (\<lambda>y. fst y = k) r)" by simp
  then have "(k, c) \<in> set r" by simp
  then have f: "fits ?its c" using r(2) by (auto simp: list_all_iff placed_def)
  have "ok c (map_of (tree s))" using calls.settled_ok [OF r(3) q] by simp
  from act_ok [OF this] fits_fine [OF t f] obtain d' where d': "act c (tree s) = Some d'" "map_of d' = eff c (map_of (tree s))" by auto
  then show "\<exists>d. act c (tree s) = Some d" by blast
  assume "act c (tree s) = Some d"
  with d' have d: "map_of d = eff c (map_of (tree s))" by simp
  from calls.settled_work [OF r(3) q] obtain r' where r': "calls.settled r' (eff c (map_of (tree s)))"
      "fold ?E r' (eff c (map_of (tree s))) = fold ?E r (map_of (tree s))" "set r' \<subseteq> set r"
      "\<And>l. filter (\<lambda>y. fst y = l) r' = (if l = k then ?q else filter (\<lambda>y. fst y = l) r)" by auto
  have "open_for ?its (map_of d)" if "verdict s = None" unfolding d by (rule open_for_eff [OF t e(3) [OF that] f])
  moreover have "filter (\<lambda>y. fst y = l) r' = map (Pair l) (pending n (s\<lparr>hand := (hand s)(k := cs), tree := d\<rparr>) l)" for l
    unfolding r'(4) r(1) by (cases "l = k") (simp_all add: pending_def)
  moreover have "list_all (placed n ?its) r'" using r(2) r'(3) by (auto simp: list_all_iff)
  ultimately show "on_track n strip rename final es x (s\<lparr>hand := (hand s)(k := cs), tree := d\<rparr>)"
    unfolding on_track_def using e r(4) r'(1,2) by (intro conjI exI [of _ r']) (simp_all add: d)
qed

text \<open>A step that takes in an entry which needs no barrier.\<close>

lemma on_track_entry:
  assumes t: "tidy (items strip rename es)" and on: "on_track n strip rename final es x s" and i: "verdict s = None" "input s = e # rest"
    and p: "plan_of strip rename e \<noteq> Inline"
    and k: "k = (case plan_of strip rename e of Send j \<Rightarrow> shard n (j_name j) | _ \<Rightarrow> n)"
    and s': "input s' = rest" "tree s' = tree s" "pool_err s' = pool_err s" "verdict s' = None"
      "\<And>l. pending n s' l = pending n s l @ (if l = k then entry_calls strip rename e else [])"
  shows "on_track n strip rename final es x s'"
proof -
  let ?its = "items strip rename es" and ?E = "\<lambda>y::nat \<times> call. eff (snd y)"
  from on obtain r where e0: "pool_err s = None" "set (input s) \<subseteq> set es" "verdict s = None \<longrightarrow> open_for ?its (map_of (tree s))"
    and r0: "\<forall>k. filter (\<lambda>y. fst y = k) r = map (Pair k) (pending n s k)" "list_all (placed n ?its) r" "calls.settled r (map_of (tree s))"
      "concludes strip rename final x (verdict s) (input s) (fold ?E r (map_of (tree s)))"
    by (rule on_trackE)
  note e = e0(1,2) mp [OF e0(3) i(1)] and r = spec [OF r0(1)] r0(2-4)
  have en: "ends strip rename final (e # rest) (fold ?E r (map_of (tree s))) x" using r(4) i by simp
  let ?new = "map (Pair k) (entry_calls strip rename e)"
  have es: "e \<in> set es" using e(2) i(2) by auto
  have new: "placed n ?its y" if "y \<in> set ?new" for y using placed_entry [OF t es refl _ k] that by auto
  have fold_open: "open_for ?its (fold ?E ys (map_of (tree s)))" if "set ys \<subseteq> set r" for ys
  proof -
    have "open_for ?its (fold eff (map snd ys) (map_of (tree s)))"
      using r(2) that by (intro open_for_fold [OF t e(3)]) (auto simp: list_all_iff placed_def)
    then show ?thesis by (simp add: fold_map comp_def)
  qed
  have "runnable (\<lambda>y. ok (snd y)) ?E ?new (fold ?E (filter (\<lambda>y. fst y = k) r) (map_of (tree s)))"
    unfolding runnable_tagged by (rule entry_runnable [OF t es refl fold_open]) auto
  moreover have "compatible (snd y) (snd z)" if "y \<in> set r" "z \<in> set ?new" "fst y \<noteq> k" for y z
    using placed_compatible [OF t _ new [OF that(2)], of y] r(2) that by (auto simp: list_all_iff)
  ultimately have "calls.settled (r @ ?new) (map_of (tree s))"
    by (intro calls.settled_append [OF r(3), of ?new k]) auto
  moreover have "ends strip rename final rest (fold ?E (r @ ?new) (map_of (tree s))) x"
    using ends_entry [OF t es refl fold_open [OF subset_refl] p en] by (simp add: fold_tagged)
  moreover have "filter (\<lambda>y. fst y = l) (r @ ?new) = map (Pair l) (pending n s' l)" for l
    by (auto simp: r(1) s'(5) filter_map comp_def)
  ultimately show ?thesis
    unfolding on_track_def using e i(2) s'(1-4) r(2) new by (intro conjI exI [of _ "r @ ?new"]) (auto simp: list_all_iff)
qed

definition homed :: "nat \<Rightarrow> extraction \<Rightarrow> bool" where
  "homed n s \<longleftrightarrow> (\<forall>k > n. hand s k = []) \<and> (\<forall>k \<ge> n. queue s k = [])"

lemma homed_step:
  assumes "pool_step n strip rename final s t" "homed n s" "\<And>name. shard n name < n"
  shows "homed n t"
  using assms(1)
proof cases
  case (sent j)
  then show ?thesis using assms(2) assms(3) [of "j_name j"] by (auto simp: homed_def)
qed (use assms(2) in \<open>auto simp: homed_def\<close>)

lemma idle_pending:
  assumes "homed n s" "idle n s" "offer s = None" "hand s n = []"
  shows "pending n s k = []"
  using assms by (cases "k < n"; cases "k = n") (auto simp: pending_def homed_def idle_def list_all_iff)

lemma on_track_same:
  assumes "on_track n strip rename final es x s" "input s' = input s" "tree s' = tree s" "pool_err s' = pool_err s" "verdict s' = verdict s"
    "\<And>k. pending n s' k = pending n s k"
  shows "on_track n strip rename final es x s'"
  using assms unfolding on_track_def by simp

lemma on_track_drained:
  assumes "on_track n strip rename final es x s" "\<And>k. pending n s k = []"
  shows "concludes strip rename final x (verdict s) (input s) (map_of (tree s))"
proof -
  from assms(1) obtain r where r0: "\<forall>k. filter (\<lambda>y. fst y = k) r = map (Pair k) (pending n s k)"
    "concludes strip rename final x (verdict s) (input s) (fold (\<lambda>y. eff (snd y)) r (map_of (tree s)))" by (rule on_trackE)
  note r = spec [OF r0(1) [unfolded assms(2) list.map]] r0(2)
  have "r = []" by (rule calls.queues_empty [OF r(1)])
  with r(2) show ?thesis by simp
qed

lemma on_track_rest:
  assumes "set (input s) \<subseteq> set es" "verdict s = None \<Longrightarrow> open_for (items strip rename es) (map_of (tree s))" "pool_err s = None" "\<And>k. pending n s k = []"
    "concludes strip rename final x (verdict s) (input s) (map_of (tree s))"
  shows "on_track n strip rename final es x s"
  unfolding on_track_def using assms
  by (intro conjI exI [of _ "[]"]) (simp_all add: calls.settled_def)

lemma on_track_step:
  assumes st: "pool_step n strip rename final s t" and on: "on_track n strip rename final es x s" and h: "homed n s"
    and ti: "tidy (items strip rename es)" and sh: "\<And>name. shard n name < n"
  shows "on_track n strip rename final es x t"
proof -
  have e0: "pool_err s = None" "set (input s) \<subseteq> set es" "verdict s = None \<Longrightarrow> open_for (items strip rename es) (map_of (tree s))"
    using on unfolding on_track_def by auto
  have qn: "queue s n = []" using h by (simp add: homed_def)
  from st show ?thesis
  proof cases
    case (skip e rest)
    show ?thesis
      by (rule on_track_entry [OF ti on, of e rest n]) (use skip in \<open>auto simp: reading_def entry_calls_def pending_def\<close>)
  next
    case (dispatch e rest j)
    show ?thesis
      by (rule on_track_entry [OF ti on, of e rest "shard n (j_name j)"]) (use dispatch in \<open>auto simp: reading_def entry_calls_def pending_def\<close>)
  next
    case (sent j)
    show ?thesis by (rule on_track_same [OF on]) (use sent in \<open>auto simp: pending_def\<close>)
  next
    case (make e rest p mode)
    show ?thesis
      by (rule on_track_entry [OF ti on, of e rest n]) (use make qn in \<open>auto simp: reading_def entry_calls_def pending_def\<close>)
  next
    case (made c cs d)
    then show ?thesis using on_track_call(2) [OF ti on] by simp
  next
    case (make_fails c cs)
    then show ?thesis using on_track_call(1) [OF ti on, of n c cs] by simp
  next
    case (inline e rest v)
    have p: "pending n s k = []" for k using idle_pending [OF h inline(5)] inline(2) by (simp add: reading_def)
    have "ends strip rename final (e # rest) (map_of (tree s)) x"
      using on_track_drained [OF on p] inline(2,3) by (simp add: reading_def)
    from ends_inline(1) [OF this inline(7)] inline_open [OF ti _ refl, of e "start (tree s) []" v] inline e0
    show ?thesis using p
      by (intro on_track_rest) (auto simp: pending_def reading_def)
  next
    case (inline_fails e rest r v)
    have p: "pending n s k = []" for k using idle_pending [OF h inline_fails(5)] inline_fails(2) by (simp add: reading_def)
    have "ends strip rename final (e # rest) (map_of (tree s)) x"
      using on_track_drained [OF on p] inline_fails(2,3) by (simp add: reading_def)
    from ends_inline(2) [OF this inline_fails(7,8)] show ?thesis
      using p e0 inline_fails by (intro on_track_rest) (auto simp: pending_def)
  next
    case eof
    from on obtain r where r0: "\<forall>k. filter (\<lambda>y. fst y = k) r = map (Pair k) (pending n s k)" "list_all (placed n (items strip rename es)) r"
      "calls.settled r (map_of (tree s))" "concludes strip rename final x (verdict s) (input s) (fold (\<lambda>y. eff (snd y)) r (map_of (tree s)))"
      by (rule on_trackE)
    have "ends strip rename final [] (fold (\<lambda>y. eff (snd y)) r (map_of (tree s))) x" using r0(4) eof by (simp add: reading_def)
    note r = spec [OF r0(1)] r0(2-3) this
    then show ?thesis using eof e0 ends_Nil [OF r(4)] by (intro on_trackI [where r = r]) (simp_all add: pending_def)
  next
    case (take_job k j q)
    show ?thesis by (rule on_track_same [OF on]) (use take_job in \<open>auto simp: pending_def\<close>)
  next
    case (work k c cs d)
    then show ?thesis using on_track_call(2) [OF ti on] by simp
  next
    case (fail k c cs)
    then show ?thesis using on_track_call(1) [OF ti on, of k c cs] by simp
  qed (use e0 in simp_all)
qed

lemma shard_less: "0 < n \<Longrightarrow> n < 2 ^ 32 \<Longrightarrow> shard n name < n"
  unfolding shard_def by (simp add: unat_mod_distrib unat_of_nat)

lemma pool_size_bounds: "0 < pool_size g" "pool_size g \<le> 8"
  by (auto simp: pool_size_def)

lemma shard_pool: "shard (pool_size g) name < pool_size g"
  using pool_size_bounds [of g] by (intro shard_less) auto

lemma homed_reachable:
  assumes "rtranclp (pool_step (pool_size g) strip rename final) (newUntarPool es d) s"
  shows "homed (pool_size g) s"
  using assms
proof (induction rule: rtranclp_induct)
  case base
  then show ?case by (simp add: homed_def newUntarPool_def)
next
  case (step s t)
  then show ?case using homed_step shard_pool by blast
qed

lemma pool_outcome:
  assumes ti: "tidy (items strip rename es)" and op: "open_for (items strip rename es) (map_of d)"
    and s: "rtranclp (pool_step (pool_size g) strip rename final) (newUntarPool es d) s" "returned (pool_size g) s"
    and v: "untarFiltered (es, final) strip rename (start d []) = (r, v)"
  shows "result_of s = r \<and> map_of (tree s) = map_of (disk v)"
proof -
  have "same (start d []) (start d [])" by (simp add: same_def)
  with ext_untar [of "(es, final)" strip rename] have "r \<noteq> Killed" using v unfolding extensional_def by (metis fst_conv)
  then obtain q where q: "outcome_of q = r" by (cases r) (auto simp: outcome_of_def intro: that [of None] that [of "Some _"])
  let ?x = "(q, map_of (disk v))"
  have "on_track (pool_size g) strip rename final es ?x s" using s(1)
  proof (induction rule: rtranclp_induct)
    case base
    have "ends strip rename final es (map_of d) ?x" unfolding ends_def using v q by (intro exI [of _ "start d []"] exI [of _ v]) simp
    then show ?case using op by (intro on_track_rest) (simp_all add: newUntarPool_def pending_def)
  next
    case (step s t)
    then show ?case using on_track_step [OF step.hyps(2) step.IH homed_reachable [OF step.hyps(1)] ti shard_pool] by simp
  qed
  moreover from this have "pool_err s = None" by (auto elim: on_trackE)
  moreover have "pending (pool_size g) s k = []" for k
    using idle_pending [OF homed_reachable [OF s(1)]] s(2) by (simp add: returned_def)
  ultimately have "verdict s = Some q" "map_of (tree s) = map_of (disk v)" "pool_err s = None"
    using on_track_drained s(2) by (fastforce simp: returned_def)+
  then show ?thesis using q by (cases q) (auto simp: result_of_def outcome_of_def)
qed

section \<open>Every schedule ends\<close>

definition job_cost :: "writeJob \<Rightarrow> nat" where "job_cost j = Suc (length (job_calls j))"

definition entry_cost :: "nat \<Rightarrow> (string \<Rightarrow> string) option \<Rightarrow> entry \<Rightarrow> nat" where
  "entry_cost strip rename e = (case plan_of strip rename e of
     Send j \<Rightarrow> 2 + job_cost j | Make p mode \<Rightarrow> Suc (length (dir_calls p mode)) | _ \<Rightarrow> 1)"

definition held :: "extraction \<Rightarrow> nat \<Rightarrow> nat" where
  "held s k = length (hand s k) + sum_list (map job_cost (queue s k))"

definition load :: "nat \<Rightarrow> nat \<Rightarrow> (string \<Rightarrow> string) option \<Rightarrow> extraction \<Rightarrow> nat" where
  "load n strip rename s = sum_list (map (entry_cost strip rename) (input s))
     + (case offer s of None \<Rightarrow> 0 | Some j \<Rightarrow> Suc (job_cost j)) + (\<Sum>k \<le> n. held s k) + (if verdict s = None then 1 else 0)"

lemma sum_upd:
  fixes f :: "nat \<Rightarrow> nat"
  assumes "k \<le> n"
  shows "(\<Sum>l \<le> n. (f(k := x)) l) + f k = (\<Sum>l \<le> n. f l) + x"
proof -
  have split: "(\<Sum>l \<le> n. g l) = g k + (\<Sum>l \<in> {..n} - {k}. g l)" for g :: "nat \<Rightarrow> nat"
    using assms by (intro sum.remove) auto
  have "(\<Sum>l \<in> {..n} - {k}. (f(k := x)) l) = (\<Sum>l \<in> {..n} - {k}. f l)" by (rule sum.cong) auto
  then show ?thesis unfolding split [of f] split [of "f(k := x)"] by simp
qed

lemma held_upd: "held t = (held s)(k := x) \<Longrightarrow> k \<le> n \<Longrightarrow> (\<Sum>l \<le> n. held t l) + held s k = (\<Sum>l \<le> n. held s l) + x"
  using sum_upd [of k n "held s" x] by simp

lemma load_step:
  assumes "pool_step n strip rename final s t" "homed n s" "\<And>name. shard n name < n"
  shows "load n strip rename t < load n strip rename s"
  using assms(1)
proof cases
  case (sent j)
  have "held t = (held s)(shard n (j_name j) := held s (shard n (j_name j)) + job_cost j)"
    using sent by (auto simp: held_def fun_eq_iff)
  from held_upd [OF this, of n] assms(3) [of "j_name j"] sent show ?thesis by (simp add: load_def)
next
  case (make e es p mode)
  have "held t = (held s)(n := held s n + length (dir_calls p mode))" using make by (auto simp: held_def fun_eq_iff reading_def)
  from held_upd [OF this, of n] make show ?thesis by (simp add: load_def entry_cost_def reading_def)
next
  case (made c cs d)
  have "held t = (held s)(n := held s n - 1)" using made by (auto simp: held_def fun_eq_iff)
  from held_upd [OF this, of n] made show ?thesis by (simp add: load_def held_def)
next
  case (make_fails c cs)
  have "held t = (held s)(n := held s n - length (c # cs))" using make_fails by (auto simp: held_def fun_eq_iff)
  from held_upd [OF this, of n] make_fails show ?thesis by (simp add: load_def held_def)
next
  case (take_job k j q)
  have "held t = (held s)(k := held s k - 1)" using take_job by (auto simp: held_def fun_eq_iff job_cost_def)
  from held_upd [OF this, of n] take_job show ?thesis by (simp add: load_def held_def job_cost_def)
next
  case (drop_job k j q x)
  have "held t = (held s)(k := held s k - job_cost j)" using drop_job by (auto simp: held_def fun_eq_iff)
  from held_upd [OF this, of n] drop_job show ?thesis by (simp add: load_def held_def job_cost_def)
next
  case (work k c cs d)
  have "held t = (held s)(k := held s k - 1)" using work by (auto simp: held_def fun_eq_iff)
  from held_upd [OF this, of n] work show ?thesis by (simp add: load_def held_def)
next
  case (fail k c cs)
  have "held t = (held s)(k := held s k - length (c # cs))" using fail by (auto simp: held_def fun_eq_iff)
  from held_upd [OF this, of n] fail show ?thesis by (simp add: load_def held_def)
qed (auto simp: load_def entry_cost_def reading_def held_def cong: sum.cong)

lemma pool_progress:
  assumes "\<not> returned n s" "\<And>name. shard n name < n"
  shows "\<exists>t. pool_step n strip rename final s t"
proof (cases "\<exists>k < n. hand s k \<noteq> []")
  case True
  then obtain k c cs where k: "k < n" "hand s k = c # cs" by (meson neq_Nil_conv)
  then show ?thesis by (cases "act c (tree s)") (blast intro: pool_step.work pool_step.fail)+
next
  case hands: False
  show ?thesis
  proof (cases "\<exists>k < n. queue s k \<noteq> []")
    case True
    then obtain k j q where k: "k < n" "queue s k = j # q" by (meson neq_Nil_conv)
    with hands have "hand s k = []" by blast
    with k show ?thesis by (cases "pool_err s") (blast intro: pool_step.take_job pool_step.drop_job)+
  next
    case False
    with hands have i: "idle n s" by (auto simp: idle_def list_all_iff)
    consider (hand) c cs where "hand s n = c # cs" | (offer) j where "offer s = Some j" | (read) "reading n s"
      using assms(1) i by (cases "hand s n"; cases "offer s") (auto simp: returned_def reading_def)
    then show ?thesis
    proof cases
      case (hand c cs)
      then show ?thesis by (cases "act c (tree s)") (blast intro: pool_step.made pool_step.make_fails)+
    next
      case (offer j)
      have "queue s (shard n (j_name j)) = []" using i assms(2) by (auto simp: idle_def list_all_iff)
      then show ?thesis using pool_step.sent [OF offer, of n] by (auto simp: chan_size_def)
    next
      case read
      show ?thesis
      proof (cases "input s")
        case Nil
        then show ?thesis using pool_step.eof [OF read] by blast
      next
        case (Cons e es)
        obtain r v where w: "write_entry strip rename e (start (tree s) []) = (r, v)" by fastforce
        show ?thesis
        proof (cases "plan_of strip rename e")
          case Skip
          then show ?thesis using pool_step.skip [OF read Cons] by blast
        next
          case (Send j)
          then show ?thesis
            using pool_step.dispatch [OF read Cons] pool_step.refused [OF read Cons] by (cases "pool_err s") blast+
        next
          case (Make p mode)
          then show ?thesis using pool_step.make [OF read Cons] by blast
        next
          case Inline
          show ?thesis
          proof (cases "pool_err s")
            case None
            show ?thesis
              using pool_step.inline [OF read Cons Inline i None] pool_step.inline_fails [OF read Cons Inline i None w] w
              by (cases "r = Ok ()") blast+
          next
            case (Some x)
            show ?thesis using pool_step.flush_fails [OF read Cons Inline i Some] by blast
          qed
        qed
      qed
    qed
  qed
qed

lemma pool_finishes:
  assumes "homed (pool_size g) s"
  shows "\<exists>t. rtranclp (pool_step (pool_size g) strip rename final) s t \<and> returned (pool_size g) t"
  using assms
proof (induction "load (pool_size g) strip rename s" arbitrary: s rule: less_induct)
  case less
  show ?case
  proof (cases "returned (pool_size g) s")
    case False
    then obtain t where t: "pool_step (pool_size g) strip rename final s t" using pool_progress shard_pool by blast
    from less.hyps [OF load_step [OF t less.prems shard_pool] homed_step [OF t less.prems shard_pool]]
    show ?thesis using t by (meson converse_rtranclp_into_rtranclp)
  qed blast
qed

section \<open>Memory\<close>

definition call_data :: "call \<Rightarrow> nat" where
  "call_data c = (case c of Write _ b \<Rightarrow> length b | _ \<Rightarrow> 0)"

text \<open>The bytes of file content the pool and the reader keep in memory.\<close>

definition buffered :: "nat \<Rightarrow> extraction \<Rightarrow> nat" where
  "buffered n s = (\<Sum>k < n. sum_list (map (\<lambda>j. length (j_data j)) (queue s k)) + sum_list (map call_data (hand s k)))
     + (case offer s of None \<Rightarrow> 0 | Some j \<Rightarrow> length (j_data j))"

definition within :: "nat \<Rightarrow> extraction \<Rightarrow> bool" where
  "within n s \<longleftrightarrow> (\<forall>k. length (queue s k) \<le> chan_size \<and> (\<forall>j \<in> set (queue s k). length (j_data j) \<le> untarInlineLimit) \<and>
       sum_list (map call_data (hand s k)) \<le> untarInlineLimit) \<and>
     (\<forall>j. offer s = Some j \<longrightarrow> length (j_data j) \<le> untarInlineLimit)"

lemma job_data: "sum_list (map call_data (job_calls j)) = length (j_data j)" "sum_list (map call_data (dir_calls p mode)) = 0"
  by (simp_all add: job_calls_def writeFileBytes_def dir_calls_def call_data_def comp_def)

lemma sent_small: "plan_of strip rename e = Send j \<Longrightarrow> length (j_data j) \<le> untarInlineLimit"
  by (auto simp: plan_of_def split: option.splits entry_kind.splits if_splits)

lemma within_step:
  assumes "pool_step n strip rename final s t" "within n s"
  shows "within n t"
  using assms(1)
proof cases
  case (dispatch e es j)
  then show ?thesis using assms(2) sent_small [of strip rename e j] by (auto simp: within_def)
next
  case (take_job k j q)
  have "length (j # q) \<le> chan_size \<and> (\<forall>j \<in> set (j # q). length (j_data j) \<le> untarInlineLimit)" using assms(2) take_job(4) unfolding within_def by metis
  then show ?thesis using assms(2) take_job by (auto simp: within_def job_data)
next
  case (made c cs d)
  have "sum_list (map call_data (c # cs)) \<le> untarInlineLimit" using assms(2) made(2) unfolding within_def by metis
  then show ?thesis using assms(2) made by (auto simp: within_def)
next
  case (work k c cs d)
  have "sum_list (map call_data (c # cs)) \<le> untarInlineLimit" using assms(2) work(3) unfolding within_def by metis
  then show ?thesis using assms(2) work by (auto simp: within_def)
next
  case (drop_job k j q x)
  have "length (j # q) \<le> chan_size \<and> (\<forall>j \<in> set (j # q). length (j_data j) \<le> untarInlineLimit)" using assms(2) drop_job(4) unfolding within_def by metis
  then show ?thesis using assms(2) drop_job by (auto simp: within_def)
qed (use assms(2) in \<open>auto simp: within_def job_data\<close>)

lemma within_reachable:
  assumes "rtranclp (pool_step n strip rename final) (newUntarPool es d) s"
  shows "within n s"
  using assms
proof (induction rule: rtranclp_induct)
  case base
  then show ?case by (simp add: within_def newUntarPool_def)
next
  case (step s t)
  then show ?case using within_step by blast
qed

lemma sum_list_bounded: "(\<And>x. x \<in> set xs \<Longrightarrow> f x \<le> b) \<Longrightarrow> sum_list (map f xs) \<le> length xs * (b :: nat)"
  by (induction xs) (auto simp: add_mono)

lemma buffered_within:
  assumes "within n s"
  shows "buffered n s \<le> (5 * n + 1) * untarInlineLimit"
proof -
  have one: "sum_list (map (\<lambda>j. length (j_data j)) (queue s k)) + sum_list (map call_data (hand s k)) \<le> 5 * untarInlineLimit" for k
  proof -
    have "sum_list (map (\<lambda>j. length (j_data j)) (queue s k)) \<le> length (queue s k) * untarInlineLimit"
      using assms by (intro sum_list_bounded) (auto simp: within_def)
    also have "\<dots> \<le> 4 * untarInlineLimit" using assms by (intro mult_right_mono) (auto simp: within_def chan_size_def)
    finally show ?thesis using assms by (auto simp: within_def dest: spec [of _ k])
  qed
  have "(\<Sum>k < n. sum_list (map (\<lambda>j. length (j_data j)) (queue s k)) + sum_list (map call_data (hand s k))) \<le> n * (5 * untarInlineLimit)"
    using sum_bounded_above [of "{..<n}", OF one] by simp
  moreover have "(case offer s of None \<Rightarrow> 0 | Some j \<Rightarrow> length (j_data j)) \<le> untarInlineLimit"
    using assms by (auto simp: within_def split: option.splits)
  ultimately show ?thesis unfolding buffered_def by (simp add: algebra_simps)
qed

section \<open>Seeds\<close>

lemma seed_item:
  assumes "p \<noteq> []" "list_all fine_name p"
  shows "item 0 (Some quarantine) (seed_header p x) = Some (landing p, \<exists>k. x = Directory k)"
  using seed_entry_name [OF assms]
  by (cases x) (auto simp: item_def plan_of_def seed_header_def node_kind_def)

lemma seed_tidy:
  assumes "tree_ok d"
  shows "tidy (items 0 (Some quarantine) (seed_entries d))"
proof -
  let ?its = "items 0 (Some quarantine) (seed_entries d)"
  have it: "\<exists>p k. p \<noteq> [] \<and> list_all fine_name p \<and> dirs_above d p \<and> map_of d p = Some k \<and> q = landing p \<and> (b \<longleftrightarrow> is_dir d p)" if "(q, b) \<in> set ?its" for q b
  proof -
    from that obtain p where p: "p \<in> set (walk d)" "item 0 (Some quarantine) (seed_header p (the (map_of d p))) = Some (q, b)"
      by (auto simp: items_def List.map_filter_def seed_entries_def)
    then have "p \<noteq> []" "map_of d p \<noteq> None" by (auto simp: set_walk)
    with tree_okD [OF assms this(2)] p(2) seed_item [of p "the (map_of d p)"] show ?thesis
      by (intro exI [of _ p] exI [of _ "the (map_of d p)"]) (auto simp: is_dir_def split: node.splits)
  qed
  have "p \<notin> set (dir_list ?its)" if "(p, False) \<in> set ?its" for p
  proof
    assume "p \<in> set (dir_list ?its)"
    then obtain q b where q: "(q, b) \<in> set ?its" "p \<noteq> []" "prefix p (if b then q else butlast q)" by (auto simp: dir_list_iff made_dirs)
    from it [OF that] obtain p0 k where p0: "p0 \<noteq> []" "map_of d p0 = Some k" "p = landing p0" "\<not> is_dir d p0" by auto
    from it [OF q(1)] obtain q0 l where q0: "q0 \<noteq> []" "dirs_above d q0" "map_of d q0 = Some l" "q = landing q0" "b \<longleftrightarrow> is_dir d q0" by auto
    have ns: "\<not> is_dir d [''.kbf-stamp'']" "map_of d [''.kbf-stamp.seed''] = None" using assms by (auto simp: tree_ok_def)
    have nq: "q0 \<noteq> [''.kbf-stamp'']" using q ns(1) q0(4,5) by (auto simp: landing_def split: if_splits)
    then have qq: "q = q0" by (simp add: q0(4) landing_def)
    have "strict_prefix p q0 \<or> is_dir d q0 \<and> p = q0"
    proof (cases b)
      case True
      then show ?thesis using q(3) q0(5) qq by (auto simp: strict_prefix_def)
    next
      case False
      then show ?thesis using q(3) prefix_butlast [OF q0(1), of p] qq by simp
    qed
    then have "is_dir d p" using q0(2) q(2) by (auto simp: dirs_above_def)
    then show False using p0 ns(2) by (auto simp: landing_def is_dir_def split: if_splits)
  qed
  moreover have "q \<noteq> [] \<and> list_all fine_name q" if "(q, b) \<in> set ?its" for q b
    using it [OF that] landing_fine by (elim exE conjE) simp
  ultimately show ?thesis by (auto simp: tidy_def list_all_iff file_list_iff)
qed

lemma open_empty: "open_for its (map_of [])"
  by (simp add: open_for_def list_all_iff vacant_def)

lemma homed_new: "homed n (newUntarPool es d)"
  by (simp add: homed_def newUntarPool_def)

section \<open>A stream for which the schedule matters\<close>

definition race_stream :: "entry list" where
  "race_stream = [\<lparr>e_name = ''a'', e_mode = 420, e_mtime = 1, e_kind = Reg ''x''\<rparr>, \<lparr>e_name = ''a'', e_mode = 493, e_mtime = 1, e_kind = Dir_Entry\<rparr>]"

lemma race_plan: "plan_of 0 None (race_stream ! 0) = Send \<lparr>j_name = ''a'', j_mode = 420, j_mtime = 1, j_data = ''x''\<rparr>"
  "plan_of 0 None (race_stream ! 1) = Make [''a''] 493"
proof -
  have "stripComponents ''a'' 0 = Some ''a''" "path_of ''a'' = [''a'']" by code_simp+
  then show "plan_of 0 None (race_stream ! 0) = Send \<lparr>j_name = ''a'', j_mode = 420, j_mtime = 1, j_data = ''x''\<rparr>"
    "plan_of 0 None (race_stream ! 1) = Make [''a''] 493"
    by (simp_all add: plan_of_def race_stream_def entry_name_def untarInlineLimit_def)
qed

primrec acts :: "call list \<Rightarrow> disk \<Rightarrow> disk option" where
  "acts [] d = Some d"
| "acts (c # cs) d = Option.bind (act c d) (acts cs)"

lemma run_calls:
  "k \<le> n \<Longrightarrow> hand s k = cs \<Longrightarrow> acts cs (tree s) = Some d \<Longrightarrow>
   rtranclp (pool_step n strip rename final) s (s\<lparr>hand := (hand s)(k := []), tree := d\<rparr>)"
proof (induction cs arbitrary: s)
  case Nil
  then have "s\<lparr>hand := (hand s)(k := []), tree := d\<rparr> = s" by (simp add: fun_upd_idem)
  then show ?case by (metis rtranclp.rtrancl_refl)
next
  case (Cons c cs)
  then obtain d' where d': "act c (tree s) = Some d'" "acts cs d' = Some d" by (auto simp: bind_eq_Some_conv)
  let ?s = "s\<lparr>hand := (hand s)(k := cs), tree := d'\<rparr>"
  have "pool_step n strip rename final s ?s"
    using Cons.prems(1,2) d'(1) by (cases "k = n") (auto intro: pool_step.made pool_step.work)
  moreover have "rtranclp (pool_step n strip rename final) ?s (s\<lparr>hand := (hand s)(k := []), tree := d\<rparr>)"
    using Cons.IH [of ?s] Cons.prems(1) d'(2) by (simp add: fun_upd_def cong: if_cong)
  ultimately show ?case by (rule converse_rtranclp_into_rtranclp)
qed

text \<open>
  A file followed by a directory of the same name: one after the other the directory cannot be made and the extraction
  fails. The reader does not wait for the queued file before it makes the directory, so there is a schedule in which it makes
  the directory first, the worker then removes it, and the extraction succeeds.
\<close>

lemma dir_race:
  "(\<exists>s. rtranclp (pool_step (pool_size 1) 0 None None) (newUntarPool race_stream []) s \<and> returned (pool_size 1) s \<and> result_of s = Ok ()) \<and>
   (\<exists>v e. untarFiltered (race_stream, None) 0 None (start [] []) = (Err e, v))"
proof
  let ?R = "rtranclp (pool_step 1 0 None None)" and ?j = "\<lparr>j_name = ''a'', j_mode = 420, j_mtime = 1, j_data = ''x''\<rparr>"
  let ?s0 = "newUntarPool race_stream []"
  obtain e1 e2 where es: "race_stream = [e1, e2]" "plan_of 0 None e1 = Send ?j" "plan_of 0 None e2 = Make [''a''] 493"
    using race_plan by (auto simp: race_stream_def)
  have sh: "shard (Suc 0) x = 0" for x using shard_less [of 1 x] by simp
  let ?s1 = "?s0\<lparr>input := [e2], offer := Some ?j\<rparr>"
  have 1: "?R ?s0 ?s1"
    by (rule r_into_rtranclp, rule pool_step.dispatch [of _ _ e1]) (simp_all add: newUntarPool_def reading_def es)
  let ?s2 = "?s1\<lparr>offer := None, queue := (queue ?s1)(0 := [?j])\<rparr>"
  have "pool_step 1 0 None None ?s1 (?s1\<lparr>offer := None, queue := (queue ?s1)(shard 1 (j_name ?j) := queue ?s1 (shard 1 (j_name ?j)) @ [?j])\<rparr>)"
    by (rule pool_step.sent) (simp_all add: newUntarPool_def chan_size_def)
  then have 2: "?R ?s1 ?s2" by (intro r_into_rtranclp) (simp add: sh newUntarPool_def)
  let ?s3 = "?s2\<lparr>input := [], hand := (hand ?s2)(1 := dir_calls [''a''] 493)\<rparr>"
  have 3: "?R ?s2 ?s3"
    by (rule r_into_rtranclp, rule pool_step.make [of _ _ e2]) (simp_all add: newUntarPool_def reading_def es)
  let ?s4 = "?s3\<lparr>hand := (hand ?s3)(1 := []), tree := [([''a''], Directory 493)]\<rparr>"
  have "acts (dir_calls [''a''] 493) [] = Some [([''a''], Directory 493)]" by code_simp
  then have 4: "?R ?s3 ?s4" by (intro run_calls) (simp_all add: newUntarPool_def)
  let ?s5 = "?s4\<lparr>hand := (hand ?s4)(0 := job_calls ?j), queue := (queue ?s4)(0 := [])\<rparr>"
  have 5: "?R ?s4 ?s5" by (rule r_into_rtranclp, rule pool_step.take_job) (simp_all add: newUntarPool_def)
  let ?s6 = "?s5\<lparr>hand := (hand ?s5)(0 := []), tree := [([''a''], File ''x'' 420 1)]\<rparr>"
  have "acts (job_calls ?j) [([''a''], Directory 493)] = Some [([''a''], File ''x'' 420 1)]" by code_simp
  then have 6: "?R ?s5 ?s6" by (intro run_calls) (simp_all add: newUntarPool_def)
  let ?s7 = "?s6\<lparr>verdict := Some None\<rparr>"
  have 7: "?R ?s6 ?s7" by (rule r_into_rtranclp, rule pool_step.eof) (simp_all add: newUntarPool_def reading_def)
  have "?R ?s0 ?s7" using 1 2 3 4 5 6 7 by (meson rtranclp_trans)
  moreover have "returned 1 ?s7" "result_of ?s7 = Ok ()" by (simp_all add: returned_def idle_def newUntarPool_def result_of_def)
  moreover have "pool_size 1 = 1" by (simp add: pool_size_def)
  ultimately show "\<exists>s. rtranclp (pool_step (pool_size 1) 0 None None) ?s0 s \<and> returned (pool_size 1) s \<and> result_of s = Ok ()" by metis
  have "fst (untarFiltered (race_stream, None) 0 None (start [] [])) = Err ''mkdir''" by code_simp
  then show "\<exists>v e. untarFiltered (race_stream, None) 0 None (start [] []) = (Err e, v)" by (metis prod.collapse)
qed

section \<open>Properties of the extraction\<close>

text \<open>
  C9. The concurrent extraction is the serial one: for a stream in which no file lies on the path of another entry, on a tree that
  is open for it, whatever the schedule of the reader and the workers, call by call, the result and the tree of an extraction
  that has returned are those of handling the entries one after the other (the last write of a repeated name included).
\<close>

theorem pool_serial:
  assumes "tidy (items strip rename es)" "open_for (items strip rename es) (map_of d)"
    "rtranclp (pool_step (pool_size g) strip rename final) (newUntarPool es d) s" "returned (pool_size g) s"
  shows "\<exists>v. untarFiltered (es, final) strip rename (start d []) = (result_of s, v) \<and> map_of (tree s) = map_of (disk v)"
proof -
  obtain r v where v: "untarFiltered (es, final) strip rename (start d []) = (r, v)" by fastforce
  from pool_outcome [OF assms v] v show ?thesis by auto
qed

theorem pool_serial_witness:
  "\<exists>s v. rtranclp (pool_step (pool_size 4) 0 (Some quarantine) None) (newUntarPool (seed_entries demo_tree) []) s \<and> returned (pool_size 4) s \<and>
     untarFiltered (seed_entries demo_tree, None) 0 (Some quarantine) (start [] []) = (result_of s, v) \<and> map_of (tree s) = map_of (disk v)"
proof -
  obtain s where s: "rtranclp (pool_step (pool_size 4) 0 (Some quarantine) None) (newUntarPool (seed_entries demo_tree) []) s" "returned (pool_size 4) s"
    using pool_finishes [OF homed_new] by blast
  from pool_serial [OF seed_tidy [OF demo_tree_ok] open_empty this] s show ?thesis by blast
qed

text \<open>
  C38. The extraction neither hangs nor runs on, whatever the stream: in every reachable state the extraction has returned or some
  step is possible, every step lowers the work that is left, and at the start that work is fixed by the stream.
\<close>

theorem pool_terminates:
  assumes "rtranclp (pool_step (pool_size g) strip rename final) (newUntarPool es d) s"
  shows "(returned (pool_size g) s \<or> (\<exists>t. pool_step (pool_size g) strip rename final s t)) \<and>
     (\<forall>t. pool_step (pool_size g) strip rename final s t \<longrightarrow> load (pool_size g) strip rename t < load (pool_size g) strip rename s) \<and>
     load (pool_size g) strip rename (newUntarPool es d) = Suc (sum_list (map (entry_cost strip rename) es))"
proof (intro conjI)
  show "returned (pool_size g) s \<or> (\<exists>t. pool_step (pool_size g) strip rename final s t)"
    using pool_progress [OF _ shard_pool] by blast
  show "\<forall>t. pool_step (pool_size g) strip rename final s t \<longrightarrow> load (pool_size g) strip rename t < load (pool_size g) strip rename s"
    using load_step [OF _ homed_reachable [OF assms] shard_pool] by blast
qed (simp add: load_def newUntarPool_def held_def)

theorem pool_terminates_witness:
  "\<exists>t. pool_step (pool_size 4) 0 None None (newUntarPool [] []) t \<and>
     load (pool_size 4) 0 None t < load (pool_size 4) 0 None (newUntarPool [] [])"
proof -
  have "\<not> returned (pool_size 4) (newUntarPool [] [])" by (simp add: returned_def newUntarPool_def)
  with pool_terminates [of 4 0 None None "[]" "[]" "newUntarPool [] []"] show ?thesis by blast
qed

text \<open>
  C40. The extraction keeps at most 41 times the inline limit of file content in memory (328 MiB): four queued jobs and one in hand
  for each of at most eight workers, and the one the reader is sending.
\<close>

theorem pool_memory:
  assumes "rtranclp (pool_step (pool_size g) strip rename final) (newUntarPool es d) s"
  shows "buffered (pool_size g) s \<le> 41 * untarInlineLimit"
proof -
  have "(5 * pool_size g + 1) * untarInlineLimit \<le> 41 * untarInlineLimit"
    using pool_size_bounds(2) [of g] by (intro mult_right_mono) auto
  then show ?thesis using buffered_within [OF within_reachable [OF assms]] by linarith
qed

theorem pool_memory_witness:
  "\<exists>s. rtranclp (pool_step (pool_size 4) 0 (Some quarantine) None) (newUntarPool (seed_entries demo_tree) []) s \<and> returned (pool_size 4) s \<and>
     buffered (pool_size 4) s \<le> 41 * untarInlineLimit"
proof -
  obtain s where "rtranclp (pool_step (pool_size 4) 0 (Some quarantine) None) (newUntarPool (seed_entries demo_tree) []) s" "returned (pool_size 4) s"
    using pool_finishes [OF homed_new] by blast
  with pool_memory [of 4 0 "Some quarantine" None "seed_entries demo_tree" "[]" s] show ?thesis by blast
qed

text \<open>
  C6. The seed round trip: the archive that \<^verbatim>\<open>seedPush\<close> packs from a tree, extracted by \<^verbatim>\<open>untarSeed\<close> into an empty mount with the write
  pool under any schedule, succeeds and gives back every file with its content, mode and modification time, every directory
  and every link; only the stamp arrives under its quarantined name, and cached sources and temporary files are left out.
\<close>

theorem seed_roundtrip:
  assumes "tree_ok d" "rtranclp (pool_step (pool_size g) 0 (Some quarantine) None) (newUntarPool (seed_entries d) []) s" "returned (pool_size g) s"
  shows "result_of s = Ok () \<and> map_of (tree s) = reload d"
proof -
  obtain v where "untarSeed (seed_entries d, None) (start [] []) = (Ok (), v)" "map_of (disk v) = reload d"
    using seed_extracts [OF assms(1)] by blast
  with pool_outcome [OF seed_tidy [OF assms(1)] open_empty assms(2,3)] show ?thesis by (simp add: untarSeed_def)
qed

theorem seed_roundtrip_witness:
  "\<exists>s. rtranclp (pool_step (pool_size 2) 0 (Some quarantine) None) (newUntarPool (seed_entries demo_tree) []) s \<and> returned (pool_size 2) s \<and>
     result_of s = Ok () \<and> map_of (tree s) = reload demo_tree"
proof -
  obtain s where s: "rtranclp (pool_step (pool_size 2) 0 (Some quarantine) None) (newUntarPool (seed_entries demo_tree) []) s" "returned (pool_size 2) s"
    using pool_finishes [OF homed_new] by blast
  from seed_roundtrip [OF demo_tree_ok this] s show ?thesis by blast
qed

end
