(* ===== verification/Targets.thy ===== *)
theory Targets
  imports Graph "HOL-Library.AList"
begin

text \<open>
  What a build produces: \<open>resolveTargets\<close> of \<^verbatim>\<open>kbuild-step\<close> maps the \<^verbatim>\<open>TARGETS\<close> variable to make goals and artifacts,
  \<open>modulesEnabled\<close> reads the resolved config, and \<open>compile_args\<close> is the argument list of the compile. The plan is
  characterised exactly, and the variable the graph sets always resolves.
\<close>

section \<open>The plan\<close>

record plan =
  makeTargets :: "string list"
  artifacts :: "(string \<times> string) list"
  wantModules :: bool
  wantConfig :: bool
  wantKconfigs :: bool

definition empty_plan :: plan where
  "empty_plan = \<lparr>makeTargets = [], artifacts = [], wantModules = False, wantConfig = False, wantKconfigs = False\<rparr>"

datatype target_error = TEmpty | TUnknown string

definition add_target :: "string \<Rightarrow> string \<Rightarrow> plan \<Rightarrow> (target_error, plan) result" where
  "add_target arch tgt p =
     (if tgt = ''vmlinux'' then
        Inr (p\<lparr>makeTargets := makeTargets p @ [''vmlinux''],
               artifacts := AList.update ''vmlinux'' ''/out/vmlinux'' (artifacts p)\<rparr>)
      else if tgt = ''image'' then
        (if arch = ''arm64''
         then Inr (p\<lparr>makeTargets := makeTargets p @ [''Image''],
                     artifacts := AList.update ''arch/arm64/boot/Image'' ''/out/Image'' (artifacts p)\<rparr>)
         else Inr (p\<lparr>makeTargets := makeTargets p @ [''bzImage''],
                     artifacts := AList.update ''arch/x86/boot/bzImage'' ''/out/bzImage'' (artifacts p)\<rparr>))
      else if tgt = ''modules'' then Inr (p\<lparr>makeTargets := makeTargets p @ [''modules''], wantModules := True\<rparr>)
      else if tgt = ''config'' then Inr (p\<lparr>wantConfig := True\<rparr>)
      else if tgt = ''kconfigs'' then Inr (p\<lparr>wantKconfigs := True\<rparr>)
      else Inl (TUnknown tgt))"

fun resolve_tokens :: "string \<Rightarrow> string list \<Rightarrow> plan \<Rightarrow> (target_error, plan) result" where
  "resolve_tokens arch [] p = Inr p"
| "resolve_tokens arch (t # ts) p = rbind (add_target arch t p) (resolve_tokens arch ts)"

definition resolveTargets :: "string \<Rightarrow> string \<Rightarrow> (target_error, plan) result" where
  "resolveTargets arch raw =
     (if raw = [] then Inl TEmpty else resolve_tokens arch (split_on (CHR '','') raw) empty_plan)"

text \<open>Only a complete line counts, so that a comment or a longer symbol does not.\<close>

definition modules_line :: string where "modules_line = ''CONFIG_MODULES=y'' @ [newline]"

definition modulesEnabled :: "string \<Rightarrow> bool" where
  "modulesEnabled config \<longleftrightarrow> has_prefix config modules_line \<or> contains config (newline # modules_line)"

text \<open>\<open>jobs\<close> from the value of \<^verbatim>\<open>GOMAXPROCS(0)\<close>.\<close>

definition jobs :: "int \<Rightarrow> nat" where
  "jobs gomaxprocs = (if gomaxprocs > 0 then nat gomaxprocs else 1)"

function decimal :: "nat \<Rightarrow> string" where
  "decimal n = (if n < 10 then [digit n] else decimal (n div 10) @ [digit (n mod 10)])"
  by pat_completeness auto
termination by (relation "measure id") auto

declare decimal.simps [simp del]

definition arch_args :: "string \<Rightarrow> string \<Rightarrow> string list" where
  "arch_args karch cross = (if karch \<noteq> [] then [''ARCH='' @ karch] else [])
     @ (if cross \<noteq> [] then [''CROSS_COMPILE='' @ cross] else [])"

definition compile_args :: "int \<Rightarrow> string \<Rightarrow> string \<Rightarrow> string list \<Rightarrow> string list" where
  "compile_args gomaxprocs karch cross goals =
     [''-j'' @ decimal (jobs gomaxprocs)]
     @ (if karch = [] \<or> karch = ''x86_64'' then [''KCFLAGS=-Wa,-mx86-used-note=no''] else [])
     @ goals @ arch_args karch cross"

section \<open>What the plan is\<close>

definition image_of :: "string \<Rightarrow> string \<times> string" where
  "image_of arch = (if arch = ''arm64'' then (''arch/arm64/boot/Image'', ''/out/Image'')
     else (''arch/x86/boot/bzImage'', ''/out/bzImage''))"

definition goals_of :: "string \<Rightarrow> string \<Rightarrow> string list" where
  "goals_of arch t = (if t = ''vmlinux'' \<or> t = ''modules'' then [t]
     else if t = ''image'' then [if arch = ''arm64'' then ''Image'' else ''bzImage''] else [])"

definition lifted :: "string \<Rightarrow> string list \<Rightarrow> string \<rightharpoonup> string" where
  "lifted arch ts = (\<lambda>src.
     if src = ''vmlinux'' \<and> ''vmlinux'' \<in> set ts then Some ''/out/vmlinux''
     else if src = fst (image_of arch) \<and> ''image'' \<in> set ts then Some (snd (image_of arch)) else None)"

text \<open>The plan for a list of tokens: what was there before, and what each token adds.\<close>

definition plan_rel :: "string \<Rightarrow> string list \<Rightarrow> plan \<Rightarrow> plan \<Rightarrow> bool" where
  "plan_rel arch ts p q \<longleftrightarrow>
     makeTargets q = makeTargets p @ concat (map (goals_of arch) ts) \<and>
     map_of (artifacts q) = map_of (artifacts p) ++ lifted arch ts \<and>
     (wantModules q \<longleftrightarrow> wantModules p \<or> ''modules'' \<in> set ts) \<and>
     (wantConfig q \<longleftrightarrow> wantConfig p \<or> ''config'' \<in> set ts) \<and>
     (wantKconfigs q \<longleftrightarrow> wantKconfigs p \<or> ''kconfigs'' \<in> set ts)"

lemma image_not_vmlinux: "fst (image_of arch) \<noteq> ''vmlinux''"
  by (simp add: image_of_def)

lemma lifted_Cons: "lifted arch (t # ts) = lifted arch [t] ++ lifted arch ts"
  using image_not_vmlinux [of arch] by (intro ext) (auto simp: lifted_def map_add_def)

lemma add_target_ok: "is_ok (add_target arch t p) \<longleftrightarrow> t \<in> set known_targets"
  by (simp add: add_target_def known_targets_def)

lemma add_target_err: "add_target arch t p = Inl e \<longleftrightarrow> t \<notin> set known_targets \<and> e = TUnknown t"
  by (auto simp: add_target_def known_targets_def)

lemma lifted_single:
  "lifted arch [''vmlinux''] = [''vmlinux'' \<mapsto> ''/out/vmlinux'']"
  "lifted arch [''image''] = [fst (image_of arch) \<mapsto> snd (image_of arch)]"
  "lifted arch [''modules''] = Map.empty" "lifted arch [''config''] = Map.empty"
  "lifted arch [''kconfigs''] = Map.empty"
  by (rule ext, simp add: lifted_def)+

lemma add_target_rel:
  assumes "add_target arch t p = Inr q"
  shows "plan_rel arch [t] p q"
proof -
  have "t \<in> set known_targets" using assms add_target_ok [of arch t p] by simp
  then show ?thesis
    using assms unfolding known_targets_def list.set insert_iff empty_iff
    by (elim disjE)
      (clarsimp simp: add_target_def plan_rel_def goals_of_def lifted_single image_of_def update_conv' split: if_splits)+
qed

lemma resolve_tokens_rel: "resolve_tokens arch ts p = Inr q \<Longrightarrow> plan_rel arch ts p q"
proof (induction ts arbitrary: p)
  case Nil
  then show ?case by (simp add: plan_rel_def lifted_def map_add_def)
next
  case (Cons t ts)
  then obtain r where r: "add_target arch t p = Inr r" "plan_rel arch ts r q" by (auto simp: rbind_Inr_iff)
  from add_target_rel [OF r(1)] r(2) show ?case
    unfolding plan_rel_def lifted_Cons [of _ t ts] by (auto simp: map_add_assoc)
qed

lemma resolve_tokens_ok: "is_ok (resolve_tokens arch ts p) \<longleftrightarrow> set ts \<subseteq> set known_targets"
proof (induction ts arbitrary: p)
  case (Cons t ts)
  show ?case
  proof (cases "add_target arch t p")
    case (Inl e)
    then show ?thesis using add_target_ok [of arch t p] by simp
  next
    case (Inr q)
    then show ?thesis using add_target_ok [of arch t p] Cons.IH [of q] by simp
  qed
qed simp

lemma resolve_exact:
  "resolveTargets arch raw = Inr q \<longleftrightarrow>
     raw \<noteq> [] \<and> set (split_on (CHR '','') raw) \<subseteq> set known_targets \<and>
     resolve_tokens arch (split_on (CHR '','') raw) empty_plan = Inr q"
  using resolve_tokens_ok [of arch "split_on (CHR '','') raw" empty_plan]
  by (auto simp: resolveTargets_def)

lemma resolve_tokens_distinct:
  "resolve_tokens arch ts p = Inr q \<Longrightarrow> distinct (map fst (artifacts p)) \<Longrightarrow> distinct (map fst (artifacts q))"
proof (induction ts arbitrary: p)
  case (Cons t ts)
  then obtain r where r: "add_target arch t p = Inr r" "resolve_tokens arch ts r = Inr q" by (auto simp: rbind_Inr_iff)
  have "distinct (map fst (artifacts r))"
    using r(1) distinct_update [OF Cons.prems(2)] Cons.prems(2)
    by (simp add: add_target_def split: if_splits) (auto simp: distinct_update)
  with Cons.IH r(2) show ?case by blast
qed simp

section \<open>Properties of the plan\<close>

text \<open>
  C22. The target plan is exact: \<^verbatim>\<open>TARGETS\<close> resolves if and only if it is a non-empty comma list of known tokens,
  and then the make goals are those of the tokens in order, a file is lifted to \<open>/out\<close> exactly when its token is
  there (the image file of the architecture, not another one's), and each flag says whether its token is there.
\<close>

theorem resolveTargets_plan:
  "case resolveTargets arch raw of
     Inl e \<Rightarrow> \<not> (raw \<noteq> [] \<and> set (split_on (CHR '','') raw) \<subseteq> set known_targets)
   | Inr q \<Rightarrow> raw \<noteq> [] \<and> set (split_on (CHR '','') raw) \<subseteq> set known_targets \<and>
       plan_rel arch (split_on (CHR '','') raw) empty_plan q \<and> distinct (map fst (artifacts q))"
proof (cases "resolveTargets arch raw")
  case (Inl e)
  then show ?thesis
    using resolve_tokens_ok [of arch "split_on (CHR '','') raw" empty_plan]
    by (simp add: resolveTargets_def split: if_splits)
next
  case (Inr q)
  then have r: "raw \<noteq> [] \<and> set (split_on (CHR '','') raw) \<subseteq> set known_targets"
      "resolve_tokens arch (split_on (CHR '','') raw) empty_plan = Inr q"
    unfolding resolve_exact by blast+
  have "distinct (map fst (artifacts q))"
    using resolve_tokens_distinct [OF r(2)] by (simp add: empty_plan_def)
  with Inr r resolve_tokens_rel [OF r(2)] show ?thesis by simp
qed

text \<open>The environment of every graph resolves in the step, for the architecture of the spec, to the plan of the requested targets.\<close>

lemma graph_targets_resolve:
  assumes "KernelLLB n s = Inr (Run_Mount b os out m)"
  shows "\<exists>arch raw q. env_of os ''KARCH'' = Some arch \<and> env_of os ''TARGETS'' = Some raw \<and>
    resolveTargets arch raw = Inr q \<and> plan_rel (archOrDefault s) (targetsOrDefault s) empty_plan q \<and>
    (makeTargets q \<noteq> [] \<or> wantConfig q \<or> wantKconfigs q)"
proof -
  have v: "Validate s = None" and os: "os = run_opts n s" using assms by (simp_all add: KernelLLB_Inr_iff graph_def)
  let ?raw = "join '','' (targetsOrDefault s)"
  have ne: "targetsOrDefault s \<noteq> []" by (simp add: targetsOrDefault_def)
  have known: "set (targetsOrDefault s) \<subseteq> set known_targets" using targets_no_comma [OF v] by blast
  obtain t ts where t: "targetsOrDefault s = t # ts" using ne by (cases "targetsOrDefault s") auto
  with known have tk: "t \<in> set known_targets" by simp
  then have "t \<noteq> []" by (auto simp: known_targets_def)
  then have "?raw \<noteq> []" by (simp add: t) (cases ts, simp_all)
  moreover have "is_ok (resolve_tokens (archOrDefault s) (targetsOrDefault s) empty_plan)"
    using known by (simp add: resolve_tokens_ok)
  ultimately obtain q where q: "resolveTargets (archOrDefault s) ?raw = Inr q"
      "resolve_tokens (archOrDefault s) (targetsOrDefault s) empty_plan = Inr q"
    using split_targets [OF v] by (auto simp: resolveTargets_def is_ok_iff)
  have rel: "plan_rel (archOrDefault s) (targetsOrDefault s) empty_plan q" using q(2) by (rule resolve_tokens_rel)
  moreover have "makeTargets q \<noteq> [] \<or> wantConfig q \<or> wantKconfigs q"
    using rel tk unfolding t plan_rel_def known_targets_def list.set insert_iff empty_iff
    by (elim disjE) (simp_all add: goals_of_def)
  ultimately show ?thesis using q(1) unfolding os env_values by blast
qed

text \<open>
  \<open>modulesEnabled\<close> is line-anchored: it holds exactly when \<^verbatim>\<open>CONFIG_MODULES=y\<close> is one of the complete lines
  of the config.
\<close>

theorem modulesEnabled_line:
  "modulesEnabled config \<longleftrightarrow> ''CONFIG_MODULES=y'' \<in> set (butlast (split_on newline config))"
proof -
  have "newline \<notin> set ''CONFIG_MODULES=y''" by (simp add: newline_def)
  from line_iff [OF this] show ?thesis by (simp only: modulesEnabled_def modules_line_def)
qed

text \<open>
  The argument vector of the compile: for a graph of the program, the x86-only assembler flag is passed if and
  only if the architecture is x86-64, the goals stand unchanged between it and the architecture assignments, and
  at least one job is asked for.
\<close>

theorem compile_args_shape:
  assumes "KernelLLB n s = Inr g"
  shows "\<exists>flags. compile_args gmp (archOrDefault s) (crossOrDefault s) goals =
      (''-j'' @ decimal (jobs gmp)) # flags @ goals @ [''ARCH='' @ archOrDefault s]
      @ (if crossOrDefault s = [] then [] else [''CROSS_COMPILE='' @ crossOrDefault s]) \<and>
    flags = (if archOrDefault s = ''arm64'' then [] else [''KCFLAGS=-Wa,-mx86-used-note=no'']) \<and> 0 < jobs gmp"
proof -
  have "Validate s = None" using assms by (simp add: KernelLLB_Inr_iff)
  from valid_arch [OF this] show ?thesis by (auto simp: compile_args_def arch_args_def jobs_def)
qed

theorem compile_args_shape_witness:
  "\<exists>flags. compile_args 4 (archOrDefault DefaultSpec) (crossOrDefault DefaultSpec) [''vmlinux''] =
     (''-j'' @ decimal (jobs 4)) # flags @ [''vmlinux''] @ [''ARCH='' @ archOrDefault DefaultSpec]"
proof -
  have "crossOrDefault DefaultSpec = []" by (simp add: crossOrDefault_def archOrDefault_def DefaultSpec_def zero_spec_def)
  then show ?thesis using compile_args_shape [OF graph_DefaultSpec, of 4 "[''vmlinux'']"] by auto
qed

end
