(* ===== verification/Expect.thy ===== *)
theory Expect
  imports BuildSpec
begin

text \<open>
  The expectation gate of \<^verbatim>\<open>kbuild-step\<close> (\<^verbatim>\<open>expect.go\<close>): \<open>validateExpectations\<close> compares the resolved \<^verbatim>\<open>.config\<close> with
  the lines of \<^verbatim>\<open>/kernel.expect\<close>. Reading a line (\<open>read_expect\<close>) is separated from judging it, so that the gate
  can be characterised: it passes exactly when every line is well formed and every expectation holds.
\<close>

section \<open>The gate\<close>

text \<open>A file read: its content, or that it does not exist, or another failure.\<close>

datatype read_result = Content string | Not_Exist | Read_Error string

datatype expect_error =
    XRead string | XNoConfig | XSyntax nat string | XSymbol nat string | XOp nat string | XFailed nat nat

text \<open>\<open>^CONFIG_[A-Z0-9_]+$\<close>\<close>

definition expectSymRe :: rexp where
  "expectSymRe = Cat (Lit ''CONFIG_'') (Plus (Cls ([(CHR ''A'', CHR ''Z''), (CHR ''0'', CHR ''9'')] @ single ''_'')))"

text \<open>The symbols that are \<open>=y\<close> or \<open>=m\<close>; the second map of the code, all lines, is the list itself.\<close>

definition set_symbol :: "string \<Rightarrow> string option" where
  "set_symbol l =
     (case str_cut l (CHR ''='') of (symb, val, ok) \<Rightarrow>
        if ok \<and> has_prefix symb ''CONFIG_'' \<and> (val = ''y'' \<or> val = ''m'') then Some symb else None)"

definition config_set :: "string list \<Rightarrow> string set" where
  "config_set ls = set (List.map_filter set_symbol ls)"

datatype expectation = On string | Off string | Line string

datatype expect_line = Skip | Want expectation | Bad "nat \<Rightarrow> expect_error"

definition read_expect :: "string \<Rightarrow> expect_line" where
  "read_expect raw =
     (let l = trim_space raw in
      if l = [] \<or> has_prefix l ''#'' then Skip
      else case str_cut l (CHR '' '') of (opr, arg0, ok) \<Rightarrow>
        let arg = trim_space arg0 in
        if \<not> ok \<or> arg = [] then Bad (\<lambda>i. XSyntax i l)
        else if opr = ''y'' \<or> opr = ''n'' then
          (if \<not> matches expectSymRe arg then Bad (\<lambda>i. XSymbol i arg)
           else Want (if opr = ''y'' then On arg else Off arg))
        else if opr = ''='' then Want (Line arg)
        else Bad (\<lambda>i. XOp i opr))"

definition met :: "string list \<Rightarrow> expectation \<Rightarrow> bool" where
  "met ls x = (case x of On s \<Rightarrow> s \<in> config_set ls | Off s \<Rightarrow> s \<notin> config_set ls | Line l \<Rightarrow> l \<in> set ls)"

text \<open>The loop: \<open>n\<close> expectations read, \<open>fails\<close> the ones printed as \<^verbatim>\<open>KBF-EXPECT-FAIL\<close>.\<close>

fun expect_loop :: "string list \<Rightarrow> nat \<Rightarrow> nat \<Rightarrow> expectation list \<Rightarrow> string list \<Rightarrow>
    expectation list \<times> (expect_error, nat) result" where
  "expect_loop cfg i n fails [] = (fails, Inr n)"
| "expect_loop cfg i n fails (l # ls) =
     (case read_expect l of
        Skip \<Rightarrow> expect_loop cfg (Suc i) n fails ls
      | Bad e \<Rightarrow> (fails, Inl (e i))
      | Want x \<Rightarrow> expect_loop cfg (Suc i) (Suc n) (if met cfg x then fails else fails @ [x]) ls)"

text \<open>The printed failures and the error, if any.\<close>

definition validateExpectations :: "read_result \<Rightarrow> read_result \<Rightarrow> expectation list \<times> expect_error option" where
  "validateExpectations expect config =
     (case expect of
        Not_Exist \<Rightarrow> ([], None)
      | Read_Error e \<Rightarrow> ([], Some (XRead e))
      | Content raw \<Rightarrow>
          (case config of
             Content cfg \<Rightarrow>
               (case expect_loop (split_on newline cfg) 1 0 [] (split_on newline raw) of
                  (fails, Inl e) \<Rightarrow> (fails, Some e)
                | (fails, Inr n) \<Rightarrow> (fails, if fails = [] then None else Some (XFailed (length fails) n)))
           | _ \<Rightarrow> ([], Some XNoConfig)))"

section \<open>What the gate means\<close>

definition wants :: "string list \<Rightarrow> expectation list" where
  "wants ls = List.map_filter (\<lambda>l. case read_expect l of Want x \<Rightarrow> Some x | _ \<Rightarrow> None) ls"

definition readable :: "string \<Rightarrow> bool" where
  "readable l = (case read_expect l of Bad _ \<Rightarrow> False | _ \<Rightarrow> True)"

lemma map_filter_Nil [simp]: "List.map_filter f [] = []"
  and map_filter_Cons [simp]:
    "List.map_filter f (x # xs) = (case f x of None \<Rightarrow> List.map_filter f xs | Some y \<Rightarrow> y # List.map_filter f xs)"
  by (simp_all add: List.map_filter_def split: option.splits)

lemma expect_loop_ok:
  "list_all readable ls \<Longrightarrow>
   expect_loop cfg i n fails ls = (fails @ filter (\<lambda>x. \<not> met cfg x) (wants ls), Inr (n + length (wants ls)))"
  by (induction cfg i n fails ls rule: expect_loop.induct)
    (auto simp: wants_def readable_def split: expect_line.splits)

lemma expect_loop_bad:
  "\<not> list_all readable ls \<Longrightarrow> \<exists>fs e. expect_loop cfg i n fails ls = (fs, Inl e)"
  by (induction cfg i n fails ls rule: expect_loop.induct)
    (auto simp: readable_def split: expect_line.splits)

text \<open>A symbol is set when a line of the config sets it; symbols hold no \<open>=\<close>.\<close>

lemma set_symbol_iff:
  assumes "CHR ''='' \<notin> set s" and "has_prefix s ''CONFIG_''"
  shows "set_symbol l = Some s \<longleftrightarrow> l = s @ ''=y'' \<or> l = s @ ''=m''"
proof
  assume "set_symbol l = Some s"
  then obtain v where v: "str_cut l (CHR ''='') = (s, v, True)" "v = ''y'' \<or> v = ''m''"
    by (auto simp: set_symbol_def split: prod.splits if_splits)
  from str_cut_True [OF v(1)] v(2) show "l = s @ ''=y'' \<or> l = s @ ''=m''" by auto
next
  assume "l = s @ ''=y'' \<or> l = s @ ''=m''"
  then show "set_symbol l = Some s"
    using assms str_cut_append [of "CHR ''=''" s] by (auto simp: set_symbol_def)
qed

lemma symbol_no_equals:
  assumes "matches expectSymRe s"
  shows "CHR ''='' \<notin> set s \<and> has_prefix s ''CONFIG_''"
proof
  have "\<not> in_ranges (CHR ''='') (alpha expectSymRe)" by code_simp
  with assms show "CHR ''='' \<notin> set s" by (rule matches_excludes)
  show "has_prefix s ''CONFIG_''"
    using assms by (auto simp: matches_lang expectSymRe_def prefix_def simp del: Lit.simps)
qed

lemma config_set_iff:
  assumes "matches expectSymRe s"
  shows "s \<in> config_set ls \<longleftrightarrow> s @ ''=y'' \<in> set ls \<or> s @ ''=m'' \<in> set ls"
proof -
  have "s \<in> config_set ls \<longleftrightarrow> (\<exists>l \<in> set ls. set_symbol l = Some s)"
    unfolding config_set_def by (induction ls) (auto split: option.splits)
  then show ?thesis
    unfolding set_symbol_iff [OF conjunct1 [OF symbol_no_equals [OF assms]] conjunct2 [OF symbol_no_equals [OF assms]]]
    by blast
qed

text \<open>What a line of the file asks of the config, in the words of its documentation.\<close>

definition holds :: "string list \<Rightarrow> expectation \<Rightarrow> bool" where
  "holds ls x = (case x of
      On s \<Rightarrow> s @ ''=y'' \<in> set ls \<or> s @ ''=m'' \<in> set ls
    | Off s \<Rightarrow> s @ ''=y'' \<notin> set ls \<and> s @ ''=m'' \<notin> set ls
    | Line l \<Rightarrow> l \<in> set ls)"

lemma read_expect_symbol: "read_expect l = Want (On s) \<or> read_expect l = Want (Off s) \<Longrightarrow> matches expectSymRe s"
  by (auto simp: read_expect_def Let_def split: if_splits prod.splits)

lemma wants_holds:
  assumes "x \<in> set (wants ls)"
  shows "met cfg x \<longleftrightarrow> holds cfg x"
proof -
  have "\<exists>l. read_expect l = Want x"
    using assms unfolding wants_def by (induction ls) (auto split: expect_line.splits)
  then show ?thesis
    using config_set_iff read_expect_symbol by (cases x) (auto simp: met_def holds_def)
qed

section \<open>Properties of the gate\<close>



text \<open>
  A trailing comment on an expectation is not a comment: \<open>y CONFIG_KVM # note\<close> is refused as a bad symbol, for
  every note, although the format's documentation shows such lines.
\<close>

theorem expect_trailing_comment:
  "read_expect (''y CONFIG_KVM # '' @ note @ ''x'') = Bad (\<lambda>i. XSymbol i (''CONFIG_KVM # '' @ note @ ''x''))"
proof -
  have p: "printable (CHR ''y'')" "printable (CHR ''x'')" "printable (CHR ''C'')" by (simp_all add: printable_def)
  have t: "trim_space (''y CONFIG_KVM # '' @ note @ ''x'') = ''y CONFIG_KVM # '' @ note @ ''x''"
    "trim_space (''CONFIG_KVM # '' @ note @ ''x'') = ''CONFIG_KVM # '' @ note @ ''x''"
    by (rule trim_space_printable; simp add: p)+
  have "\<not> in_ranges (CHR '' '') (alpha expectSymRe)" by code_simp
  then have "\<not> matches expectSymRe (''CONFIG_KVM # '' @ note @ ''x'')"
    using matches_excludes [of expectSymRe "''CONFIG_KVM # '' @ note @ ''x''" "CHR '' ''"] by (auto simp del: matches.simps)
  with t show ?thesis by (simp add: read_expect_def Let_def str_cut_def del: matches.simps)
qed

end
