(* ===== verification/Step.thy ===== *)
theory Step
  imports Pack Targets Expect
begin

text \<open>
  \<open>run\<close> of \<^verbatim>\<open>kbuild-step\<close>: the checks that must fail before any work, the tree, the configuration, the expectation gate,
  and then everything that is published.
\<close>

section \<open>The whole step\<close>

record run_env =
  step_env_of :: step_env
  gomaxprocs :: int
  expect_mount :: read_result  \<comment> \<open>\<^verbatim>\<open>/kernel.expect\<close>\<close>
  stage_dir :: string
  staged_modules :: "disk \<Rightarrow> disk"
  tar_zstd :: "entry list \<Rightarrow> string"
  gzip :: "string \<Rightarrow> string"
  upload :: "string \<Rightarrow> string \<Rightarrow> bool \<Rightarrow> string \<Rightarrow> string \<Rightarrow> string \<Rightarrow> string option"
  seed_tmp :: string

definition setenv :: "step_env \<Rightarrow> string \<Rightarrow> string \<Rightarrow> step_env" where
  "setenv E k v = E\<lparr>getenv := (getenv E)(k := v)\<rparr>"

definition halt_on :: "'e option \<Rightarrow> string \<Rightarrow> unit step" where
  "halt_on x e = (case x of None \<Rightarrow> sret () | Some _ \<Rightarrow> serr e)"

definition or_fail :: "('e, 'a) result \<Rightarrow> string \<Rightarrow> 'a step" where
  "or_fail r e = (case r of Inl _ \<Rightarrow> serr e | Inr a \<Rightarrow> sret a)"

text \<open>The contract checks: nothing has been touched yet.\<close>

definition contract :: "run_env \<Rightarrow> (step_env \<times> plan \<times> seedCfg option) step" where
  "contract R =
     (let E = step_env_of R in
      sbind (or_fail (Timestamp (getenv E ''SOURCE_DATE_EPOCH'')) ''timestamp'') (\<lambda>ts.
      sbind (or_fail (resolveTargets (getenv E ''KARCH'') (getenv E ''TARGETS'')) ''targets'') (\<lambda>p.
      let seed = loadSeedCfg (secrets_of E) in
      sbind (halt_on (checkSeedPush (getenv E ''SEED_PUSH'') seed) ''seed push'') (\<lambda>_.
        sret (setenv E ''KBUILD_BUILD_TIMESTAMP'' ts, p, seed)))))"

definition is_stale :: "string \<Rightarrow> bool" where
  "is_stale n \<longleftrightarrow> has_prefix n ''.kbf-seed-'' \<and> has_suffix (drop 10 n) ''.tmp''"

definition sweep :: "unit step" where
  "sweep = sbind (look (\<lambda>d. filter is_stale (top_names d))) (each (\<lambda>n. ignore (remove_file [n])))"

definition config_file :: "disk \<Rightarrow> read_result" where
  "config_file d = (case read_file d config_path of Some c \<Rightarrow> Content c | None \<Rightarrow> Not_Exist)"

definition gate :: "run_env \<Rightarrow> unit step" where
  "gate R = sbind (look (\<lambda>d. snd (validateExpectations (expect_mount R) (config_file d)))) (\<lambda>e. halt_on e ''expectations'')"

definition prepare :: "run_env \<Rightarrow> step_env \<Rightarrow> seedCfg option \<Rightarrow> unit step" where
  "prepare R E seed =
     sbind sweep (\<lambda>_. sbind (prepareTree E seed) (\<lambda>_. sbind (configure E) (\<lambda>_. gate R)))"

definition compile :: "run_env \<Rightarrow> step_env \<Rightarrow> plan \<Rightarrow> unit step" where
  "compile R E p =
     sbind (remove_file [''.version'']) (\<lambda>_.
     sbind (if wantKconfigs p then bundleKconfigs (gzip R) ''/out/kconfig.txt.gz'' else sret ()) (\<lambda>_.
     sbind (if wantModules p
            then sbind (look (\<lambda>d. case read_file d config_path of None \<Rightarrow> False | Some c \<Rightarrow> modulesEnabled c))
                   (\<lambda>b. if b then sret () else serr ''modules not enabled'')
            else sret ()) (\<lambda>_.
       if makeTargets p \<noteq> [] then runMake E (compile_args (gomaxprocs R) (getenv E ''KARCH'') (getenv E ''CROSS_COMPILE'') (makeTargets p))
       else sret ())))"

text \<open>The artifacts are a Go map, copied in any order; here they are copied in the order of the tokens.\<close>

definition publish :: "run_env \<Rightarrow> step_env \<Rightarrow> plan \<Rightarrow> seedCfg option \<Rightarrow> unit step" where
  "publish R E p seed =
     sbind (each (\<lambda>(src, dst). copyFile (path_of src) dst) (artifacts p)) (\<lambda>_.
     sbind (if wantConfig p then copyFile config_path ''/out/config'' else sret ()) (\<lambda>_.
     sbind (if wantModules p then packModules E (stage_dir R) (staged_modules R) (tar_zstd R) else sret ()) (\<lambda>_.
       case seed of
         Some c \<Rightarrow> if sc_push c then seedPush E (upload R) (seed_tmp R) (tar_zstd R) c else sret ()
       | None \<Rightarrow> sret ())))"

definition run :: "run_env \<Rightarrow> unit step" where
  "run R =
     sbind (contract R) (\<lambda>(E, p, seed).
     sbind (prepare R E seed) (\<lambda>_.
     sbind (compile R E p) (\<lambda>_. publish R E p seed)))"

section \<open>What is published\<close>

text \<open>A computation that leaves \<^verbatim>\<open>/out\<close> alone; one that, if it returns, has written the files \<open>ns\<close> there.\<close>

definition quiet :: "'a step \<Rightarrow> bool" where
  "quiet m \<longleftrightarrow> (\<forall>w r v. m w = (r, v) \<longrightarrow> out v = out w)"

definition emits :: "'a step \<Rightarrow> string list \<Rightarrow> bool" where
  "emits m ns \<longleftrightarrow> (\<forall>w a v. m w = (Ok a, v) \<longrightarrow> (\<exists>xs. out v = out w @ xs \<and> map fst xs = ns))"

named_theorems quiet_intros \<open>constructs that leave \<open>/out\<close> alone\<close>

lemma quiet_basic [quiet_intros]: "quiet (sret a)" "quiet (serr e)" "quiet (look f)" "quiet (sys g)" "quiet (sys_write h c)"
  by (auto simp: quiet_def sret_def serr_def look_def sys_def sys_write_def split: list.splits fate.splits)

lemma quiet_bind [quiet_intros]:
  assumes "quiet m" "\<And>a. quiet (f a)"
  shows "quiet (sbind m f)"
  unfolding quiet_def
proof (intro allI impI)
  fix w r v assume r: "sbind m f w = (r, v)"
  obtain x u where m: "m w = (x, u)" by fastforce
  have u: "out u = out w" using assms(1) m unfolding quiet_def by blast
  show "out v = out w"
    using r m u assms(2) unfolding quiet_def sbind_def by (cases x) auto
qed

lemma quiet_if [quiet_intros]: "quiet m \<Longrightarrow> quiet n \<Longrightarrow> quiet (if b then m else n)"
  by simp

lemma quiet_each [quiet_intros]: "(\<And>x. quiet (f x)) \<Longrightarrow> quiet (each f xs)"
  by (induction xs) (auto intro: quiet_intros)

lemma quiet_ignore [quiet_intros]: "quiet m \<Longrightarrow> quiet (ignore m)"
  unfolding quiet_def ignore_def by (auto split: prod.splits outcome.splits)

lemma quiet_on_error [quiet_intros]:
  assumes "quiet m" "quiet h"
  shows "quiet (on_error m h)"
  unfolding quiet_def
proof (intro allI impI)
  fix w r v assume r: "on_error m h w = (r, v)"
  obtain x u where m: "m w = (x, u)" by fastforce
  obtain y t where h: "h u = (y, t)" by fastforce
  have "out u = out w" "out t = out u" using assms m h unfolding quiet_def by blast+
  then show "out v = out w" using r m h by (cases x; cases y) (auto simp: on_error_def)
qed

lemma quiet_lift [quiet_intros]: "quiet (lift_result r)" "quiet (from_option e x)" "quiet (halt_on y e)" "quiet (or_fail s e)"
  by (auto simp: lift_result_def from_option_def halt_on_def or_fail_def intro: quiet_intros split: sum.splits option.splits)

lemma quiet_files [quiet_intros]: "quiet (write_file p c)" "quiet (remove_file p)" "quiet (remove_all n)" "quiet nukeTree" "quiet (runMake E args)"
  unfolding write_file_def put_content_def remove_file_def remove_all_def nukeTree_def runMake_def case_prod_beta by (intro quiet_intros)+

lemma quiet_mkdir: "quiet (mkdir_all p)" "quiet (entry_path p)" "quiet (root_remove q)"
proof -
  show m: "quiet (mkdir_all p)" for p unfolding mkdir_all_def by (auto intro!: quiet_intros split: option.splits)
  show "quiet (entry_path p)" unfolding entry_path_def by (intro quiet_intros m)
  show "quiet (root_remove q)" unfolding root_remove_def by (auto intro!: quiet_intros split: option.splits node.splits)
qed

lemma quiet_untar [quiet_intros]: "quiet (untarFiltered st strip rename)"
proof -
  have "quiet (write_link p t)" for p t
    unfolding write_link_def by (auto intro!: quiet_intros quiet_mkdir split: option.splits node.splits)
  then have "quiet (write_entry strip rename e)" for e
    unfolding write_entry_def writeEntry_def write_dir_def write_symlink_def
    by (auto intro!: quiet_intros quiet_mkdir split: option.splits entry_kind.splits)
  then show ?thesis unfolding untarFiltered_def by (auto intro!: quiet_intros split: option.splits)
qed

lemma quiet_populate: "quiet (populate E s)"
proof -
  have w: "quiet (root_write p c m)" "quiet (root_unlink p)" for p c m
    unfolding root_write_def root_unlink_def by (intro quiet_intros quiet_mkdir)+
  have "quiet (apply_file g)" for g
    unfolding apply_file_def case_prod_beta by (intro quiet_intros quiet_mkdir w)
  then show ?thesis unfolding populate_def extractTarball_def untar_def applyPatches_def by (intro quiet_intros)
qed

lemma quiet_acquire: "quiet (acquireSource E)"
proof -
  have "quiet (fetch_source E url c s)" for url c s
    unfolding fetch_source_def store_part_def rename_file_def Let_def case_prod_beta
    by (auto intro!: quiet_intros split: option.splits)
  then show ?thesis unfolding acquireSource_def Let_def by (intro quiet_intros)
qed

lemma quiet_prepareTree: "quiet (prepareTree E seed)"
proof -
  have h: "quiet (hydrate E want c)" for want c
    unfolding hydrate_def seedPull_def untarSeed_def by (auto intro!: quiet_intros split: object_reply.splits)
  have c: "quiet (cold E want s)" for want s
    unfolding cold_def by (cases s) (auto intro!: quiet_intros quiet_acquire quiet_populate)
  show ?thesis
    unfolding prepareTree_def replace_source_def unless_present_def
    by (cases seed) (auto intro!: quiet_intros quiet_acquire h c)
qed

lemma quiet_configure: "quiet (configure E)"
proof -
  have "quiet (append_config c)" for c unfolding append_config_def by (auto intro!: quiet_intros split: option.splits node.splits)
  then show ?thesis unfolding configure_def base_config_def Let_def by (intro quiet_intros)
qed

lemma quiet_prepare: "quiet (prepare R E seed)"
  unfolding prepare_def sweep_def gate_def by (intro quiet_intros quiet_prepareTree quiet_configure)

named_theorems emits_intros \<open>what constructs write under \<open>/out\<close>\<close>

lemma emits_quiet: "quiet m \<Longrightarrow> emits m []"
  unfolding quiet_def emits_def by simp

lemma emits_bind [emits_intros]:
  assumes "emits m xs" "\<And>a. emits (f a) ys" "zs = xs @ ys"
  shows "emits (sbind m f) zs"
  unfolding emits_def assms(3)
proof (intro allI impI)
  fix w b v assume r: "sbind m f w = (Ok b, v)"
  obtain x u where m: "m w = (x, u)" by fastforce
  with r obtain a where "x = Ok a" "f a u = (Ok b, v)" by (cases x) (auto simp: sbind_def)
  with m obtain us vs where "out u = out w @ us" "map fst us = xs" "out v = out u @ vs" "map fst vs = ys"
    using assms(1,2) unfolding emits_def by meson
  then show "\<exists>zs. out v = out w @ zs \<and> map fst zs = xs @ ys" by (intro exI [of _ "us @ vs"]) simp
qed

lemma emits_if [emits_intros]: "emits m xs \<Longrightarrow> emits (if b then m else sret ()) (if b then xs else [])"
  by (auto intro: emits_quiet quiet_intros)

lemma emits_emit: "emits (emit n c) [n]"
  unfolding emits_def emit_def by (auto split: list.splits fate.splits)

lemma emits_found: "(\<And>a. emits (g a) ns) \<Longrightarrow> emits (sbind (look f) (\<lambda>x. sbind (from_option e x) g)) ns"
  by (rule emits_bind [OF emits_quiet emits_bind [OF emits_quiet]]) (auto intro: quiet_intros)

lemma emits_copyFile: "emits (copyFile src dst) [dst]"
  unfolding copyFile_def by (intro emits_found emits_emit)

lemma emits_err: "emits (serr e) ns"
  by (simp add: emits_def serr_def)

lemma emits_bundle: "emits (bundleKconfigs z dst) [dst]"
proof -
  have "emits (case t of None \<Rightarrow> sbind (emit dst []) (\<lambda>_. serr e) | Some text \<Rightarrow> emit dst (z text)) [dst]" for t e
    by (cases t) (auto intro: emits_emit emits_bind [OF emits_emit emits_err [of _ "[]"]])
  then show ?thesis
    unfolding bundleKconfigs_def by (rule emits_bind [OF emits_quiet [OF quiet_basic(3)]]) simp
qed

lemma emits_packModules: "emits (packModules E st s z) [''/out/modules.tar.zst'']"
  unfolding packModules_def
  by (rule emits_bind [OF emits_quiet emits_bind [OF emits_quiet emits_emit]]) (auto intro: quiet_intros)

lemma emits_copies: "emits (each (\<lambda>(src, dst). copyFile (path_of src) dst) xs) (map snd xs)"
proof (induction xs)
  case Nil
  then show ?case by (simp add: emits_quiet quiet_intros)
next
  case (Cons x xs)
  then show ?case by (cases x) (auto intro!: emits_bind [OF emits_copyFile])
qed

lemma quiet_seedPush: "quiet (seedPush E put tmp enc c)"
  unfolding seedPush_def Let_def by (auto intro!: quiet_intros split: sum.splits option.splits)

lemma emits_compile: "emits (compile R E p) (if wantKconfigs p then [''/out/kconfig.txt.gz''] else [])"
  unfolding compile_def
  by (rule emits_bind [OF emits_quiet emits_bind [OF emits_if [OF emits_bundle] emits_quiet]]) (auto intro!: quiet_intros)

lemma copyFile_Ok:
  assumes "copyFile src dst w = (Ok (), v)"
  shows "\<exists>c. read_file (disk w) src = Some c \<and> disk v = disk w \<and> out v = out w @ [(dst, c)]"
proof -
  from assms obtain c where c: "read_file (disk w) src = Some c" "emit dst c w = (Ok (), v)"
    by (cases "read_file (disk w) src") (auto simp: copyFile_def sbind_def look_def from_option_def sret_def serr_def)
  from c(2) have "disk v = disk w" "out v = out w @ [(dst, c)]" by (auto simp: emit_def split: list.splits fate.splits)
  with c(1) show ?thesis by blast
qed

text \<open>The artifacts and the config, as they are in the tree \<open>d\<close>.\<close>

definition lifted_files :: "disk \<Rightarrow> plan \<Rightarrow> (string \<times> string) list" where
  "lifted_files d p = map (\<lambda>(src, dst). (dst, the (read_file d (path_of src)))) (artifacts p)
     @ (if wantConfig p then [(''/out/config'', the (read_file d config_path))] else [])"

definition all_present :: "disk \<Rightarrow> plan \<Rightarrow> bool" where
  "all_present d p \<longleftrightarrow> list_all (\<lambda>(src, _). read_file d (path_of src) \<noteq> None) (artifacts p) \<and> (wantConfig p \<longrightarrow> read_file d config_path \<noteq> None)"

lemma copies_Ok:
  "each (\<lambda>(src, dst). copyFile (path_of src) dst) xs w = (Ok (), v) \<Longrightarrow>
   disk v = disk w \<and> list_all (\<lambda>(src, _). read_file (disk w) (path_of src) \<noteq> None) xs \<and>
   out v = out w @ map (\<lambda>(src, dst). (dst, the (read_file (disk w) (path_of src)))) xs"
proof (induction xs arbitrary: w)
  case Nil
  then show ?case by (simp add: sret_def)
next
  case (Cons x xs)
  obtain src dst where x: "x = (src, dst)" by fastforce
  from Cons.prems x obtain u where u: "copyFile (path_of src) dst w = (Ok (), u)" "each (\<lambda>(src, dst). copyFile (path_of src) dst) xs u = (Ok (), v)"
    by (auto simp: sbind_def split: prod.splits outcome.splits)
  from copyFile_Ok [OF u(1)] Cons.IH [OF u(2)] show ?case by (auto simp: x)
qed

lemma publish_Ok:
  assumes "publish R E p seed w = (Ok (), v)"
  shows "all_present (disk w) p \<and> (\<exists>xs. out v = out w @ lifted_files (disk w) p @ xs \<and> map fst xs = (if wantModules p then [''/out/modules.tar.zst''] else []))"
proof -
  let ?push = "case seed of Some c \<Rightarrow> if sc_push c then seedPush E (upload R) (seed_tmp R) (tar_zstd R) c else sret () | None \<Rightarrow> sret ()"
  let ?rest = "sbind (if wantModules p then packModules E (stage_dir R) (staged_modules R) (tar_zstd R) else sret ()) (\<lambda>_. ?push)"
  from assms obtain u where u: "each (\<lambda>(src, dst). copyFile (path_of src) dst) (artifacts p) w = (Ok (), u)"
      "sbind (if wantConfig p then copyFile config_path ''/out/config'' else sret ()) (\<lambda>_. ?rest) u = (Ok (), v)"
    unfolding publish_def by (subst (asm) sbind_def) (auto split: prod.splits outcome.splits)
  from u(2) obtain t where t: "(if wantConfig p then copyFile config_path ''/out/config'' else sret ()) u = (Ok (), t)" "?rest t = (Ok (), v)"
    by (subst (asm) sbind_def) (auto split: prod.splits outcome.splits)
  have "emits ?push []" by (cases seed) (auto intro!: emits_quiet quiet_intros quiet_seedPush)
  then have "emits ?rest (if wantModules p then [''/out/modules.tar.zst''] else [])"
    by (intro emits_bind [OF emits_if [OF emits_packModules]]) simp_all
  with t(2) obtain xs where xs: "out v = out t @ xs" "map fst xs = (if wantModules p then [''/out/modules.tar.zst''] else [])"
    unfolding emits_def by blast
  note c = copies_Ok [OF u(1)]
  show ?thesis
  proof (cases "wantConfig p")
    case True
    with copyFile_Ok [of config_path "''/out/config''" u t] t(1) c xs show ?thesis by (auto simp: all_present_def lifted_files_def)
  next
    case False
    with t(1) c xs show ?thesis by (auto simp: all_present_def lifted_files_def sret_def)
  qed
qed

lemma contract_cases:
  obtains (bad) e where "contract R w = (Err e, w)"
    "(\<exists>x. Timestamp (getenv (step_env_of R) ''SOURCE_DATE_EPOCH'') = Inl x) \<or>
     (\<exists>x. resolveTargets (getenv (step_env_of R) ''KARCH'') (getenv (step_env_of R) ''TARGETS'') = Inl x) \<or>
     (\<exists>x. checkSeedPush (getenv (step_env_of R) ''SEED_PUSH'') (loadSeedCfg (secrets_of (step_env_of R))) = Some x)"
  | (good) ts p where "contract R w = (Ok (setenv (step_env_of R) ''KBUILD_BUILD_TIMESTAMP'' ts, p, loadSeedCfg (secrets_of (step_env_of R))), w)"
      "Timestamp (getenv (step_env_of R) ''SOURCE_DATE_EPOCH'') = Inr ts"
      "resolveTargets (getenv (step_env_of R) ''KARCH'') (getenv (step_env_of R) ''TARGETS'') = Inr p"
      "checkSeedPush (getenv (step_env_of R) ''SEED_PUSH'') (loadSeedCfg (secrets_of (step_env_of R))) = None"
proof -
  let ?E = "step_env_of R"
  show thesis
    using bad good
    by (cases "Timestamp (getenv ?E ''SOURCE_DATE_EPOCH'')"; cases "resolveTargets (getenv ?E ''KARCH'') (getenv ?E ''TARGETS'')";
        cases "checkSeedPush (getenv ?E ''SEED_PUSH'') (loadSeedCfg (secrets_of ?E))")
      (simp_all add: contract_def or_fail_def halt_on_def sbind_def sret_def serr_def Let_def)
qed

text \<open>
  C36. Contract errors come first: a bad epoch, an unknown or empty target list, or a push that cannot be performed fails the
  step before it has changed or fetched anything.
\<close>

theorem run_contract_first:
  assumes "(\<exists>x. Timestamp (getenv (step_env_of R) ''SOURCE_DATE_EPOCH'') = Inl x) \<or>
     (\<exists>x. resolveTargets (getenv (step_env_of R) ''KARCH'') (getenv (step_env_of R) ''TARGETS'') = Inl x) \<or>
     (\<exists>x. checkSeedPush (getenv (step_env_of R) ''SEED_PUSH'') (loadSeedCfg (secrets_of (step_env_of R))) = Some x)"
  shows "\<exists>e. run R w = (Err e, w)"
proof (cases rule: contract_cases [where R = R and w = w])
  case (bad e)
  then show ?thesis by (simp add: run_def sbind_def)
next
  case (good ts p)
  then show ?thesis using assms by auto
qed

text \<open>What a step that returns went through.\<close>

lemma run_trace:
  assumes "run R w = (Ok (), v)"
  obtains ts p u bs ms where "Timestamp (getenv (step_env_of R) ''SOURCE_DATE_EPOCH'') = Inr ts"
    "resolveTargets (getenv (step_env_of R) ''KARCH'') (getenv (step_env_of R) ''TARGETS'') = Inr p"
    "sbind (prepare R (setenv (step_env_of R) ''KBUILD_BUILD_TIMESTAMP'' ts) (loadSeedCfg (secrets_of (step_env_of R))))
       (\<lambda>_. compile R (setenv (step_env_of R) ''KBUILD_BUILD_TIMESTAMP'' ts) p) w = (Ok (), u)"
    "all_present (disk u) p" "out v = out w @ bs @ lifted_files (disk u) p @ ms"
    "map fst bs = (if wantKconfigs p then [''/out/kconfig.txt.gz''] else [])"
    "map fst ms = (if wantModules p then [''/out/modules.tar.zst''] else [])"
proof (cases rule: contract_cases [where R = R and w = w])
  case (bad e)
  then show ?thesis using assms by (simp add: run_def sbind_def)
next
  case (good ts p)
  let ?E = "setenv (step_env_of R) ''KBUILD_BUILD_TIMESTAMP'' ts" and ?s = "loadSeedCfg (secrets_of (step_env_of R))"
  have r: "sbind (prepare R ?E ?s) (\<lambda>_. sbind (compile R ?E p) (\<lambda>_. publish R ?E p ?s)) w = (Ok (), v)"
    using assms good(1) by (simp add: run_def sbind_def)
  then obtain a u where a: "prepare R ?E ?s w = (Ok (), a)" "compile R ?E p a = (Ok (), u)" "publish R ?E p ?s u = (Ok (), v)"
    by (auto simp: sbind_def split: prod.splits outcome.splits)
  have w: "out a = out w" using quiet_prepare [of R ?E ?s] a(1) unfolding quiet_def by blast
  obtain bs where b: "out u = out a @ bs" "map fst bs = (if wantKconfigs p then [''/out/kconfig.txt.gz''] else [])"
    using emits_compile [of R ?E p] a(2) unfolding emits_def by blast
  obtain ms where m: "all_present (disk u) p" "out v = out u @ lifted_files (disk u) p @ ms" "map fst ms = (if wantModules p then [''/out/modules.tar.zst''] else [])"
    using publish_Ok [OF a(3)] by blast
  have "sbind (prepare R ?E ?s) (\<lambda>_. compile R ?E p) w = (Ok (), u)" using a(1,2) by (simp add: sbind_def)
  moreover have "out v = out w @ bs @ lifted_files (disk u) p @ ms" using w b(1) m(2) by simp
  ultimately show ?thesis using that [OF good(2,3) _ m(1)] b(2) m(3) by blast
qed

text \<open>
  C7. A step that returns has written exactly the files its targets ask for, each once and in this order: the Kconfig bundle, the
  artifacts, the config and the module archive; and the artifacts and the config are the files of the tree the compilation
  left.
\<close>

theorem run_outputs:
  assumes "run R w = (Ok (), v)"
  shows "\<exists>ts p u bundle modules. Timestamp (getenv (step_env_of R) ''SOURCE_DATE_EPOCH'') = Inr ts \<and>
     resolveTargets (getenv (step_env_of R) ''KARCH'') (getenv (step_env_of R) ''TARGETS'') = Inr p \<and>
     sbind (prepare R (setenv (step_env_of R) ''KBUILD_BUILD_TIMESTAMP'' ts) (loadSeedCfg (secrets_of (step_env_of R))))
       (\<lambda>_. compile R (setenv (step_env_of R) ''KBUILD_BUILD_TIMESTAMP'' ts) p) w = (Ok (), u) \<and>
     all_present (disk u) p \<and> out v = out w @ bundle @ lifted_files (disk u) p @ modules \<and>
     map fst bundle = (if wantKconfigs p then [''/out/kconfig.txt.gz''] else []) \<and>
     map fst modules = (if wantModules p then [''/out/modules.tar.zst''] else [])"
  by (rule run_trace [OF assms]) blast

section \<open>What a published result rests on\<close>

lemma setenv_simps:
  "stampWant (setenv E ''KBUILD_BUILD_TIMESTAMP'' ts) = stampWant E"
  "clean_inputs (setenv E ''KBUILD_BUILD_TIMESTAMP'' ts) = clean_inputs E"
  "clean_seed (setenv E ''KBUILD_BUILD_TIMESTAMP'' ts) seed = clean_seed E seed"
  "make_spares (setenv E ''KBUILD_BUILD_TIMESTAMP'' ts) = make_spares E"
  "config_mount (setenv E ''KBUILD_BUILD_TIMESTAMP'' ts) = config_mount E"
  "cfgID (setenv E ''KBUILD_BUILD_TIMESTAMP'' ts) cfg = cfgID E cfg"
  by (simp_all add: setenv_def stampWant_def patchFiles_def clean_inputs_def clean_seed_def get_object_def make_spares_def cfgID_def Let_def)

definition stamp_node :: "string \<Rightarrow> disk \<Rightarrow> bool" where
  "stamp_node want d \<longleftrightarrow> (\<exists>m t. map_of d stamp_path = Some (File want m t))"

lemma stamp_node_read: "stamp_node want d \<Longrightarrow> readStamp d = want"
  by (auto simp: stamp_node_def readStamp_def stamp_path_def read_file_def)

lemma built_stamp_node:
  assumes "built E seed want d0 d" "plain reserved d0" "want \<noteq> ''none''"
  shows "stamp_node want d"
proof -
  have st: "stamp_node want d" if "stamped want d2 d" for d2 using that by (simp add: stamp_node_def stamped_def)
  have "stamp_node want d0" if "readStamp d0 = want"
    using that assms(2,3) by (auto simp: stamp_node_def readStamp_plain split: option.splits node.splits)
  then show ?thesis using assms(1) st unfolding built_def cold_tree_def seed_tree_def by blast
qed

lemma configured_marker: "configured E cfg d0 d \<Longrightarrow> read_file d marker_path = Some (cfgID E cfg)"
  by (auto simp: configured_def read_file_def marker_path_def)

definition passed :: "run_env \<Rightarrow> string \<Rightarrow> string \<Rightarrow> disk \<Rightarrow> bool" where
  "passed R want cfg d \<longleftrightarrow> readStamp d = want \<and> read_file d marker_path = Some (cfgID (step_env_of R) cfg) \<and>
     snd (validateExpectations (expect_mount R) (config_file d)) = None"

lemma sweep_keeps:
  assumes "plain reserved d0" "\<forall>t. map_of d0 [''Makefile''] \<noteq> Some (Symlink t)"
  shows "triple (\<lambda>d. d = d0) sweep (\<lambda>_ d. plain reserved d \<and> (\<forall>t. map_of d [''Makefile''] \<noteq> Some (Symlink t)))
    (\<lambda>_. True)"
proof -
  let ?I = "\<lambda>d. plain reserved d \<and> (\<forall>t. map_of d [''Makefile''] \<noteq> Some (Symlink t))"
  have r: "triple ?I (ignore (remove_file [n])) (\<lambda>_. ?I) ?I" for n
    by (intro triple_ignore triple_remove_file) (auto simp: delete_conv' intro!: plain_del)
  have e: "triple ?I (each (\<lambda>n. ignore (remove_file [n])) xs) (\<lambda>_. ?I) ?I" for xs by (intro triple_each_inv r)
  show ?thesis
    unfolding sweep_def by (rule triple_look_then, rule triple_conseq [OF e]) (auto simp: assms)
qed

lemma prepare_passed:
  assumes "stampWant E = Inr want" "clean_inputs E" "clean_seed E seed" "make_spares E" "config_mount E = Some cfg"
    and d0: "plain reserved d0" "\<forall>t. map_of d0 [''Makefile''] \<noteq> Some (Symlink t)" and id: "cfgID E cfg = cfgID (step_env_of R) cfg"
  shows "triple (\<lambda>d. d = d0) (prepare R E seed) (\<lambda>_. passed R want cfg) (\<lambda>_. True)"
proof -
  let ?T = "\<lambda>_::disk. True"
  have w: "want \<noteq> ''none''" using want_not_none [OF assms(1)] by simp
  have pt: "triple (\<lambda>d. plain reserved d \<and> (\<forall>t. map_of d [''Makefile''] \<noteq> Some (Symlink t))) (prepareTree E seed) (\<lambda>_. stamp_node want) ?T"
  proof (rule triple_fix)
    fix d1 assume a: "plain reserved d1 \<and> (\<forall>t. map_of d1 [''Makefile''] \<noteq> Some (Symlink t))"
    show "triple (\<lambda>d. d = d1) (prepareTree E seed) (\<lambda>_. stamp_node want) ?T"
      by (rule triple_conseq [OF prepareTree_triple [OF assms(1-3)]]) (use a w in \<open>auto intro: built_stamp_node\<close>)
  qed
  have cf: "triple (stamp_node want) (configure E) (\<lambda>_ d. stamp_node want d \<and> read_file d marker_path = Some (cfgID E cfg)) ?T"
  proof (rule triple_fix)
    fix d1 assume "stamp_node want d1"
    then obtain m t where s: "map_of d1 stamp_path = Some (File want m t)" by (auto simp: stamp_node_def)
    have "triple (\<lambda>d. d = d1) (configure E) (\<lambda>_ d. map_of d stamp_path = Some (File want m t)) ?T"
      by (rule triple_conseq [OF configure_stamp [OF assms(4)]]) (use s in auto)
    moreover have "triple (\<lambda>d. d = d1) (configure E) (\<lambda>_ d. read_file d marker_path = Some (cfgID E cfg)) ?T"
      by (rule triple_conseq [OF configure_triple [OF assms(5,4)]]) (auto intro: configured_marker)
    ultimately show "triple (\<lambda>d. d = d1) (configure E) (\<lambda>_ d. stamp_node want d \<and> read_file d marker_path = Some (cfgID E cfg)) ?T"
      unfolding triple_def stamp_node_def by (fastforce split: prod.splits outcome.splits)
  qed
  have g: "triple (\<lambda>d. stamp_node want d \<and> read_file d marker_path = Some (cfgID E cfg)) (gate R) (\<lambda>_. passed R want cfg) ?T"
    unfolding gate_def
    by (rule triple_look_then)
      (auto simp: halt_on_def passed_def id stamp_node_read split: option.splits intro!: triple_ret triple_err)
  show ?thesis
    unfolding prepare_def
    by (rule triple_bind [OF sweep_keeps [OF d0]], rule triple_bind [OF pt], rule triple_bind [OF cf g])
qed

text \<open>
  C3. Nothing is published unverified: if the step has written anything under \<^verbatim>\<open>/out\<close>, whatever happened before or after, then the
  contract held, the tree carried the stamp of this build's inputs, the configuration marker named this configuration, and
  every expectation held of the \<^verbatim>\<open>.config\<close> in the tree.
\<close>

theorem run_publishes_passed:
  assumes "stampWant (step_env_of R) = Inr want" "clean_inputs (step_env_of R)"
    "clean_seed (step_env_of R) (loadSeedCfg (secrets_of (step_env_of R)))"
    "make_spares (step_env_of R)" "config_mount (step_env_of R) = Some cfg"
    and "plain reserved (disk w)" "\<forall>t. map_of (disk w) [''Makefile''] \<noteq> Some (Symlink t)"
    and "run R w = (r, v)" "out v \<noteq> out w"
  shows "\<exists>E p seed u. contract R w = (Ok (E, p, seed), w) \<and> prepare R E seed w = (Ok (), u) \<and> passed R want cfg (disk u)"
proof (cases rule: contract_cases [where R = R and w = w])
  case (bad e)
  then show ?thesis using assms(8,9) by (simp add: run_def sbind_def)
next
  case (good ts p)
  let ?E = "setenv (step_env_of R) ''KBUILD_BUILD_TIMESTAMP'' ts" and ?s = "loadSeedCfg (secrets_of (step_env_of R))"
  obtain x u where pr: "prepare R ?E ?s w = (x, u)" by fastforce
  have u: "out u = out w" using quiet_prepare pr unfolding quiet_def by blast
  have ok: "x = Ok ()" using assms(8,9) good(1) pr u by (cases x) (auto simp: run_def sbind_def)
  have "triple (\<lambda>d. d = disk w) (prepare R ?E ?s) (\<lambda>_. passed R want cfg) (\<lambda>_. True)"
    by (rule prepare_passed) (simp_all add: setenv_simps assms)
  from triple_run [OF this refl] have "passed R want cfg (disk u)" using pr ok by simp
  then show ?thesis using good(1) pr ok by blast
qed

text \<open>A warm build of the config target, and one without targets.\<close>

definition demo_run :: "string \<Rightarrow> run_env" where
  "demo_run targets = \<lparr>
     step_env_of = demo_env\<lparr>getenv := (getenv demo_env)(''TARGETS'' := targets, ''SOURCE_DATE_EPOCH'' := ''0'')\<rparr>,
     gomaxprocs = 4, expect_mount = Content ''y CONFIG_A'', stage_dir = ''/tmp/s'', staged_modules = (\<lambda>_. []),
     tar_zstd = (\<lambda>_. []), gzip = (\<lambda>s. s), upload = (\<lambda>_ _ _ _ _ _. None), seed_tmp = ''.kbf-seed-1.tmp''\<rparr>"

lemma demo_run_env:
  "stampWant (step_env_of (demo_run t)) = Inr ''src=v6 patches=none''" "clean_inputs (step_env_of (demo_run t))"
  "loadSeedCfg (secrets_of (step_env_of (demo_run t))) = None" "make_spares (step_env_of (demo_run t))"
  "config_mount (step_env_of (demo_run t)) = Some ''CONFIG_A=y''" "getenv (step_env_of (demo_run t)) ''KARCH'' = []"
  "getenv (step_env_of (demo_run t)) ''TARGETS'' = t" "getenv (step_env_of (demo_run t)) ''SOURCE_DATE_EPOCH'' = ''0''"
  "getenv (step_env_of (demo_run t)) ''SEED_PUSH'' = []"
  using demo_clean
  by (simp_all add: demo_run_def demo_env_def stampWant_def clean_inputs_def loadSeedCfg_def make_spares_def)

lemma plain_full_tree: "plain reserved full_tree" "\<forall>t. map_of full_tree [''Makefile''] \<noteq> Some (Symlink t)"
  by (auto simp: plain_def full_tree_def split: if_splits)

lemma demo_rest:
  "(let E = setenv (step_env_of (demo_run ''config'')) ''KBUILD_BUILD_TIMESTAMP'' ts; p = empty_plan\<lparr>wantConfig := True\<rparr> in
      sbind (prepare (demo_run ''config'') E None) (\<lambda>_. sbind (compile (demo_run ''config'') E p) (\<lambda>_.
        publish (demo_run ''config'') E p None)) (start full_tree []))
   = (Ok (), (start full_tree [])\<lparr>out := [(''/out/config'', ''CONFIG_A=y'')]\<rparr>)"
  by code_simp

lemma demo_run_ok: "run (demo_run ''config'') (start full_tree []) = (Ok (), (start full_tree [])\<lparr>out := [(''/out/config'', ''CONFIG_A=y'')]\<rparr>)"
proof -
  have rt: "resolveTargets [] ''config'' = Inr (empty_plan\<lparr>wantConfig := True\<rparr>)" by code_simp
  have ts: "Timestamp ''0'' \<noteq> Inl e" for e by (simp add: Timestamp_eval)
  show ?thesis
  proof (cases rule: contract_cases [where R = "demo_run ''config''" and w = "start full_tree []"])
    case (bad e)
    then show ?thesis using ts by (auto simp: demo_run_env rt checkSeedPush_def)
  next
    case (good ts p)
    have p: "p = empty_plan\<lparr>wantConfig := True\<rparr>" using good(3) by (simp add: demo_run_env rt)
    show ?thesis using demo_rest [of ts, unfolded Let_def] good(1) unfolding run_def p by (simp add: sbind_def demo_run_env)
  qed
qed

theorem run_contract_first_witness: "\<exists>e. run (demo_run []) (start full_tree [Kill]) = (Err e, start full_tree [Kill])"
  by (rule run_contract_first) (simp add: demo_run_env resolveTargets_def)

theorem run_outputs_witness:
  "\<exists>v (u :: world). run (demo_run ''config'') (start full_tree []) = (Ok (), v) \<and> all_present (disk u) (empty_plan\<lparr>wantConfig := True\<rparr>) \<and>
     out v = lifted_files (disk u) (empty_plan\<lparr>wantConfig := True\<rparr>)"
proof -
  have rt: "resolveTargets [] ''config'' = Inr (empty_plan\<lparr>wantConfig := True\<rparr>)" by code_simp
  obtain p and u :: world and bs ms where o: "resolveTargets [] ''config'' = Inr p" "all_present (disk u) p" "map fst bs = (if wantKconfigs p then [''/out/kconfig.txt.gz''] else [])"
      "map fst ms = (if wantModules p then [''/out/modules.tar.zst''] else [])"
      "out (start full_tree []\<lparr>out := [(''/out/config'', ''CONFIG_A=y'')]\<rparr>) = out (start full_tree []) @ bs @ lifted_files (disk u) p @ ms"
    using run_outputs [OF demo_run_ok] unfolding demo_run_env by blast
  have p: "p = empty_plan\<lparr>wantConfig := True\<rparr>" using o(1) rt by simp
  have "bs = []" "ms = []" using o(3,4) by (simp_all add: p empty_plan_def)
  then show ?thesis using demo_run_ok o(2,5) p by (intro exI [of _ "start full_tree []\<lparr>out := [(''/out/config'', ''CONFIG_A=y'')]\<rparr>"] exI [of _ u]) simp
qed

theorem run_publishes_passed_witness:
  "\<exists>E p seed u. contract (demo_run ''config'') (start full_tree []) = (Ok (E, p, seed), start full_tree []) \<and>
     prepare (demo_run ''config'') E seed (start full_tree []) = (Ok (), u) \<and>
     passed (demo_run ''config'') ''src=v6 patches=none'' ''CONFIG_A=y'' (disk u)"
  by (rule run_publishes_passed [OF demo_run_env(1,2) _ demo_run_env(4,5) _ _ demo_run_ok])
    (simp_all add: demo_run_env clean_seed_def plain_full_tree)

end
