(* ===== verification/BuildLog.thy ===== *)
theory BuildLog
  imports Prelude
begin

text \<open>
  The count of compiled objects in a build log: the matches of \<^verbatim>\<open>(?m)^\s+CC\s+\<close>, found the way Go's \<^verbatim>\<open>regexp\<close> finds them, from left to
  right and without overlap. On the lines \<^verbatim>\<open>make\<close> prints, it is the number of lines that announce a compilation.
\<close>

section \<open>The expression\<close>

text \<open>\<^verbatim>\<open>\s\<close>: tab, line feed, form feed, carriage return and space.\<close>

definition re_space :: "char \<Rightarrow> bool" where
  "re_space c \<longleftrightarrow> c \<in> {CHR 0x09, newline, CHR 0x0C, CHR 0x0D, CHR '' ''}"

text \<open>
  A match at the start of \<open>s\<close>: whether it ends behind a line feed, and what follows it. Both repetitions take all the white
  space there is.
\<close>

definition cc_match :: "string \<Rightarrow> (bool \<times> string) option" where
  "cc_match s =
     (let r = dropWhile re_space s; t = drop 2 r in
      if takeWhile re_space s \<noteq> [] \<and> has_prefix r ''CC'' \<and> takeWhile re_space t \<noteq> []
      then Some (last (takeWhile re_space t) = newline, dropWhile re_space t) else None)"

lemma cc_match_shorter:
  assumes "cc_match s = Some (b, t)"
  shows "length t < length s"
proof -
  let ?r = "dropWhile re_space s"
  have "takeWhile re_space s \<noteq> []" "t = dropWhile re_space (drop 2 ?r)"
    using assms by (auto simp: cc_match_def Let_def split: if_splits)
  moreover have "length (takeWhile re_space s) + length ?r = length s" by (metis length_append takeWhile_dropWhile_id)
  moreover have "length (dropWhile re_space (drop 2 ?r)) \<le> length ?r" using length_dropWhile_le [of re_space "drop 2 ?r"] by simp
  ultimately show ?thesis by (cases "takeWhile re_space s") auto
qed

text \<open>\<open>bol\<close>: the next character is the first of a line.\<close>

function cc_from :: "bool \<Rightarrow> string \<Rightarrow> nat" where
  "cc_from bol s =
     (case (if bol then cc_match s else None) of
        Some (b, t) \<Rightarrow> Suc (cc_from b t)
      | None \<Rightarrow> (case s of [] \<Rightarrow> 0 | c # cs \<Rightarrow> cc_from (c = newline) cs))"
  by pat_completeness auto
termination
  by (relation "measure (\<lambda>(bol, s). length s)") (auto simp: cc_match_shorter split: if_splits)

declare cc_from.simps [simp del]

definition count_cc :: "string \<Rightarrow> nat" where
  "count_cc logs = cc_from True logs"

section \<open>Lines\<close>

text \<open>A line that announces a compilation: white space, \<^verbatim>\<open>CC\<close>, white space. A full line is not blank, has nothing blank at its end, and says
  more than \<^verbatim>\<open>CC\<close>.\<close>

definition cc_line :: "string \<Rightarrow> bool" where
  "cc_line l \<longleftrightarrow> (case l of [] \<Rightarrow> False | c # _ \<Rightarrow> re_space c) \<and>
     (let r = dropWhile re_space l in take 2 r = ''CC'' \<and> (case drop 2 r of [] \<Rightarrow> False | c # _ \<Rightarrow> re_space c))"

definition full_line :: "string \<Rightarrow> bool" where
  "full_line l \<longleftrightarrow> newline \<notin> set l \<and> l \<noteq> [] \<and> \<not> re_space (last l) \<and> dropWhile re_space l \<noteq> ''CC''"

lemma cc_from_skip: "newline \<notin> set l \<Longrightarrow> cc_from False (l @ newline # rest) = cc_from True rest"
proof (induction l)
  case Nil
  then show ?case by (simp add: cc_from.simps [of False])
next
  case (Cons c l)
  then have "(c = newline) = False" by auto
  with Cons show ?case by (simp add: cc_from.simps [of False "c # _"])
qed

lemma span_append:
  assumes "l \<noteq> []" "\<not> p (last l)"
  shows "takeWhile p (l @ r) = takeWhile p l" "dropWhile p (l @ r) = dropWhile p l @ r" "dropWhile p l \<noteq> []"
    "last (dropWhile p l) = last l"
proof -
  have x: "last l \<in> set l" using assms(1) by simp
  then show "takeWhile p (l @ r) = takeWhile p l" "dropWhile p (l @ r) = dropWhile p l @ r"
    using assms(2) by (simp_all add: takeWhile_append1 [OF x] dropWhile_append1 [OF x])
  show n: "dropWhile p l \<noteq> []" using x assms(2) by (auto simp: dropWhile_eq_Nil_conv)
  show "last (dropWhile p l) = last l" using last_appendR [OF n, of "takeWhile p l"] by simp
qed

lemma cc_match_line:
  assumes "full_line l"
  shows "cc_match (l @ newline # rest) =
    (if cc_line l then Some (False, dropWhile re_space (drop 2 (dropWhile re_space l)) @ newline # rest) else None)"
proof -
  let ?r = "dropWhile re_space l" and ?t = "drop 2 (dropWhile re_space l)"
  have l: "l \<noteq> []" "\<not> re_space (last l)" "newline \<notin> set l" "?r \<noteq> ''CC''" using assms by (auto simp: full_line_def)
  note sp = span_append [of l re_space, OF l(1,2)]
  have first: "takeWhile re_space l \<noteq> [] \<longleftrightarrow> (case l of [] \<Rightarrow> False | c # _ \<Rightarrow> re_space c)" by (cases l) auto
  have pre: "has_prefix (?r @ newline # rest) ''CC'' \<longleftrightarrow> take 2 ?r = ''CC''"
    using sp(3) by (cases ?r; cases "tl ?r") (auto simp: prefix_def newline_def)
  show ?thesis
  proof (cases "take 2 ?r = ''CC''")
    case False
    then show ?thesis by (simp add: cc_match_def Let_def sp pre cc_line_def)
  next
    case True
    then have r: "?r = ''CC'' @ ?t" by (metis append_take_drop_id)
    then have "?t \<noteq> []" using l(4) by auto
    moreover from this have "last ?t = last l" using sp(4) r by (metis last_appendR)
    ultimately have t: "?t \<noteq> []" "\<not> re_space (last ?t)" using l(2) by simp_all
    note tp = span_append [of ?t re_space, OF t]
    have d: "drop 2 (?r @ newline # rest) = ?t @ newline # rest" by (subst r) simp
    have sub: "set (takeWhile re_space ?t) \<subseteq> set l" by (auto dest!: set_takeWhileD in_set_dropD set_dropWhileD)
    have nl: "last (takeWhile re_space ?t) \<noteq> newline" if "takeWhile re_space ?t \<noteq> []"
      using subsetD [OF sub last_in_set [OF that]] l(3) by metis
    have "takeWhile re_space ?t \<noteq> [] \<longleftrightarrow> (case ?t of [] \<Rightarrow> False | c # _ \<Rightarrow> re_space c)" by (cases ?t) auto
    then have line: "cc_line l \<longleftrightarrow> takeWhile re_space l \<noteq> [] \<and> takeWhile re_space ?t \<noteq> []"
      unfolding cc_line_def Let_def first [symmetric] by (simp only: True simp_thms)
    have "cc_match (l @ newline # rest) = (if takeWhile re_space l \<noteq> [] \<and> takeWhile re_space ?t \<noteq> []
        then Some (last (takeWhile re_space ?t) = newline, dropWhile re_space ?t @ newline # rest) else None)"
      unfolding cc_match_def Let_def sp(1,2) d tp(1,2) pre by (simp only: True simp_thms)
    then show ?thesis using nl by (simp only: line split: if_split) blast
  qed
qed

lemma cc_from_line:
  assumes "full_line l"
  shows "cc_from True (l @ newline # rest) = (if cc_line l then 1 else 0) + cc_from True rest"
proof (cases "cc_line l")
  case True
  have "newline \<notin> set (dropWhile re_space (drop 2 (dropWhile re_space l)))"
    using assms by (auto simp: full_line_def dest!: set_dropWhileD in_set_dropD)
  then show ?thesis using True cc_match_line [OF assms, of rest] by (simp add: cc_from.simps [of True] cc_from_skip)
next
  case False
  obtain c cs where l: "l = c # cs" "newline \<notin> set cs" "(c = newline) = False" using assms by (cases l) (auto simp: full_line_def)
  then show ?thesis using False cc_match_line [OF assms, of rest] by (simp add: cc_from.simps [of True "c # _"] cc_from_skip)
qed

text \<open>
  On a log of full lines the count is the number of lines that announce a compilation.
\<close>

theorem count_cc_lines:
  assumes "list_all full_line ls"
  shows "count_cc (concat (map (\<lambda>l. l @ [newline]) ls)) = length (filter cc_line ls)"
  using assms unfolding count_cc_def
  by (induction ls) (simp_all add: cc_from.simps [of True "[]"] cc_match_def cc_from_line)

text \<open>A line of \<^verbatim>\<open>CC\<close> alone takes the indentation of the next line with it, which is then not counted.\<close>

lemma count_cc_overlap:
  "count_cc (''  CC'' @ [newline] @ ''  CC  fork.o'' @ [newline]) = 1" "count_cc (''  CC  exit.o'' @ [newline] @ ''  CC  fork.o'' @ [newline]) = 2"
  by code_simp+

end
