(* ===== verification/Client.thy ===== *)
theory Client
  imports BuildLog Gateway "HOL-Library.AList"
begin

text \<open>
  \<^verbatim>\<open>client.go\<close>: the driver. \<open>Build\<close> checks what it can before it contacts the daemon, parses cache entries (CSV), hands the seed
  secrets over and solves through \<open>GatewaySolve\<close>; the status stream is folded into one row per vertex.
\<close>

section \<open>Cache entries\<close>

text \<open>\<^verbatim>\<open>encoding/csv\<close>, one record: lines with their line feed, quoted fields that may span lines.\<close>

datatype csv_error = CsvEOF | CsvQuote | CsvBareQuote

definition quote :: char where "quote = CHR 0x22"
definition carriage :: char where "carriage = CHR 0x0D"

definition lengthNL :: "string \<Rightarrow> nat" where
  "lengthNL l = (if l \<noteq> [] \<and> last l = newline then 1 else 0)"

definition norm_line :: "string \<Rightarrow> string" where
  "norm_line l = (if has_suffix l [carriage, newline] then take (length l - 2) l @ [newline] else l)"

definition csv_lines :: "string \<Rightarrow> string list" where
  "csv_lines s =
     (let ps = split_on newline s; final = last ps in
      map (\<lambda>l. norm_line (l @ [newline])) (butlast ps)
      @ (if final = [] then [] else [if last final = carriage then butlast final else final]))"

lemma str_cut_shorter: "(a, b, True) = str_cut s c \<Longrightarrow> length b < length s"
  using str_cut_True [of s c a b] by simp

function csv_fields :: "string \<Rightarrow> string list \<Rightarrow> string list \<Rightarrow> (csv_error, string list) result"
  and csv_quoted :: "string \<Rightarrow> string list \<Rightarrow> string \<Rightarrow> string list \<Rightarrow> (csv_error, string list) result" where
  "csv_fields line rest acc =
     (if line = [] \<or> hd line \<noteq> quote then
        (case str_cut line (CHR '','') of (field, after, found) \<Rightarrow>
           let f = (if found then field else take (length line - lengthNL line) line) in
           if quote \<in> set f then Inl CsvBareQuote
           else if found then csv_fields after rest (acc @ [f]) else Inr (acc @ [f]))
      else csv_quoted (tl line) rest [] acc)"
| "csv_quoted line rest buf acc =
     (case str_cut line quote of (pre, after, found) \<Rightarrow>
        if found then
          (if after \<noteq> [] \<and> hd after = quote then csv_quoted (tl after) rest (buf @ pre @ [quote]) acc
           else if after \<noteq> [] \<and> hd after = CHR '','' then csv_fields (tl after) rest (acc @ [buf @ pre])
           else if length after = lengthNL after then Inr (acc @ [buf @ pre])
           else Inl CsvQuote)
        else if line \<noteq> [] then
          (case rest of [] \<Rightarrow> csv_quoted [] [] (buf @ line) acc | l # ls \<Rightarrow> csv_quoted l ls (buf @ line) acc)
        else Inl CsvQuote)"
  by pat_completeness auto

termination
  by (relation "measure (\<lambda>x. case x of Inl (l, r, _) \<Rightarrow> length l + sum_list (map (\<lambda>y. Suc (length y)) r)
      | Inr (l, r, _, _) \<Rightarrow> length l + sum_list (map (\<lambda>y. Suc (length y)) r))")
    (auto dest: str_cut_shorter)

declare csv_fields.simps [simp del] csv_quoted.simps [simp del]

definition csv_read :: "string \<Rightarrow> (csv_error, string list) result" where
  "csv_read s =
     (case dropWhile (\<lambda>l. length l = lengthNL l) (csv_lines s) of [] \<Rightarrow> Inl CsvEOF | l # ls \<Rightarrow> csv_fields l ls [])"

datatype cache_error = CeCsv csv_error | CeNoPair string | CeNoType

text \<open>The entry's type and attributes; a repeated key keeps its last value.\<close>

fun cache_attrs :: "string list \<Rightarrow> string \<Rightarrow> (string \<times> string) list \<Rightarrow> (cache_error, cache_entry) result" where
  "cache_attrs [] ty attrs = Inr (ty, attrs)"
| "cache_attrs (kv # kvs) ty attrs =
     (case str_cut kv (CHR ''='') of (k, v, ok) \<Rightarrow>
        if \<not> ok then Inl (CeNoPair kv)
        else if k = ''type'' then cache_attrs kvs v attrs else cache_attrs kvs ty (AList.update k v attrs))"

definition attr :: "(string \<times> string) list \<Rightarrow> string \<Rightarrow> string" where
  "attr attrs k = (case map_of attrs k of None \<Rightarrow> [] | Some v \<Rightarrow> v)"

definition ParseCacheEntry :: "string \<Rightarrow> string \<Rightarrow> string \<Rightarrow> (cache_error, cache_entry) result" where
  "ParseCacheEntry spec ak sk =
     (case csv_read spec of
        Inl e \<Rightarrow> Inl (CeCsv e)
      | Inr kvs \<Rightarrow> rbind (cache_attrs kvs [] []) (\<lambda>(ty, attrs).
          if ty = [] then Inl CeNoType
          else if ty = ''s3'' \<and> attr attrs ''access_key_id'' = [] \<and> ak \<noteq> []
          then Inr (ty, AList.update ''secret_access_key'' sk (AList.update ''access_key_id'' ak attrs))
          else Inr (ty, attrs)))"

text \<open>\<open>^[A-Za-z0-9._-]+$\<close>\<close>

definition regionRe :: rexp where
  "regionRe = Plus (Cls (alnum @ single ''._-''))"

datatype s3_error = S3BadURL string | S3BadRegion string

definition S3CacheURL :: "string \<Rightarrow> string \<Rightarrow> (s3_error, string) result" where
  "S3CacheURL bucketURL region0 =
     (let t = trim_suffix bucketURL ''/''; ok = has_prefix t ''https://''; rest = trim_prefix t ''https://'' in
      case str_cut rest (CHR ''/'') of (host, bucket, ok2) \<Rightarrow>
        if \<not> ok \<or> \<not> ok2 \<or> bucket = [] \<or> contains bucket ''/'' then Inl (S3BadURL bucketURL)
        else
          let region = (if region0 = [] then ''auto'' else region0) in
          if \<not> matches regionRe region then Inl (S3BadRegion region)
          else Inr (''type=s3,bucket='' @ bucket @ '',region='' @ region @ '',prefix=kbuild-vertex/,endpoint_url=https://'' @ host
            @ '',use_path_style=true,mode=max''))"

section \<open>Vertices\<close>

definition first_line :: "string \<Rightarrow> string" where
  "first_line name = (case str_cut name newline of (a, b, found) \<Rightarrow> if found \<and> length a > 0 then a @ '' ...'' else name)"

definition VertexLabel :: "string \<Rightarrow> string" where
  "VertexLabel name = (let l = first_line name in if length l > 100 then take 100 l @ ''...'' else l)"

text \<open>A vertex as a status packet reports it, and what is kept of it; times are nanoseconds.\<close>

record vertex_status =
  v_digest :: string
  v_name :: string
  v_started :: "int option"
  v_completed :: "int option"
  v_cached :: bool

record vtx =
  t_name :: string
  t_started :: "int option"
  t_finished :: "int option"
  t_cached :: bool

definition later :: "int option \<Rightarrow> int option \<Rightarrow> int option" where
  "later new old = (case new of None \<Rightarrow> old | Some t \<Rightarrow> Some t)"

text \<open>The map \<open>seen\<close> and the list \<open>order\<close> of the code are one association list in order of first appearance.\<close>

definition see_vertex :: "vertex_status \<Rightarrow> (string \<times> vtx) list \<Rightarrow> (string \<times> vtx) list" where
  "see_vertex v known =
     (let e = (case map_of known (v_digest v) of
                 None \<Rightarrow> \<lparr>t_name = v_name v, t_started = None, t_finished = None, t_cached = False\<rparr> | Some e \<Rightarrow> e)
      in AList.update (v_digest v)
           \<lparr>t_name = t_name e, t_started = later (v_started v) (t_started e), t_finished = later (v_completed v) (t_finished e),
            t_cached = (t_cached e \<or> v_cached v)\<rparr> known)"

record vertex_timing =
  vt_name :: string
  vt_cached :: bool
  vt_duration :: int

definition timing :: "vtx \<Rightarrow> vertex_timing" where
  "timing e = \<lparr>vt_name = VertexLabel (t_name e), vt_cached = t_cached e,
     vt_duration = (case (t_started e, t_finished e) of (Some a, Some b) \<Rightarrow> b - a | _ \<Rightarrow> 0)\<rparr>"

definition collect :: "vertex_status list \<Rightarrow> (string \<times> vtx) list" where
  "collect vs = fold see_vertex vs []"

definition vertices :: "vertex_status list list \<Rightarrow> vertex_timing list" where
  "vertices packets = map (timing \<circ> snd) (collect (concat packets))"

text \<open>A status packet, and what \<open>Build\<close> reports of the stream: the rows, the compiled objects and the log.\<close>

record solve_status =
  st_vertexes :: "vertex_status list"
  st_logs :: "string list"

record build_result =
  res_vertices :: "vertex_timing list"
  res_cc :: nat
  res_logs :: string

definition logs_of :: "solve_status list \<Rightarrow> string" where
  "logs_of packets = concat (concat (map st_logs packets))"

definition report_of :: "solve_status list \<Rightarrow> build_result" where
  "report_of packets = \<lparr>res_vertices = vertices (map st_vertexes packets), res_cc = count_cc (logs_of packets), res_logs = logs_of packets\<rparr>"

section \<open>The driver\<close>

text \<open>The machine the client runs on: files, the ELF check, the temporary directory, local mounts, the daemon and what it
  reports during a solve.\<close>

record host =
  executable_dir :: "string option"
  host_file :: "string \<rightharpoonup> string"
  is_linux_amd64 :: "string \<Rightarrow> bool"
  temp_dir :: "string option"
  mountable :: "string \<Rightarrow> bool"
  daemon_up :: bool
  status_stream :: "solve_status list"

record build_config =
  ContextDir :: string
  ctx_exists :: "string \<Rightarrow> bool"
  ctx_patches :: "string list option"
  HelperBin :: string
  SrcDir :: string
  OutDir :: string
  CacheExports :: "string list"
  CacheImports :: "string list"
  AccessKey :: string
  SecretKey :: string

datatype client_error =
    ClPushNoURL | ClSpec spec_error | ClContext gw_error | ClHelper string | ClConnect | ClMount string | ClNoKeys
  | ClExport string cache_error | ClImport string cache_error | ClSolve gw_error | ClPrune string

record solve_opt =
  local_mounts :: "(string \<times> string) list"
  session_secrets :: "(string \<times> string) list"
  entitlements :: "string list"
  export_dir :: "string option"
  cache_exports :: "cache_entry list"
  cache_imports :: "cache_entry list"

definition stageHelper :: "host \<Rightarrow> string \<Rightarrow> (string, string) result" where
  "stageHelper h path =
     (case (if path = [] then map_option (\<lambda>d. d @ ''/kbuild-step'') (executable_dir h) else Some path) of
        None \<Rightarrow> Inl ''executable''
      | Some p \<Rightarrow>
          (case host_file h p of
             None \<Rightarrow> Inl ''kbuild-step helper not found''
           | Some src \<Rightarrow>
               if \<not> is_linux_amd64 h src then Inl ''not a linux/amd64 ELF binary''
               else (case temp_dir h of None \<Rightarrow> Inl ''temp dir'' | Some d \<Rightarrow> Inr d)))"

fun parse_entries :: "string \<Rightarrow> string \<Rightarrow> string list \<Rightarrow> (string \<times> cache_error, cache_entry list) result" where
  "parse_entries ak sk [] = Inr []"
| "parse_entries ak sk (e # es) =
     (case ParseCacheEntry e ak sk of
        Inl x \<Rightarrow> Inl (e, x)
      | Inr entry \<Rightarrow> rbind (parse_entries ak sk es) (\<lambda>rest. Inr (entry # rest)))"

text \<open>What is checked before the daemon is contacted; the local directories so far.\<close>

definition before_dial :: "host \<Rightarrow> spec \<Rightarrow> build_config \<Rightarrow> (client_error, (string \<times> string) list) result" where
  "before_dial h s cfg =
     (if SeedPush s \<and> SeedURL s = [] then Inl ClPushNoURL
      else case Validate s of Some e \<Rightarrow> Inl (ClSpec e)
      | None \<Rightarrow> (case checkContextDir (ctx_exists cfg) (ctx_patches cfg) s of Some e \<Rightarrow> Inl (ClContext e)
      | None \<Rightarrow>
          if HelperRef s \<noteq> [] then Inr [(''context'', ContextDir cfg)]
          else (case stageHelper h (HelperBin cfg) of
                  Inl e \<Rightarrow> Inl (ClHelper e)
                | Inr d \<Rightarrow> Inr [(''context'', ContextDir cfg), (''helper'', d)])))"

definition solve_options :: "host \<Rightarrow> spec \<Rightarrow> build_config \<Rightarrow> (string \<times> string) list \<Rightarrow> (client_error, solve_opt) result" where
  "solve_options h s cfg dirs0 =
     (let dirs = dirs0 @ (if SrcDir cfg \<noteq> [] then [(''src'', SrcDir cfg)] else []) in
      case find (\<lambda>(n, d). \<not> mountable h d) dirs of Some (n, _) \<Rightarrow> Inl (ClMount n)
      | None \<Rightarrow>
          if SeedURL s \<noteq> [] \<and> (AccessKey cfg = [] \<or> SecretKey cfg = []) then Inl ClNoKeys
          else
            let secs = (if SeedURL s \<noteq> []
                 then [(''seed_access_key'', AccessKey cfg), (''seed_secret_key'', SecretKey cfg), (''seed_cfg'', the (SeedCfg s))] else []) in
            (case parse_entries (AccessKey cfg) (SecretKey cfg) (CacheExports cfg) of Inl (e, x) \<Rightarrow> Inl (ClExport e x)
             | Inr exports \<Rightarrow> (case parse_entries (AccessKey cfg) (SecretKey cfg) (CacheImports cfg) of Inl (e, x) \<Rightarrow> Inl (ClImport e x)
             | Inr imports \<Rightarrow>
                Inr \<lparr>local_mounts = dirs, session_secrets = secs,
                     entitlements = (if NetworkHost s then [''network.host''] else []),
                     export_dir = (if OutDir cfg \<noteq> [] then Some (OutDir cfg) else None),
                     cache_exports = exports, cache_imports = imports\<rparr>)))"

text \<open>
  What \<open>Build\<close> did: whether it contacted the daemon, the options of the solve, the requests sent inside the gateway session,
  what it reports and the result. A failed solve is reported too; an error before the solve is not.
\<close>

record 'r build_run =
  dialled :: bool
  solve_with :: "solve_opt option"
  sent :: "request list"
  report :: "build_result option"
  outcome_of :: "(client_error, 'r) result"

definition stopped :: "bool \<Rightarrow> client_error \<Rightarrow> 'r build_run" where
  "stopped b e = \<lparr>dialled = b, solve_with = None, sent = [], report = None, outcome_of = Inl e\<rparr>"

definition Build :: "string \<Rightarrow> host \<Rightarrow> ('r, 'f) gw_client \<Rightarrow> spec \<Rightarrow> build_config \<Rightarrow> 'r build_run" where
  "Build nonce h c s cfg =
     (case before_dial h s cfg of
        Inl e \<Rightarrow> stopped False e
      | Inr dirs \<Rightarrow>
          if \<not> daemon_up h then stopped True ClConnect
          else (case solve_options h s cfg dirs of
              Inl e \<Rightarrow> stopped True e
            | Inr so \<Rightarrow>
                (case GatewaySolve nonce c s [] (cache_imports so) of
                   (reqs, r) \<Rightarrow> \<lparr>dialled = True, solve_with = Some so, sent = reqs, report = Some (report_of (status_stream h)),
                     outcome_of = (case r of Inl e \<Rightarrow> Inl (ClSolve e) | Inr x \<Rightarrow> Inr x)\<rparr>)))"

text \<open>
  \<open>Prune\<close>: \<open>answer\<close> is what the daemon's prune call sends on the usage channel, and its error. The channel is drained and closed
  before the call returns.
\<close>

definition Prune :: "host \<Rightarrow> 'u list \<times> string option \<Rightarrow> 'u list \<times> (client_error, unit) result" where
  "Prune h answer =
     (if \<not> daemon_up h then ([], Inl ClConnect)
      else case answer of (usage, err) \<Rightarrow> (usage, case err of None \<Rightarrow> Inr () | Some e \<Rightarrow> Inl (ClPrune e)))"

section \<open>Plain records\<close>

definition csv_plain :: "string \<Rightarrow> bool" where
  "csv_plain f \<longleftrightarrow> list_all (\<lambda>c. c \<notin> {CHR '','', quote, newline, carriage}) f"

lemma csv_plain_append [simp]: "csv_plain (a @ b) \<longleftrightarrow> csv_plain a \<and> csv_plain b" "csv_plain []"
  by (auto simp: csv_plain_def)

lemma csv_plain_lit:
  "csv_plain ''type=s3''" "csv_plain ''bucket=''" "csv_plain ''region=''" "csv_plain ''prefix=kbuild-vertex/''" "csv_plain ''endpoint_url=https://''"
  "csv_plain ''use_path_style=true''" "csv_plain ''mode=max''"
  by code_simp+

lemma csv_fields_plain:
  "xs \<noteq> [] \<Longrightarrow> list_all csv_plain xs \<Longrightarrow> csv_fields (join '','' xs) rest acc = Inr (acc @ xs)"
proof (induction "'',''" xs arbitrary: acc rule: join.induct)
  case 1
  then show ?case by simp
next
  case (2 x)
  have q: "CHR '','' \<notin> set x" "quote \<notin> set x" "newline \<notin> set x" using 2 by (auto simp: csv_plain_def list_all_iff)
  have h: "x = [] \<or> hd x \<noteq> quote" using q(2) hd_in_set [of x] by metis
  have l: "lengthNL x = 0" using q(3) last_in_set [of x] by (metis lengthNL_def)
  show ?case
    unfolding join.simps(2) csv_fields.simps [of x] str_cut_absent [OF q(1)] prod.case Let_def l
    using h q(2) by simp
next
  case (3 x y zs)
  have "csv_plain x" using 3 by simp
  then have q: "CHR '','' \<notin> set x" "quote \<notin> set x" by (auto simp: csv_plain_def list_all_iff)
  have f: "hd (x @ '','' @ join '','' (y # zs)) \<noteq> quote" using q(2) by (cases x) (auto simp: quote_def)
  have ih: "csv_fields (join '','' (y # zs)) rest (acc @ [x]) = Inr ((acc @ [x]) @ y # zs)" using 3 by simp
  have cut: "str_cut (join '','' (x # y # zs)) (CHR '','') = (x, join '','' (y # zs), True)" using str_cut_append [OF q(1)] by simp
  show ?case
    unfolding csv_fields.simps [of "join '','' (x # y # zs)"] cut prod.case Let_def
    using q(2) f ih by simp
qed

lemma csv_read_plain:
  assumes "list_all csv_plain xs" "join '','' xs \<noteq> []"
  shows "csv_read (join '','' xs) = Inr xs"
proof -
  let ?s = "join '','' xs"
  have ne: "xs \<noteq> []" using assms(2) by auto
  have set: "set (join '','' xs) \<subseteq> insert (CHR '','') (\<Union> (set ` set xs))" for xs
    by (induction "'',''" xs rule: join.induct) auto
  have nl: "newline \<notin> set ?s" "carriage \<notin> set ?s"
    using set [of xs] assms(1) by (fastforce simp: list_all_iff csv_plain_def newline_def carriage_def)+
  have "split_on newline ?s = [?s]" unfolding split_on_def by (rule split_pred_none) (use nl(1) in \<open>auto simp: list_all_iff\<close>)
  moreover have "last ?s \<noteq> carriage" using nl(2) last_in_set [OF assms(2)] by metis
  ultimately have "csv_lines ?s = [?s]" using assms(2) by (simp add: csv_lines_def Let_def)
  moreover have "lengthNL ?s = 0" using nl(1) last_in_set [OF assms(2)] by (auto simp: lengthNL_def)
  ultimately show ?thesis using csv_fields_plain [OF ne assms(1)] assms(2) by (simp add: csv_read_def)
qed

lemma region_plain:
  assumes "matches regionRe r"
  shows "csv_plain r"
proof -
  have bad: "\<not> in_ranges c (alpha regionRe)" if "c \<in> {CHR '','', quote, newline, carriage}" for c
    using that unfolding quote_def newline_def carriage_def
    by (elim insertE emptyE) (simp_all only:, code_simp+)
  then show ?thesis using matches_alpha [OF assms] unfolding csv_plain_def list_all_iff by blast
qed

text \<open>
  The cache shorthand expands to what the cache parser reads back: for a host and a bucket of ordinary characters the entry
  parses as an S3 cache with exactly that bucket, region and endpoint, and with the credentials, when there are any, added.
\<close>

theorem S3CacheURL_parses:
  assumes "csv_plain host" "csv_plain bucket" "CHR ''/'' \<notin> set host" "CHR ''/'' \<notin> set bucket" "bucket \<noteq> []" "matches regionRe region"
  shows "\<exists>e. S3CacheURL (''https://'' @ host @ ''/'' @ bucket) region = Inr e \<and>
     ParseCacheEntry e ak sk = Inr (''s3'', [(''bucket'', bucket), (''region'', region), (''prefix'', ''kbuild-vertex/''),
       (''endpoint_url'', ''https://'' @ host), (''use_path_style'', ''true''), (''mode'', ''max'')]
       @ (if ak \<noteq> [] then [(''access_key_id'', ak), (''secret_access_key'', sk)] else []))"
proof -
  have ne: "region \<noteq> []" using assms(6) by (auto simp: regionRe_def Plus_def)
  let ?fs = "[''type=s3'', ''bucket='' @ bucket, ''region='' @ region, ''prefix=kbuild-vertex/'', ''endpoint_url=https://'' @ host,
     ''use_path_style=true'', ''mode=max'']"
  have ts: "trim_suffix (''https://'' @ host @ ''/'' @ bucket) ''/'' = ''https://'' @ host @ ''/'' @ bucket"
  proof -
    have "last (''https://'' @ host @ ''/'' @ bucket) = last bucket" using assms(5) by simp
    moreover have "last bucket \<noteq> CHR ''/''" using assms(4) last_in_set [OF assms(5)] by metis
    ultimately have "\<not> suffix ''/'' (''https://'' @ host @ ''/'' @ bucket)" unfolding suffix_def by (metis last_snoc)
    then show ?thesis by (simp add: trim_suffix_def)
  qed
  have tp: "trim_prefix (''https://'' @ host @ ''/'' @ bucket) ''https://'' = host @ CHR ''/'' # bucket"
    by (simp add: trim_prefix_def)
  have nb: "\<not> contains bucket ''/''" using assms(4) by (auto simp: sublist_def)
  have url: "S3CacheURL (''https://'' @ host @ ''/'' @ bucket) region = Inr (join '','' ?fs)"
    unfolding S3CacheURL_def Let_def ts tp str_cut_append [OF assms(3)] prod.case using assms(5,6) nb ne by simp
  have rd: "csv_read (join '','' ?fs) = Inr ?fs"
    by (rule csv_read_plain) (simp_all add: csv_plain_lit assms region_plain del: append.simps)
  have cut: "str_cut (k @ CHR ''='' # v) (CHR ''='') = (k, v, True)" if "CHR ''='' \<notin> set k" for k v using that by (rule str_cut_append)
  have "ParseCacheEntry (join '','' ?fs) ak sk = Inr (''s3'', [(''bucket'', bucket), (''region'', region), (''prefix'', ''kbuild-vertex/''),
       (''endpoint_url'', ''https://'' @ host), (''use_path_style'', ''true''), (''mode'', ''max'')]
       @ (if ak \<noteq> [] then [(''access_key_id'', ak), (''secret_access_key'', sk)] else []))"
    unfolding ParseCacheEntry_def rd
    by (simp add: str_cut_def rbind_def attr_def)
  with url show ?thesis by blast
qed

theorem S3CacheURL_parses_witness:
  "\<exists>e. S3CacheURL ''https://r2.dev/cache'' ''auto'' = Inr e \<and>
     ParseCacheEntry e ''AK'' ''SK'' = Inr (''s3'', [(''bucket'', ''cache''), (''region'', ''auto''), (''prefix'', ''kbuild-vertex/''),
       (''endpoint_url'', ''https://r2.dev''), (''use_path_style'', ''true''), (''mode'', ''max''), (''access_key_id'', ''AK''), (''secret_access_key'', ''SK'')])"
proof -
  have "csv_plain ''r2.dev''" "csv_plain ''cache''" "matches regionRe ''auto''" by code_simp+
  from S3CacheURL_parses [OF this(1,2) _ _ _ this(3), of "''AK''" "''SK''"] show ?thesis by simp
qed

text \<open>The bucket is not checked for separators, so a comma in it adds attributes.\<close>

theorem cache_url_injects:
  "rbind (case S3CacheURL ''https://h/b,endpoint_url=https:'' [] of Inl e \<Rightarrow> Inl CeNoType | Inr e \<Rightarrow> Inr e) (\<lambda>e. ParseCacheEntry e [] []) =
     Inr (''s3'', [(''bucket'', ''b''), (''endpoint_url'', ''https://h''), (''region'', ''auto''), (''prefix'', ''kbuild-vertex/''),
       (''use_path_style'', ''true''), (''mode'', ''max'')]) \<and>
   (case S3CacheURL ''https://h/b,access_key_id=x'' [] of Inl e \<Rightarrow> False | Inr e \<Rightarrow>
     (case ParseCacheEntry e ''AK'' ''SK'' of Inl x \<Rightarrow> False | Inr (ty, attrs) \<Rightarrow> attr attrs ''access_key_id'' = ''x'' \<and> attr attrs ''secret_access_key'' = []))"
  by code_simp

section \<open>Rows of the result\<close>

text \<open>
  A vertex label is short and, unless the name starts with a line feed, a single line.
\<close>

theorem VertexLabel_line:
  "length (VertexLabel name) \<le> 103 \<and> (if has_prefix name [newline] then True else newline \<notin> set (VertexLabel name))"
proof -
  have dots: "newline \<notin> set '' ...''" "newline \<notin> set ''...''" by (simp_all add: newline_def)
  have f: "newline \<notin> set (first_line name)" if "\<not> has_prefix name [newline]"
  proof (cases "newline \<in> set name")
    case True
    then obtain a b where n: "name = a @ newline # b" "newline \<notin> set a" by (meson split_list_first)
    have "str_cut name newline = (a, b, True)" unfolding n(1) by (rule str_cut_append [OF n(2)])
    then show ?thesis using dots n that by (cases a) (auto simp: first_line_def)
  qed (auto simp: first_line_def str_cut_absent)
  have "newline \<notin> set (VertexLabel name)" if "\<not> has_prefix name [newline]"
    using dots f [OF that] in_set_takeD [of newline 100 "first_line name"] unfolding VertexLabel_def Let_def by auto
  moreover have "length (VertexLabel name) \<le> 103" unfolding VertexLabel_def Let_def by auto
  ultimately show ?thesis by simp
qed

lemma see_keys: "map fst (see_vertex v known) = (if v_digest v \<in> fst ` set known then map fst known else map fst known @ [v_digest v])"
  unfolding see_vertex_def Let_def by (simp add: update_keys image_iff) 

text \<open>The digests in order of first appearance.\<close>

fun firsts :: "string list \<Rightarrow> string list \<Rightarrow> string list" where
  "firsts ds [] = ds"
| "firsts ds (x # xs) = firsts (if x \<in> set ds then ds else ds @ [x]) xs"

lemma collect_keys: "map fst (fold see_vertex vs known) = firsts (map fst known) (map v_digest vs)"
  by (induction vs arbitrary: known) (auto simp: see_keys)

lemma firsts_set: "set (firsts ds xs) = set ds \<union> set xs" "distinct ds \<Longrightarrow> distinct (firsts ds xs)"
  by (induction xs arbitrary: ds) auto

definition cached_in :: "(string \<times> vtx) list \<Rightarrow> string \<Rightarrow> bool" where
  "cached_in known d = (case map_of known d of None \<Rightarrow> False | Some e \<Rightarrow> t_cached e)"

lemma collect_cached:
  "cached_in (fold see_vertex vs known) d \<longleftrightarrow> cached_in known d \<or> (\<exists>v \<in> set vs. v_digest v = d \<and> v_cached v)"
proof (induction vs arbitrary: known)
  case (Cons v vs)
  have "cached_in (see_vertex v known) d \<longleftrightarrow> cached_in known d \<or> v_digest v = d \<and> v_cached v"
    by (auto simp: cached_in_def see_vertex_def Let_def update_conv' split: option.splits)
  then show ?case using Cons.IH by auto
qed simp

text \<open>
  The result of a build has one row per vertex of the status stream, however its packets are cut, in the order the vertices
  first appeared, and a vertex counts as cached exactly if some packet said so.
\<close>

theorem vertices_once:
  "map fst (collect vs) = firsts [] (map v_digest vs) \<and> distinct (map fst (collect vs)) \<and> set (map fst (collect vs)) = v_digest ` set vs \<and>
   (cached_in (collect vs) d \<longleftrightarrow> (\<exists>v \<in> set vs. v_digest v = d \<and> v_cached v)) \<and>
   vertices [xs, ys] = vertices [xs @ ys]"
  using collect_keys [of vs "[]"] firsts_set [of "[]" "map v_digest vs"] collect_cached [of vs "[]" d]
  by (simp add: collect_def cached_in_def vertices_def)

section \<open>What the driver checks first\<close>

lemma before_dial_Inr:
  assumes "before_dial h s cfg = Inr dirs"
  shows "Validate s = None \<and> (SeedPush s \<longrightarrow> SeedURL s \<noteq> []) \<and> checkContextDir (ctx_exists cfg) (ctx_patches cfg) s = None \<and>
    map fst dirs = ''context'' # (if HelperRef s = [] then [''helper''] else []) \<and>
    (HelperRef s = [] \<longrightarrow> (\<exists>d. stageHelper h (HelperBin cfg) = Inr d))"
  using assms unfolding before_dial_def by (auto split: if_splits option.splits sum.splits)

lemma solve_options_Inr:
  assumes "solve_options h s cfg dirs = Inr so"
  shows "entitlements so = (if NetworkHost s then [''network.host''] else []) \<and>
    map fst (local_mounts so) = map fst dirs @ (if SrcDir cfg \<noteq> [] then [''src''] else []) \<and>
    (if SeedURL s = [] then session_secrets so = []
     else session_secrets so = [(''seed_access_key'', AccessKey cfg), (''seed_secret_key'', SecretKey cfg), (''seed_cfg'', the (SeedCfg s))] \<and>
       AccessKey cfg \<noteq> [] \<and> SecretKey cfg \<noteq> [])"
  using assms unfolding solve_options_def Let_def by (auto split: if_splits option.splits sum.splits prod.splits)

lemma load_secrets:
  assumes "Validate s = None" "SeedURL s \<noteq> []"
  shows "loadSeedCfg (map_of [(''seed_access_key'', ak), (''seed_secret_key'', sk), (''seed_cfg'', the (SeedCfg s))]) = Some (seed_of s)"
proof -
  obtain c where "SeedCfg s = Some c" using assms(2) by (simp add: SeedCfg_def Let_def)
  then show ?thesis by (intro load_SeedCfg [OF assms]) simp_all
qed

text \<open>What a solve was started with.\<close>

definition solve_ok :: "spec \<Rightarrow> build_config \<Rightarrow> solve_opt \<Rightarrow> bool" where
  "solve_ok s cfg so \<longleftrightarrow> entitlements so = (if NetworkHost s then [''network.host''] else []) \<and>
     map fst (local_mounts so) = ''context'' # (if HelperRef s = [] then [''helper''] else []) @ (if SrcDir cfg \<noteq> [] then [''src''] else []) \<and>
     (if SeedURL s = [] then session_secrets so = []
      else loadSeedCfg (map_of (session_secrets so)) = Some (seed_of s) \<and>
        map_of (session_secrets so) ''seed_access_key'' = Some (AccessKey cfg) \<and> AccessKey cfg \<noteq> [] \<and> SecretKey cfg \<noteq> [])"

definition dial_ok :: "host \<Rightarrow> spec \<Rightarrow> build_config \<Rightarrow> bool" where
  "dial_ok h s cfg \<longleftrightarrow> Validate s = None \<and> (if SeedPush s then SeedURL s \<noteq> [] else True) \<and>
     checkContextDir (ctx_exists cfg) (ctx_patches cfg) s = None \<and>
     (if HelperRef s = [] then \<exists>d. stageHelper h (HelperBin cfg) = Inr d else True)"


section \<open>The command\<close>

text \<open>The flags of \<^verbatim>\<open>kbuildctl\<close>, after parsing.\<close>

record flags =
  fl_context :: string
  fl_proxy_ca :: string
  fl_helper :: string
  fl_src :: string
  fl_src_name :: string
  fl_out :: string
  fl_no_export :: bool
  fl_https_proxy :: string
  fl_http_proxy :: string
  fl_no_proxy :: string
  fl_sha256 :: string
  fl_apply_patches :: bool
  fl_targets :: string
  fl_kernel_version :: string
  fl_config :: string
  fl_expect :: string
  fl_base_make :: string
  fl_base :: string
  fl_toolchain_ready :: bool
  fl_arch :: string
  fl_cross_compile :: string
  fl_seed_url :: string
  fl_seed_prefix :: string
  fl_seed_region :: string
  fl_seed_push :: bool
  fl_cache_s3 :: string
  fl_export_cache :: "string list"
  fl_import_cache :: "string list"
  fl_no_cache :: bool
  fl_timing :: bool

definition override :: "string \<Rightarrow> string \<Rightarrow> string" where
  "override v old = (if v \<noteq> [] then v else old)"

definition ctl_spec :: "flags \<Rightarrow> spec" where
  "ctl_spec f =
     (let s = (if fl_kernel_version f \<noteq> []
               then DefaultSpec\<lparr>KernelVersion := fl_kernel_version f, SourceURL := SourceURLFor (fl_kernel_version f), SourceSHA256 := []\<rparr>
               else DefaultSpec) in
      s\<lparr>ConfigName := override (fl_config f) (ConfigName s), ExpectName := fl_expect f, BaseMake := fl_base_make f,
        Base := override (fl_base f) (Base s), ToolchainReady := fl_toolchain_ready f, Arch := fl_arch f,
        CrossCompile := fl_cross_compile f, HTTPSProxy := fl_https_proxy f, HTTPProxy := fl_http_proxy f, NoProxy := fl_no_proxy f,
        SourceSHA256 := override (fl_sha256 f) (SourceSHA256 s), ApplyPatches := fl_apply_patches f,
        Targets := (if fl_targets f \<noteq> [] then split_on (CHR '','') (fl_targets f) else Targets s),
        SeedURL := fl_seed_url f, SeedPrefix := fl_seed_prefix f, SeedRegion := fl_seed_region f, SeedPush := fl_seed_push f,
        ProxyCAFile := fl_proxy_ca f, IgnoreCache := fl_no_cache f,
        SourceLocalName := override (fl_src_name f) (SourceLocalName s)\<rparr>)"

definition ctl_config :: "(string \<Rightarrow> bool) \<Rightarrow> string list option \<Rightarrow> (string \<Rightarrow> string) \<Rightarrow> flags \<Rightarrow> (s3_error, build_config) result" where
  "ctl_config exists globbed env f =
     (let cfg = (\<lambda>extra. \<lparr>ContextDir = fl_context f, ctx_exists = exists, ctx_patches = globbed, HelperBin = fl_helper f, SrcDir = fl_src f,
          OutDir = (if fl_no_export f then [] else fl_out f), CacheExports = fl_export_cache f @ extra, CacheImports = fl_import_cache f @ extra,
          AccessKey = env ''AWS_ACCESS_KEY_ID'', SecretKey = env ''AWS_SECRET_ACCESS_KEY''\<rparr>) in
      if fl_cache_s3 f = [] then Inr (cfg [])
      else rbind (S3CacheURL (fl_cache_s3 f) (fl_seed_region f)) (\<lambda>entry. Inr (cfg [entry])))"

text \<open>The lines of the timing table, and how the command ends.\<close>

datatype ctl_row = Row_Cached string | Row_Took int string | Row_Unknown string

datatype ctl_exit = Usage string | Failed "ctl_row list" client_error | Succeeded "ctl_row list" string

definition timing_row :: "vertex_timing \<Rightarrow> ctl_row" where
  "timing_row v = (if vt_cached v then Row_Cached (vt_name v)
     else if vt_duration v > 0 then Row_Took (vt_duration v) (vt_name v) else Row_Unknown (vt_name v))"

definition timing_rows :: "flags \<Rightarrow> build_result option \<Rightarrow> ctl_row list" where
  "timing_rows f res = (case res of None \<Rightarrow> [] | Some r \<Rightarrow> if fl_timing f then map timing_row (res_vertices r) else [])"

definition exit_status :: "ctl_exit \<Rightarrow> nat" where
  "exit_status e = (case e of Usage _ \<Rightarrow> 1 | Failed _ _ \<Rightarrow> 1 | Succeeded _ _ \<Rightarrow> 0)"

definition ctl_main :: "string \<Rightarrow> host \<Rightarrow> ('r, 'f) gw_client \<Rightarrow> (string \<Rightarrow> bool) \<Rightarrow> string list option \<Rightarrow> (string \<Rightarrow> string) \<Rightarrow> flags \<Rightarrow> ctl_exit" where
  "ctl_main nonce h c exists globbed env f =
     (let s = ctl_spec f in
      if SeedPush s \<and> SeedURL s = [] then Usage ''-seed-push requires -seed-url''
      else case ctl_config exists globbed env f of
        Inl e \<Rightarrow> Usage ''cache-s3''
      | Inr cfg \<Rightarrow>
          (let b = Build nonce h c s cfg; rows = timing_rows f (report b) in
           case outcome_of b of
             Inl e \<Rightarrow> Failed rows e
           | Inr _ \<Rightarrow> Succeeded rows (if fl_no_export f then ''OK (no export)''
               else ''OK -> '' @ fl_out f @ '' (targets: '' @ fl_targets f @ '')'')))"

text \<open>
  The command exits with status 0 if and only if its flags made a configuration and \<open>Build\<close> succeeded with it; the explicit check of
  \<^verbatim>\<open>-seed-push\<close> refuses nothing that \<open>Build\<close> would accept.
\<close>

theorem ctl_main_status:
  "exit_status (ctl_main nonce h c exists globbed env f) = 0 \<longleftrightarrow>
     (\<exists>cfg x. ctl_config exists globbed env f = Inr cfg \<and> outcome_of (Build nonce h c (ctl_spec f) cfg) = Inr x)"
proof -
  have "outcome_of (Build nonce h c (ctl_spec f) cfg) = Inl ClPushNoURL" if "SeedPush (ctl_spec f) \<and> SeedURL (ctl_spec f) = []" for cfg
    using that by (simp add: Build_def before_dial_def stopped_def)
  then show ?thesis
    by (cases "SeedPush (ctl_spec f) \<and> SeedURL (ctl_spec f) = []"; cases "ctl_config exists globbed env f")
      (auto simp: ctl_main_def exit_status_def Let_def split: sum.splits)
qed

lemma report_iff_solve: "report (Build nonce h c s cfg) = None \<longleftrightarrow> solve_with (Build nonce h c s cfg) = None"
  by (simp add: Build_def stopped_def split: sum.splits prod.splits)

text \<open>The pin of the command's spec: from the flag, or the default one on the default tarball.\<close>

theorem ctl_spec_pin:
  "SourceSHA256 (ctl_spec f) = [] \<or> SourceSHA256 (ctl_spec f) = fl_sha256 f \<or>
   KernelVersion (ctl_spec f) = KernelVersion DefaultSpec \<and> SourceURL (ctl_spec f) = SourceURL DefaultSpec \<and>
     SourceSHA256 (ctl_spec f) = SourceSHA256 DefaultSpec"
  by (simp add: ctl_spec_def override_def Let_def)

end
