(* ===== verification/Handover.thy ===== *)
theory Handover
  imports Step Client
begin

text \<open>
  The hand-over from the driver to the step: what \<open>Build\<close> asks the daemon to solve is a vertex whose environment and
  secrets \<^verbatim>\<open>kbuild-step\<close> reads back as the spec the driver was given. The theorems follow one spec from \<open>Build\<close> through the
  pinned graph into the contract of the step, its stamp and its output.
\<close>

section \<open>What reaches the step\<close>

text \<open>The environment of an exec: a variable no option sets reads as empty.\<close>

definition vertex_env :: "run_opt list \<Rightarrow> string \<Rightarrow> string" where
  "vertex_env os k = (case env_of os k of None \<Rightarrow> [] | Some v \<Rightarrow> v)"

definition step_vars :: "string list" where
  "step_vars = [''SOURCE_DATE_EPOCH'', ''KARCH'', ''TARGETS'', ''SEED_PUSH'', ''SRC_ID'', ''SRC_LOCAL'', ''APPLY_PATCHES'']"

text \<open>The step runs in the environment of the vertex, on the variables that decide what is built.\<close>

definition handed :: "run_opt list \<Rightarrow> step_env \<Rightarrow> bool" where
  "handed os E \<longleftrightarrow> list_all (\<lambda>k. getenv E k = vertex_env os k) step_vars"

lemma handed_run_opts:
  assumes "handed (run_opts n s) E"
  shows "getenv E ''SOURCE_DATE_EPOCH'' = SourceDateEpoch s" "getenv E ''KARCH'' = archOrDefault s"
    "getenv E ''TARGETS'' = join '','' (targetsOrDefault s)" "getenv E ''SEED_PUSH'' = (if SeedPush s then ''1'' else [])"
    "getenv E ''SRC_ID'' = fst (source_identity s)" "getenv E ''SRC_LOCAL'' = SourceLocalName s"
    "getenv E ''APPLY_PATCHES'' = (if ApplyPatches s then ''1'' else ''0'')"
proof -
  have "env_of (run_opts n s) ''SRC_LOCAL'' = Some (SourceLocalName s)"
    by (simp add: env_of_run_opts env_pairs_run_opts contract_env_def)
  then show "getenv E ''SOURCE_DATE_EPOCH'' = SourceDateEpoch s" "getenv E ''KARCH'' = archOrDefault s"
    "getenv E ''TARGETS'' = join '','' (targetsOrDefault s)" "getenv E ''SEED_PUSH'' = (if SeedPush s then ''1'' else [])"
    "getenv E ''SRC_ID'' = fst (source_identity s)" "getenv E ''SRC_LOCAL'' = SourceLocalName s"
    "getenv E ''APPLY_PATCHES'' = (if ApplyPatches s then ''1'' else ''0'')"
    using assms by (simp_all add: handed_def step_vars_def vertex_env_def env_values)
qed

lemma pin_only_base:
  assumes "snd (pin_base c mode s) = Inr s'"
  obtains b where "s' = s\<lparr>Base := b\<rparr>"
proof (cases "CHR ''@'' \<in> set (Base s)")
  case True
  with assms have "s' = s\<lparr>Base := Base s\<rparr>" by (simp add: pin_base_Inr)
  then show ?thesis by (rule that)
next
  case False
  with assms that show ?thesis by (auto simp: pin_base_Inr)
qed

lemma base_irrelevant:
  "archOrDefault (s\<lparr>Base := b\<rparr>) = archOrDefault s" "targetsOrDefault (s\<lparr>Base := b\<rparr>) = targetsOrDefault s"
  "source_identity (s\<lparr>Base := b\<rparr>) = source_identity s"
  by (simp_all add: archOrDefault_def targetsOrDefault_def source_identity_def)

text \<open>The only exec vertex among the requests is the graph of the pinned spec.\<close>

lemma solved_vertex:
  assumes "Solve (Run_Mount b os p m) ci \<in> set (fst (GatewaySolve n c s mode ci'))"
  obtains s' where "snd (pin_base c mode s) = Inr s'" "Validate s' = None" "os = run_opts n s'"
proof -
  have v: "Validate s = None" using assms unfolding GatewaySolve_cases by (cases "Validate s") simp_all
  have "Solve (Run_Mount b os p m) ci \<notin> set (fst (pin_base c mode s))" using pin_base_trace [of c mode s] by (auto split: if_splits)
  moreover have "Solve (Run_Mount b os p m) ci \<notin> set (fst (checkContext c t))" for t
    using checkContext_trace [of c t] by (auto simp: probe_state_def Let_def)
  ultimately obtain s' g where g: "snd (pin_base c mode s) = Inr s'" "KernelLLB n s' = Inr g"
      "Solve (Run_Mount b os p m) ci \<in> set (fst (solve_state c g ci'))"
    using assms v unfolding GatewaySolve_cases by (auto simp: mem_gbind case_lift_Inr)
  then show ?thesis using that solve_state_trace [of c g ci'] by (auto simp: KernelLLB_Inr_iff graph_def)
qed

text \<open>The step of a driver's build: its vertex was sent to the daemon, and the session answers for the secrets.\<close>

definition built_by :: "string \<Rightarrow> host \<Rightarrow> ('r, 'f) gw_client \<Rightarrow> spec \<Rightarrow> build_config \<Rightarrow> step_env \<Rightarrow> bool" where
  "built_by n h c s cfg E \<longleftrightarrow>
     (\<exists>b os p m ci so. Solve (Run_Mount b os p m) ci \<in> set (sent (Build n h c s cfg)) \<and> handed os E \<and>
        solve_with (Build n h c s cfg) = Some so \<and> secrets_of E = map_of (session_secrets so))"

lemma Build_solve:
  assumes "solve_with (Build n h c s cfg) = Some so"
  shows "Validate s = None" "SeedPush s \<Longrightarrow> SeedURL s \<noteq> []"
    "loadSeedCfg (map_of (session_secrets so)) = (if SeedURL s = [] then None else Some (seed_of s))"
    "sent (Build n h c s cfg) = fst (GatewaySolve n c s [] (cache_imports so))"
proof -
  obtain dirs where d: "before_dial h s cfg = Inr dirs" and so: "solve_options h s cfg dirs = Inr so"
    and r: "sent (Build n h c s cfg) = fst (GatewaySolve n c s [] (cache_imports so))"
    using assms unfolding Build_def stopped_def by (auto split: sum.splits if_splits prod.splits)
  show v: "Validate s = None" and "SeedPush s \<Longrightarrow> SeedURL s \<noteq> []" using before_dial_Inr [OF d] by auto
  show "loadSeedCfg (map_of (session_secrets so)) = (if SeedURL s = [] then None else Some (seed_of s))"
  proof (cases "SeedURL s = []")
    case True
    then show ?thesis using solve_options_Inr [OF so] by (simp add: loadSeedCfg_def)
  next
    case False
    then show ?thesis using solve_options_Inr [OF so] load_secrets [OF v False, of "AccessKey cfg" "SecretKey cfg"] by auto
  qed
  show "sent (Build n h c s cfg) = fst (GatewaySolve n c s [] (cache_imports so))" by (rule r)
qed

lemma built_by_env:
  assumes "built_by n h c s cfg E"
  obtains b where "Validate s = None" "Validate (s\<lparr>Base := b\<rparr>) = None" "CHR ''@'' \<in> set b" "handed (run_opts n (s\<lparr>Base := b\<rparr>)) E"
    "loadSeedCfg (secrets_of E) = (if SeedURL s = [] then None else Some (seed_of s))" "SeedPush s \<longrightarrow> SeedURL s \<noteq> []"
proof -
  obtain b os p m ci so where o: "Solve (Run_Mount b os p m) ci \<in> set (sent (Build n h c s cfg))" "handed os E"
      "solve_with (Build n h c s cfg) = Some so" "secrets_of E = map_of (session_secrets so)"
    using assms unfolding built_by_def by blast
  obtain s' where s': "snd (pin_base c [] s) = Inr s'" "Validate s' = None" "os = run_opts n s'"
    using solved_vertex [OF o(1) [unfolded Build_solve(4) [OF o(3)]]] .
  obtain b' where b': "s' = s\<lparr>Base := b'\<rparr>" using pin_only_base [OF s'(1)] .
  have "CHR ''@'' \<in> set b'" using pin_base_pinned [OF s'(1)] by (simp add: b')
  then show ?thesis using that Build_solve(1-3) [OF o(3)] o(2,4) s'(2,3) unfolding b' by simp
qed

section \<open>Properties of the hand-over\<close>

text \<open>
  C4. What the driver hands over is what the step runs on: the vertex of any build the driver starts passes every contract check of
  \<^verbatim>\<open>kbuild-step\<close>, whatever the resolver pinned the base to, and the step goes on with the plan of the spec's targets for the
  spec's architecture and with exactly the spec's seed configuration.
\<close>

theorem handover_contract:
  assumes "built_by n h c s cfg (step_env_of R)"
  shows "\<exists>ts p. contract R w = (Ok (setenv (step_env_of R) ''KBUILD_BUILD_TIMESTAMP'' ts, p,
      if SeedURL s = [] then None else Some (seed_of s)), w) \<and>
    Timestamp (SourceDateEpoch s) = Inr ts \<and> plan_rel (archOrDefault s) (targetsOrDefault s) empty_plan p"
proof (rule built_by_env [OF assms])
  fix b
  let ?E = "step_env_of R" and ?s = "s\<lparr>Base := b\<rparr>"
  assume v: "Validate s = None" "Validate ?s = None" "CHR ''@'' \<in> set b" "handed (run_opts n ?s) ?E"
    and seed: "loadSeedCfg (secrets_of ?E) = (if SeedURL s = [] then None else Some (seed_of s))" "SeedPush s \<longrightarrow> SeedURL s \<noteq> []"
  note env = handed_run_opts [OF v(4), unfolded base_irrelevant, simplified]
  have g: "KernelLLB n ?s = Inr (graph n ?s)" using v(2,3) by (simp add: KernelLLB_Inr_iff)
  obtain p where p: "resolveTargets (archOrDefault s) (join '','' (targetsOrDefault s)) = Inr p"
      "plan_rel (archOrDefault s) (targetsOrDefault s) empty_plan p"
    using graph_targets_resolve [OF g [unfolded graph_def]] unfolding env_values base_irrelevant by auto
  obtain ts where ts: "Timestamp (SourceDateEpoch s) = Inr ts" using v(1) unfolding Validate_None_iff is_ok_iff by blast
  have "checkSeedPush (getenv ?E ''SEED_PUSH'') (loadSeedCfg (secrets_of ?E)) = None"
    using seed unfolding env by (auto simp: checkSeedPush_def seed_of_def)
  then have "contract R w = (Ok (setenv ?E ''KBUILD_BUILD_TIMESTAMP'' ts, p, loadSeedCfg (secrets_of ?E)), w)"
    by (simp add: contract_def Let_def env p(1) ts or_fail_def halt_on_def sbind_def sret_def)
  then show ?thesis using p(2) ts seed(1) by auto
qed

definition target_files :: "string \<Rightarrow> string list \<Rightarrow> string set" where
  "target_files arch ts = set (concat (map (\<lambda>(t, f). if t \<in> set ts then [f] else [])
     [(''vmlinux'', ''/out/vmlinux''), (''image'', if arch = ''arm64'' then ''/out/Image'' else ''/out/bzImage''),
      (''modules'', ''/out/modules.tar.zst''), (''config'', ''/out/config''), (''kconfigs'', ''/out/kconfig.txt.gz'')]))"

lemma ran_lifted:
  "ran (lifted arch ts) = (if ''vmlinux'' \<in> set ts then {''/out/vmlinux''} else {}) \<union> (if ''image'' \<in> set ts then {snd (image_of arch)} else {})"
proof (rule set_eqI)
  fix f
  have e: "lifted arch ts ''vmlinux'' = (if ''vmlinux'' \<in> set ts then Some ''/out/vmlinux'' else None)"
    "lifted arch ts (fst (image_of arch)) = (if ''image'' \<in> set ts then Some (snd (image_of arch)) else None)"
    using image_not_vmlinux [of arch] by (simp_all add: lifted_def)
  have "lifted arch ts a = Some f \<Longrightarrow> a = ''vmlinux'' \<or> a = fst (image_of arch)" for a by (simp add: lifted_def split: if_splits)
  then have "f \<in> ran (lifted arch ts) \<longleftrightarrow> lifted arch ts ''vmlinux'' = Some f \<or> lifted arch ts (fst (image_of arch)) = Some f"
    unfolding ran_def mem_Collect_eq by blast
  then show "f \<in> ran (lifted arch ts) \<longleftrightarrow> f \<in> (if ''vmlinux'' \<in> set ts then {''/out/vmlinux''} else {}) \<union> (if ''image'' \<in> set ts then {snd (image_of arch)} else {})"
    unfolding e by (cases "''vmlinux'' \<in> set ts"; cases "''image'' \<in> set ts") auto
qed

lemma artifact_files:
  assumes "map_of xs = lifted arch ts" "distinct (map fst xs)"
  shows "distinct (map snd xs)" "set (map snd xs) =
    (if ''vmlinux'' \<in> set ts then {''/out/vmlinux''} else {}) \<union> (if ''image'' \<in> set ts then {snd (image_of arch)} else {})"
proof -
  have mem: "(a, b) \<in> set xs \<longleftrightarrow> lifted arch ts a = Some b" for a b
    using assms by (metis map_of_eq_Some_iff)
  have inj: "a = a'" if "lifted arch ts a = Some b" "lifted arch ts a' = Some b" for a a' b
    using that by (auto simp: lifted_def image_of_def split: if_splits)
  have "inj_on snd (set xs)" by (rule inj_onI) (auto simp: mem dest: inj)
  moreover have "distinct xs" using assms(2) by (simp add: distinct_map)
  ultimately show "distinct (map snd xs)" by (simp add: distinct_map)
  have "set (map snd xs) = ran (lifted arch ts)" by (force simp: ran_def mem [symmetric])
  then show "set (map snd xs) = (if ''vmlinux'' \<in> set ts then {''/out/vmlinux''} else {}) \<union> (if ''image'' \<in> set ts then {snd (image_of arch)} else {})"
    by (simp add: ran_lifted)
qed

text \<open>
  C5. The output of a build is the one its spec asks for: a step that runs for a build of the driver and returns has added to \<^verbatim>\<open>/out\<close>
  each file of the spec's targets exactly once and no other file; the image is that of the spec's architecture.
\<close>

theorem handover_outputs:
  assumes "built_by n h c s cfg (step_env_of R)" and "run R w = (Ok (), v)"
  shows "\<exists>xs. out v = out w @ xs \<and> distinct (map fst xs) \<and> set (map fst xs) = target_files (archOrDefault s) (targetsOrDefault s)"
proof (rule built_by_env [OF assms(1)], rule run_trace [OF assms(2)])
  fix b ts p u bs ms
  let ?E = "step_env_of R" and ?s = "s\<lparr>Base := b\<rparr>"
  assume v: "Validate ?s = None" "CHR ''@'' \<in> set b" "handed (run_opts n ?s) ?E"
    and p: "resolveTargets (getenv ?E ''KARCH'') (getenv ?E ''TARGETS'') = Inr p"
    and o: "out v = out w @ bs @ lifted_files (disk u) p @ ms"
      "map fst bs = (if wantKconfigs p then [''/out/kconfig.txt.gz''] else [])"
      "map fst ms = (if wantModules p then [''/out/modules.tar.zst''] else [])"
  note env = handed_run_opts [OF v(3), unfolded base_irrelevant, simplified]
  have g: "KernelLLB n ?s = Inr (graph n ?s)" using v(1,2) by (simp add: KernelLLB_Inr_iff)
  have r: "plan_rel (archOrDefault s) (targetsOrDefault s) empty_plan p"
    using graph_targets_resolve [OF g [unfolded graph_def]] p unfolding env env_values base_irrelevant by auto
  have "distinct (map fst (artifacts p))"
    using p unfolding resolve_exact by (auto intro: resolve_tokens_distinct simp: empty_plan_def)
  moreover have "map_of (artifacts p) = lifted (archOrDefault s) (targetsOrDefault s)"
    using r by (simp add: plan_rel_def empty_plan_def)
  ultimately have a: "distinct (map snd (artifacts p))" "set (map snd (artifacts p)) =
      (if ''vmlinux'' \<in> set (targetsOrDefault s) then {''/out/vmlinux''} else {}) \<union>
      (if ''image'' \<in> set (targetsOrDefault s) then {snd (image_of (archOrDefault s))} else {})"
    using artifact_files by blast+
  have f: "map fst (lifted_files (disk u) p) = map snd (artifacts p) @ (if wantConfig p then [''/out/config''] else [])"
    by (auto simp: lifted_files_def)
  show ?thesis
  proof (intro exI conjI)
    show "out v = out w @ (bs @ lifted_files (disk u) p @ ms)" using o(1) by simp
    show "distinct (map fst (bs @ lifted_files (disk u) p @ ms))"
      unfolding map_append f o distinct_append using a by (auto simp: image_of_def split: if_splits)
    show "set (map fst (bs @ lifted_files (disk u) p @ ms)) = target_files (archOrDefault s) (targetsOrDefault s)"
      unfolding map_append f o set_append a(2) using r by (auto simp: plan_rel_def empty_plan_def target_files_def image_of_def split: if_splits)
  qed
qed

definition patch_digest :: "step_env \<Rightarrow> string" where
  "patch_digest E = take 16 (sha256_hex (concat (map snd (sort_key fst (patch_mount E)))))"

lemma patch_digest_not_none: "patch_digest E \<noteq> ''none''"
proof -
  have "length (patch_digest E) = 16" by (simp add: patch_digest_def sha256_hex_def)
  then show ?thesis by auto
qed

lemma sha256_hex_token: "token (sha256_hex x)"
proof -
  have "list_all printable hex_digits" by code_simp
  then show ?thesis using hex_chars [of "Sum256 (bytes_of x)"] by (auto simp: token_def sha256_hex_def list_all_iff hex_char_def)
qed

text \<open>The parts of a stamp: the source, and the patches.\<close>

definition stamp_source :: "spec \<Rightarrow> step_env \<Rightarrow> string" where
  "stamp_source s E = (if SourceLocalName s = [] then fst (source_identity s) else ''local:'' @ fileSHA256 (the (src_mount E (SourceLocalName s))))"

definition stamp_patches :: "spec \<Rightarrow> step_env \<Rightarrow> string" where
  "stamp_patches s E = (if ApplyPatches s then patch_digest E else ''none'')"

lemma stamp_parts:
  assumes "Validate s = None" "getenv E ''SRC_ID'' = fst (source_identity s)" "getenv E ''SRC_LOCAL'' = SourceLocalName s"
    "getenv E ''APPLY_PATCHES'' = (if ApplyPatches s then ''1'' else ''0'')" "stampWant E = Inr st"
  shows "st = ''src='' @ stamp_source s E @ CHR '' '' # ''patches='' @ stamp_patches s E" "CHR '' '' \<notin> set (stamp_source s E)"
    "SourceLocalName s \<noteq> [] \<Longrightarrow> src_mount E (SourceLocalName s) \<noteq> None"
proof -
  show "SourceLocalName s \<noteq> [] \<Longrightarrow> src_mount E (SourceLocalName s) \<noteq> None" "st = ''src='' @ stamp_source s E @ CHR '' '' # ''patches='' @ stamp_patches s E"
    using assms(2-5) by (auto simp: stampWant_def rbind_Inr_iff patchFiles_def Let_def stamp_source_def stamp_patches_def patch_digest_def split: if_splits option.splits)
  have "token (stamp_source s E)"
    using remote_identity(1) [OF assms(1)] sha256_hex_token by (auto simp: stamp_source_def fileSHA256_def printable_def)
  then show "CHR '' '' \<notin> set (stamp_source s E)" using token_set [of "stamp_source s E" "CHR '' ''"] by (auto simp: printable_def)
qed

lemma stamp_source_local: "Validate s = None \<Longrightarrow> take 6 (stamp_source s E) = ''local:'' \<longleftrightarrow> SourceLocalName s \<noteq> []"
  using remote_identity(2) [of s] by (auto simp: stamp_source_def)

text \<open>
  C13. The stamp of a tree tells builds apart: if the steps of two builds of the driver want the same stamp, so that one finds the tree
  of the other warm or takes its seed, then both build the same source (the same digest or, unpinned, the same URL, or local
  archives with the same SHA-256) and either neither patches it or both do, with patch series that agree on the first 8 bytes
  of their SHA-256.
\<close>

theorem handover_stamp:
  assumes "built_by n h c s cfg E" and "built_by n' h' c' t cfg' F" and "stampWant E = Inr st" and "stampWant F = Inr st"
  shows "(if SourceLocalName s = []
      then SourceLocalName t = [] \<and> SourceSHA256 s = SourceSHA256 t \<and> (SourceSHA256 s \<noteq> [] \<or> SourceURL s = SourceURL t)
      else SourceLocalName t \<noteq> [] \<and> (\<exists>a b. src_mount E (SourceLocalName s) = Some a \<and> src_mount F (SourceLocalName t) = Some b \<and>
        fileSHA256 a = fileSHA256 b)) \<and>
    ApplyPatches s = ApplyPatches t \<and> (if ApplyPatches s then patch_digest E = patch_digest F else True)"
proof (rule built_by_env [OF assms(1)], rule built_by_env [OF assms(2)])
  fix b d
  assume vs: "Validate s = None" "handed (run_opts n (s\<lparr>Base := b\<rparr>)) E" and vt: "Validate t = None" "handed (run_opts n' (t\<lparr>Base := d\<rparr>)) F"
  note E = stamp_parts [OF vs(1) handed_run_opts(5-7) [OF vs(2), unfolded base_irrelevant, simplified] assms(3)]
  note F = stamp_parts [OF vt(1) handed_run_opts(5-7) [OF vt(2), unfolded base_irrelevant, simplified] assms(4)]
  have "stamp_source s E @ CHR '' '' # ''patches='' @ stamp_patches s E = stamp_source t F @ CHR '' '' # ''patches='' @ stamp_patches t F"
    using E(1) F(1) by simp
  from cut_inject [OF E(2) F(2) this]
  have src: "stamp_source s E = stamp_source t F" and p: "stamp_patches s E = stamp_patches t F" by simp_all
  have "ApplyPatches s = ApplyPatches t \<and> (if ApplyPatches s then patch_digest E = patch_digest F else True)"
    using p patch_digest_not_none [of E] patch_digest_not_none [of F] by (auto simp: stamp_patches_def split: if_splits)
  moreover have l: "SourceLocalName s = [] \<longleftrightarrow> SourceLocalName t = []"
    using stamp_source_local [OF vs(1)] stamp_source_local [OF vt(1)] src by metis
  moreover have "SourceSHA256 s = SourceSHA256 t \<and> (SourceSHA256 s \<noteq> [] \<or> SourceURL s = SourceURL t)" if "SourceLocalName s = []"
    using remote_identity_inject [OF vs(1) vt(1) that] that l src by (auto simp: stamp_source_def)
  moreover have "fileSHA256 (the (src_mount E (SourceLocalName s))) = fileSHA256 (the (src_mount F (SourceLocalName t)))" if "SourceLocalName s \<noteq> []"
    using src that l by (simp add: stamp_source_def)
  ultimately show ?thesis using E(3) F(3) by auto
qed

section \<open>One build, end to end\<close>

definition sample_host :: host where
  "sample_host = \<lparr>executable_dir = None, host_file = (\<lambda>_. Some ''ELF''), is_linux_amd64 = (\<lambda>_. True), temp_dir = Some ''/tmp/helper'',
     mountable = (\<lambda>_. True), daemon_up = True, status_stream = []\<rparr>"

definition sample_config :: build_config where
  "sample_config = \<lparr>ContextDir = ''.'', ctx_exists = (\<lambda>_. True), ctx_patches = Some [''0001.patch''], HelperBin = ''kbuild-step'',
     SrcDir = [], OutDir = ''out'', CacheExports = [], CacheImports = [], AccessKey = ''ak'', SecretKey = ''sk''\<rparr>"

text \<open>With a daemon that answers, a valid pinned spec is built.\<close>

lemma sample_build:
  assumes "Validate s = None" "CHR ''@'' \<in> set (Base s)" "SeedPush s \<longrightarrow> SeedURL s \<noteq> []" "HelperRef s = []"
  shows "\<exists>so. solve_with (Build n sample_host (sample_client d) s sample_config) = Some so \<and>
    session_secrets so = (if SeedURL s = [] then [] else [(''seed_access_key'', ''ak''), (''seed_secret_key'', ''sk''), (''seed_cfg'', the (SeedCfg s))]) \<and>
    Solve (graph n s) [] \<in> set (sent (Build n sample_host (sample_client d) s sample_config))"
proof -
  have "find (\<lambda>f. \<not> True) (contextFiles s) = None" by (simp add: find_None_iff)
  then have "checkContextDir (ctx_exists sample_config) (ctx_patches sample_config) s = None"
    by (simp add: checkContextDir_def first_missing_def sample_config_def)
  then have b: "before_dial sample_host s sample_config = Inr [(''context'', ''.''), (''helper'', ''/tmp/helper'')]"
    using assms by (simp add: before_dial_def stageHelper_def sample_host_def sample_config_def)
  obtain so where so: "solve_options sample_host s sample_config [(''context'', ''.''), (''helper'', ''/tmp/helper'')] = Inr so"
      "session_secrets so = (if SeedURL s = [] then [] else [(''seed_access_key'', ''ak''), (''seed_secret_key'', ''sk''), (''seed_cfg'', the (SeedCfg s))])"
      "cache_imports so = []"
    by (simp add: solve_options_def sample_host_def sample_config_def)
  have "pin_base (sample_client d) [] s = gret s" using assms(2) by (simp add: pin_base_def contains_char)
  moreover have "KernelLLB n s = Inr (graph n s)" using assms by (simp add: KernelLLB_Inr_iff)
  ultimately have "Solve (graph n s) [] \<in> set (fst (GatewaySolve n (sample_client d) s [] []))"
    using assms(1) sample_context [of d s]
    by (auto simp: GatewaySolve_cases mem_gbind case_lift_Inr solve_state_def sample_client_def)
  then show ?thesis using b so by (auto simp: Build_def sample_host_def split: prod.splits)
qed

definition config_spec :: spec where
  "config_spec = DefaultSpec\<lparr>Targets := [''config'']\<rparr>"

definition config_run :: run_env where
  "config_run = (demo_run ''config'')\<lparr>step_env_of := demo_env\<lparr>secrets_of := Map.empty,
     getenv := (\<lambda>_. [])(''SOURCE_DATE_EPOCH'' := ''1785542400'', ''KARCH'' := ''x86_64'', ''TARGETS'' := ''config'', ''APPLY_PATCHES'' := ''0'',
       ''SRC_ID'' := ''a1415e257075c2fadf070f44bbb029469efbde5b6cf07d1433fe72207acff03c'')\<rparr>\<rparr>"

definition config_tree :: disk where
  "config_tree = AList.update [''.kbf-stamp'']
     (File ''src=a1415e257075c2fadf070f44bbb029469efbde5b6cf07d1433fe72207acff03c patches=none'' 420 1) full_tree"

text \<open>The same build, with its pinned source from another place.\<close>

definition mirror_spec :: "string \<Rightarrow> spec" where
  "mirror_spec u = config_spec\<lparr>SourceURL := u\<rparr>"

lemma valid_mirror_spec:
  assumes "has_prefix u ''https://''" "matches tokenRe u" "is_ok (SourceExt u)"
  shows "Validate (mirror_spec u) = None"
proof -
  have "seed_errors (mirror_spec u) = seed_errors DefaultSpec" "archOrDefault (mirror_spec u) = archOrDefault DefaultSpec"
    by (simp_all add: mirror_spec_def config_spec_def seed_errors_def archOrDefault_def)
  moreover have "list_all (\<lambda>e. e = None) (source_errors (mirror_spec u))"
    using assms by (simp add: source_errors_None mirror_spec_def config_spec_def DefaultSpec_def zero_spec_def)
  ultimately show ?thesis using valid_DefaultSpec unfolding Validate_None_iff by (simp add: mirror_spec_def config_spec_def known_targets_def)
qed

lemma config_spec_mirror: "config_spec = mirror_spec (SourceURL DefaultSpec)"
  by (simp add: mirror_spec_def config_spec_def)

lemma mirror_built:
  assumes "Validate (mirror_spec u) = None"
  shows "built_by ''n'' sample_host (sample_client []) (mirror_spec u) sample_config (step_env_of config_run)"
proof -
  let ?s = "mirror_spec u"
  let ?B = "Build ''n'' sample_host (sample_client []) ?s sample_config"
  have f: "CHR ''@'' \<in> set (Base ?s)" "SeedURL ?s = []" "SeedPush ?s \<longrightarrow> SeedURL ?s \<noteq> []" "HelperRef ?s = []"
    using pinned_DefaultSpec by (simp_all add: mirror_spec_def config_spec_def DefaultSpec_def zero_spec_def)
  obtain so where so: "solve_with ?B = Some so" "session_secrets so = []" "Solve (graph ''n'' ?s) [] \<in> set (sent ?B)"
    using sample_build [OF assms f(1,3,4), of "''n''" "[]"] f(2) by auto
  have "env_of (run_opts ''n'' ?s) ''SRC_LOCAL'' = Some (SourceLocalName ?s)"
    by (simp add: env_of_run_opts env_pairs_run_opts contract_env_def)
  then have "handed (run_opts ''n'' ?s) (step_env_of config_run)"
    by (simp add: handed_def step_vars_def vertex_env_def env_values)
      (simp add: config_run_def mirror_spec_def config_spec_def archOrDefault_def targetsOrDefault_def source_identity_def DefaultSpec_def zero_spec_def)
  moreover have "secrets_of (step_env_of config_run) = map_of (session_secrets so)" by (simp add: config_run_def so(2))
  ultimately show ?thesis unfolding built_by_def using so(1,3) unfolding graph_def by blast
qed

lemma config_built: "built_by ''n'' sample_host (sample_client []) config_spec sample_config (step_env_of config_run)"
  unfolding config_spec_mirror
  by (rule mirror_built, rule valid_mirror_spec; unfold DefaultSpec_source; code_simp)

theorem handover_contract_witness:
  "\<exists>ts p. contract config_run (start config_tree []) = (Ok (setenv (step_env_of config_run) ''KBUILD_BUILD_TIMESTAMP'' ts, p, None), start config_tree []) \<and>
    wantConfig p"
proof -
  have "SeedURL config_spec = []" "targetsOrDefault config_spec = [''config'']"
    by (simp_all add: config_spec_def targetsOrDefault_def DefaultSpec_def zero_spec_def)
  then show ?thesis using handover_contract [OF config_built, of "start config_tree []"] by (auto simp: plan_rel_def)
qed

lemma config_rest:
  "(let E = setenv (step_env_of config_run) ''KBUILD_BUILD_TIMESTAMP'' ts; p = empty_plan\<lparr>wantConfig := True\<rparr> in
      sbind (prepare config_run E None) (\<lambda>_. sbind (compile config_run E p) (\<lambda>_. publish config_run E p None)) (start config_tree []))
   = (Ok (), (start config_tree [])\<lparr>out := [(''/out/config'', ''CONFIG_A=y'')]\<rparr>)"
  by code_simp

lemma config_run_env:
  "getenv (step_env_of config_run) ''KARCH'' = ''x86_64''" "getenv (step_env_of config_run) ''TARGETS'' = ''config''"
  "getenv (step_env_of config_run) ''SOURCE_DATE_EPOCH'' = ''1785542400''" "getenv (step_env_of config_run) ''SEED_PUSH'' = []"
  "loadSeedCfg (secrets_of (step_env_of config_run)) = None"
  by (simp_all add: config_run_def loadSeedCfg_def)

lemma config_run_ok: "run config_run (start config_tree []) = (Ok (), (start config_tree [])\<lparr>out := [(''/out/config'', ''CONFIG_A=y'')]\<rparr>)"
proof -
  have rt: "resolveTargets ''x86_64'' ''config'' = Inr (empty_plan\<lparr>wantConfig := True\<rparr>)" by code_simp
  obtain ts where ts: "Timestamp ''1785542400'' = Inr ts" using Timestamp_default by (auto simp: is_ok_iff)
  have "contract config_run w = (Ok (setenv (step_env_of config_run) ''KBUILD_BUILD_TIMESTAMP'' ts, empty_plan\<lparr>wantConfig := True\<rparr>, None), w)" for w
    by (simp add: contract_def Let_def config_run_env rt ts or_fail_def halt_on_def sbind_def sret_def checkSeedPush_def)
  then show ?thesis using config_rest [of ts, unfolded Let_def] unfolding run_def by (simp add: sbind_def)
qed

theorem handover_outputs_witness: "\<exists>v. run config_run (start config_tree []) = (Ok (), v) \<and> map fst (out v) = [''/out/config'']"
proof -
  have t: "targetsOrDefault config_spec = [''config'']" by (simp add: config_spec_def targetsOrDefault_def)
  obtain xs where xs: "[(''/out/config'', ''CONFIG_A=y'')] = xs" "set (map fst xs) = target_files (archOrDefault config_spec) [''config'']"
    using handover_outputs [OF config_built config_run_ok, unfolded t] by (auto simp: start_def)
  show ?thesis using config_run_ok xs by auto
qed

theorem handover_stamp_witness:
  "\<exists>st. stampWant (step_env_of config_run) = Inr st \<and> SourceURL config_spec \<noteq> SourceURL (mirror_spec ''https://e.org/l.tar.gz'') \<and>
   SourceSHA256 config_spec = SourceSHA256 (mirror_spec ''https://e.org/l.tar.gz'')"
proof -
  have st: "stampWant (step_env_of config_run) = Inr ''src=a1415e257075c2fadf070f44bbb029469efbde5b6cf07d1433fe72207acff03c patches=none''"
    by (simp add: stampWant_def config_run_def)
  have "Validate (mirror_spec ''https://e.org/l.tar.gz'') = None" by (rule valid_mirror_spec; code_simp)
  from handover_stamp [OF config_built mirror_built [OF this] st st]
  have "SourceSHA256 config_spec = SourceSHA256 (mirror_spec ''https://e.org/l.tar.gz'')"
    by (simp add: config_spec_def DefaultSpec_def zero_spec_def)
  moreover have "SourceURL config_spec \<noteq> SourceURL (mirror_spec ''https://e.org/l.tar.gz'')"
    using DefaultSpec_source by (simp add: config_spec_def mirror_spec_def)
  ultimately show ?thesis using st by blast
qed

section \<open>The seed key of a tag\<close>

text \<open>
  The secrets of a solve come from the spec as it was given, before the base is pinned: two daemons that resolve one tag to different
  images get the same seed key, although their object trees have different mount ids.
\<close>

theorem seed_key_of_tag:
  "map_option session_secrets (solve_with (Build n h c s cfg)) = map_option session_secrets (solve_with (Build n h c' s cfg))"
  by (simp add: Build_def stopped_def split: sum.splits prod.splits)

end
