(* ===== verification/Dump.thy ===== *)
theory Dump
  imports Graph Targets
begin

text \<open>
  \<^verbatim>\<open>llbdump\<close>: the graph of a fixed spec, printed vertex by vertex. Marshalling, the protobuf decoder and the digest are
  arguments; a printed line is a value, without its column widths.
\<close>

section \<open>The dump\<close>

definition dump_spec :: spec where
  "dump_spec = DefaultSpec\<lparr>SourceSHA256 := ''a1415e257075c2fadf070f44bbb029469efbde5b6cf07d1433fe72207acff03c'',
     HTTPSProxy := ''http://127.0.0.1:1'', ProxyCAFile := ''ca-bundle.crt''\<rparr>"

record pb_mount =
  pm_dest :: string
  pm_input :: int
  pm_type :: string
  pm_readonly :: bool
  pm_cache :: "string option"  \<comment> \<open>the id in \<^verbatim>\<open>CacheOpt\<close>\<close>
  pm_selector :: string

datatype pb_kind =
    Op_Source string "(string \<times> string) list"
  | Op_Exec "string list" string "pb_mount list"
  | Op_File "(string \<times> string \<times> int) option list"  \<comment> \<open>\<open>Some\<close> for a copy action\<close>
  | Op_Other

record pb_op =
  op_inputs :: "(string \<times> nat) list"
  op_kind :: pb_kind

record pb_api =
  pb_marshal :: "llb_state \<Rightarrow> (string, string list) result"
  pb_unmarshal :: "string \<Rightarrow> pb_op option"
  pb_digest :: "string \<Rightarrow> string"
  pb_size :: "pb_op \<Rightarrow> nat"

datatype dump_line =
    Line_Vertex string nat | Line_Input string nat | Line_Source string "string list" | Line_Exec "string list" string
  | Line_Mount string int string bool string string | Line_Copy string string int | Line_Total nat

datatype dump_error = Panic_Graph graph_error | Panic_Marshal string | Panic_Unmarshal

definition cid :: "pb_mount \<Rightarrow> string" where
  "cid m = (case pm_cache m of None \<Rightarrow> [] | Some i \<Rightarrow> i)"

definition short_name :: "nat \<Rightarrow> string" where
  "short_name i = ''v'' @ decimal i"

text \<open>The first loop: decode every vertex, name its digest and keep the order. Later entries of a map replace earlier ones.\<close>

fun decode_ops :: "pb_api \<Rightarrow> nat \<Rightarrow> string list \<Rightarrow> (dump_error, (string \<times> string \<times> pb_op) list) result" where
  "decode_ops A i [] = Inr []"
| "decode_ops A i (dt # dts) =
     (case pb_unmarshal A dt of
        None \<Rightarrow> Inl Panic_Unmarshal
      | Some op \<Rightarrow> rbind (decode_ops A (Suc i) dts) (\<lambda>rest. Inr ((pb_digest A dt, short_name i, op) # rest)))"

definition short_of :: "(string \<times> string \<times> pb_op) list \<Rightarrow> string \<Rightarrow> string" where
  "short_of vs d = (case map_of (rev vs) d of None \<Rightarrow> [] | Some (n, _) \<Rightarrow> n)"

definition kind_lines :: "pb_kind \<Rightarrow> dump_line list" where
  "kind_lines k =
     (case k of
        Op_Source i attrs \<Rightarrow> [Line_Source i (map fst attrs)]
      | Op_Exec args net ms \<Rightarrow> Line_Exec args net
          # map (\<lambda>m. Line_Mount (pm_dest m) (pm_input m) (pm_type m) (pm_readonly m) (cid m) (pm_selector m)) ms
      | Op_File acts \<Rightarrow> concat (map (\<lambda>a. case a of None \<Rightarrow> [] | Some (s, d, i) \<Rightarrow> [Line_Copy s d i]) acts)
      | Op_Other \<Rightarrow> [])"

definition vertex_lines :: "pb_api \<Rightarrow> (string \<times> string \<times> pb_op) list \<Rightarrow> string \<Rightarrow> dump_line list" where
  "vertex_lines A vs d =
     (case map_of (rev vs) d of
        None \<Rightarrow> []
      | Some (n, op) \<Rightarrow> Line_Vertex n (pb_size A op) # map (\<lambda>(i, k). Line_Input (short_of vs i) k) (op_inputs op) @ kind_lines (op_kind op))"

definition dump_main :: "pb_api \<Rightarrow> string \<Rightarrow> (dump_error, dump_line list) result" where
  "dump_main A nonce =
     (case KernelLLB nonce dump_spec of
        Inl e \<Rightarrow> Inl (Panic_Graph e)
      | Inr st \<Rightarrow>
          (case pb_marshal A st of
             Inl e \<Rightarrow> Inl (Panic_Marshal e)
           | Inr dts \<Rightarrow> rbind (decode_ops A 0 dts) (\<lambda>vs.
               Inr (concat (map (vertex_lines A vs \<circ> fst) vs) @ [Line_Total (length vs)]))))"

section \<open>What is printed\<close>

lemma valid_dump_spec: "Validate dump_spec = None"
proof -
  have "matches proxyRe ''http://127.0.0.1:1''" "matches fileRe ''ca-bundle.crt''" "no_dotdot ''ca-bundle.crt''" "\<not> contains ''ca-bundle.crt'' ''/''"
    by code_simp+
  moreover have "source_errors dump_spec = source_errors DefaultSpec" "seed_errors dump_spec = seed_errors DefaultSpec"
    "archOrDefault dump_spec = archOrDefault DefaultSpec"
    by (simp_all add: dump_spec_def source_errors_def seed_errors_def archOrDefault_def DefaultSpec_def)
  moreover have "SourceSHA256 dump_spec = SourceSHA256 DefaultSpec" by (simp add: dump_spec_def DefaultSpec_def)
  ultimately show ?thesis using valid_DefaultSpec unfolding Validate_None_iff by (simp add: dump_spec_def)
qed

lemma dump_graph: "KernelLLB nonce dump_spec = Inr (graph nonce dump_spec)"
  using valid_dump_spec pinned_DefaultSpec by (simp add: KernelLLB_Inr_iff dump_spec_def)

lemma decode_ops_Inr:
  "decode_ops A i dts = Inr vs \<Longrightarrow> map fst vs = map (pb_digest A) dts \<and> map (fst \<circ> snd) vs = map short_name [i..<i + length dts] \<and>
     map (\<lambda>v. Some (snd (snd v))) vs = map (pb_unmarshal A) dts"
proof (induction dts arbitrary: i vs)
  case (Cons dt dts)
  then obtain op ws where ws: "pb_unmarshal A dt = Some op" "decode_ops A (Suc i) dts = Inr ws" "vs = (pb_digest A dt, short_name i, op) # ws"
    by (auto simp: rbind_Inr_iff split: option.splits)
  have "[i..<i + length (dt # dts)] = i # [Suc i..<Suc i + length dts]" by (simp add: upt_conv_Cons del: upt_Suc)
  then show ?case using Cons.IH [OF ws(2)] ws by simp
qed simp

lemma decode_ops_total: "list_all (\<lambda>dt. pb_unmarshal A dt \<noteq> None) dts \<Longrightarrow> \<exists>vs. decode_ops A i dts = Inr vs"
proof (induction dts arbitrary: i)
  case (Cons dt dts)
  then obtain op ws where "pb_unmarshal A dt = Some op" "decode_ops A (Suc i) dts = Inr ws" by fastforce
  then show ?case by simp
qed simp

lemma map_of_rev_distinct: "distinct (map fst vs) \<Longrightarrow> k < length vs \<Longrightarrow> map_of (rev vs) (fst (vs ! k)) = Some (snd (vs ! k))"
  by (simp add: map_of_is_SomeI rev_map [symmetric])

text \<open>
  The dump never stops at the graph, and when the marshalled vertices have distinct digests and can be decoded, it prints every vertex once,
  in order, under its number, then the total; an edge to the \<open>k\<close>-th vertex is printed with the name of that vertex.
\<close>

theorem dump_main_vertices:
  assumes "pb_marshal A (graph nonce dump_spec) = Inr dts" and "list_all (\<lambda>dt. pb_unmarshal A dt \<noteq> None) dts"
    and "distinct (map (pb_digest A) dts)"
  shows "\<exists>vs. decode_ops A 0 dts = Inr vs \<and> length vs = length dts \<and>
    dump_main A nonce = Inr (concat (map (vertex_lines A vs \<circ> fst) vs) @ [Line_Total (length dts)]) \<and>
    list_all (\<lambda>k. short_of vs (pb_digest A (dts ! k)) = short_name k \<and>
      hd (vertex_lines A vs (pb_digest A (dts ! k))) = Line_Vertex (short_name k) (pb_size A (the (pb_unmarshal A (dts ! k))))) [0..<length dts]"
proof -
  obtain vs where vs: "decode_ops A 0 dts = Inr vs" using decode_ops_total [OF assms(2)] by blast
  note m = decode_ops_Inr [OF vs]
  have len: "length vs = length dts" using arg_cong [OF conjunct1 [OF m], of length] by simp
  have d: "distinct (map fst vs)" using m assms(3) by simp
  have at: "fst (vs ! k) = pb_digest A (dts ! k)" "fst (snd (vs ! k)) = short_name k" "pb_unmarshal A (dts ! k) = Some (snd (snd (vs ! k)))"
    if "k < length dts" for k
    using that len m nth_map [of k vs fst] nth_map [of k vs "fst \<circ> snd"] nth_map [of k vs "\<lambda>v. Some (snd (snd v))"] by simp_all
  have "short_of vs (pb_digest A (dts ! k)) = short_name k \<and>
      hd (vertex_lines A vs (pb_digest A (dts ! k))) = Line_Vertex (short_name k) (pb_size A (the (pb_unmarshal A (dts ! k))))"
    if "k < length dts" for k
    using map_of_rev_distinct [OF d, of k] at [OF that] that len
    by (cases "vs ! k"; cases "snd (vs ! k)") (auto simp: short_of_def vertex_lines_def)
  then show ?thesis using vs len assms(1) by (auto simp: dump_main_def dump_graph list_all_iff)
qed

end
