(* ===== verification/TreeShape.thy ===== *)
theory TreeShape
  imports Step
begin

text \<open>
  The shape of the tree under \<^verbatim>\<open>/build\<close> as an invariant of the whole step: every entry has a clean, non-empty path and stands in
  a directory that is there. Extraction, patches, the download, the records of the step and the seed all keep it, whatever
  call fails and wherever the process is killed; this is what the walks that pack the tree start from.
\<close>

section \<open>Shape\<close>

definition home :: "disk \<Rightarrow> path \<Rightarrow> bool" where
  "home d q \<longleftrightarrow> q = [] \<or> is_dir d q"

definition spot :: "disk \<Rightarrow> path \<Rightarrow> bool" where
  "spot d p \<longleftrightarrow> p \<noteq> [] \<and> list_all fine_name p \<and> home d (butlast p)"

definition wf_tree :: "disk \<Rightarrow> bool" where
  "wf_tree d \<longleftrightarrow> list_all (spot d) (map fst d)"

text \<open>A path that is in the tree, as a fact the proofs use.\<close>

lemma wf_tree_iff: "wf_tree d \<longleftrightarrow> (\<forall>p. map_of d p \<noteq> None \<longrightarrow> spot d p)"
  by (auto simp: wf_tree_def list_all_iff map_of_eq_None_iff)

lemma wf_spot: "wf_tree d \<Longrightarrow> is_dir d p \<Longrightarrow> spot d p"
  by (auto simp: wf_tree_iff is_dir_def split: option.splits)

lemma home_butlast: "wf_tree d \<Longrightarrow> home d q \<Longrightarrow> home d (butlast q)"
  using wf_spot [of d q] by (auto simp: home_def spot_def)

lemma home_fine: "wf_tree d \<Longrightarrow> home d q \<Longrightarrow> list_all fine_name q"
  using wf_spot [of d q] by (auto simp: home_def spot_def)

lemma spot_top [simp]: "spot d [n] \<longleftrightarrow> fine_name n"
  by (simp add: spot_def home_def)

lemma spot_snoc: "wf_tree d \<Longrightarrow> home d q \<Longrightarrow> fine_name c \<Longrightarrow> spot d (q @ [c])"
  by (simp add: spot_def home_fine)

lemma is_dir_put: "is_dir (AList.update q n d) p \<longleftrightarrow> (if p = q then \<exists>m. n = Directory m else is_dir d p)"
  by (auto simp: is_dir_def update_conv' split: node.splits)

lemma is_dir_del: "is_dir (AList.delete q d) p \<longleftrightarrow> p \<noteq> q \<and> is_dir d p"
  by (auto simp: is_dir_def delete_conv' split: node.splits)

lemma spot_put [simp]: "spot (AList.update q n d) q \<longleftrightarrow> spot d q"
proof (cases "q = []")
  case False
  then have "butlast q \<noteq> q" by (metis append_butlast_last_id append_self_conv not_Cons_self2)
  then show ?thesis by (auto simp: spot_def home_def is_dir_put)
qed (simp add: spot_def)

lemma spot_del [simp]: "spot (AList.delete q d) q \<longleftrightarrow> spot d q"
proof (cases "q = []")
  case False
  then have "butlast q \<noteq> q" by (metis append_butlast_last_id append_self_conv not_Cons_self2)
  then show ?thesis by (auto simp: spot_def home_def is_dir_del)
qed (simp add: spot_def)

text \<open>What may be stored and what may be removed: nothing that is a directory loses its entries.\<close>

lemma wf_put_dir:
  assumes "wf_tree d" "spot d q"
  shows "wf_tree (AList.update q (Directory m) d)"
  unfolding wf_tree_iff
proof (intro allI impI)
  fix p assume "map_of (AList.update q (Directory m) d) p \<noteq> None"
  then have "spot d p" using assms by (auto simp: update_conv' wf_tree_iff split: if_splits)
  then show "spot (AList.update q (Directory m) d) p" by (auto simp: spot_def home_def is_dir_put)
qed

lemma wf_put_file:
  assumes "wf_tree d" "spot d q" "\<not> is_dir d q"
  shows "wf_tree (AList.update q n d)"
  unfolding wf_tree_iff
proof (intro allI impI)
  fix p assume "map_of (AList.update q n d) p \<noteq> None"
  then have "spot d p" using assms by (auto simp: update_conv' wf_tree_iff split: if_splits)
  then show "spot (AList.update q n d) p" using assms(3) by (auto simp: spot_def home_def is_dir_put)
qed

lemma has_children_iff: "has_children d q \<longleftrightarrow> (\<exists>p. map_of d p \<noteq> None \<and> strict_prefix q p)"
proof -
  have "length q < length p \<and> take (length q) p = q \<longleftrightarrow> strict_prefix q p" for p :: path
    by (metis append_eq_conv_conj nat_neq_iff prefix_def prefix_length_less strict_prefix_def take_is_prefix)
  then show ?thesis by (auto simp: has_children_def list_ex_iff map_of_eq_None_iff)
qed

lemma wf_del:
  assumes "wf_tree d" "\<not> has_children d q"
  shows "wf_tree (AList.delete q d)"
  unfolding wf_tree_iff
proof (intro allI impI)
  fix p assume "map_of (AList.delete q d) p \<noteq> None"
  then have p: "map_of d p \<noteq> None" "spot d p" using assms(1) by (auto simp: delete_conv' wf_tree_iff split: if_splits)
  have "strict_prefix (butlast p) p" using p(2) by (metis append_butlast_last_id spot_def strict_prefixI')
  then have "butlast p \<noteq> q" using assms(2) p(1) unfolding has_children_iff by blast
  then show "spot (AList.delete q d) p" using p(2) by (auto simp: spot_def home_def is_dir_del)
qed

text \<open>All directories above a path are there, and only directories have entries.\<close>

lemma wf_above:
  assumes "wf_tree d"
  shows "map_of d p \<noteq> None \<Longrightarrow> dirs_above d p"
proof (induction p rule: rev_induct)
  case Nil
  then show ?case by (simp add: dirs_above_def)
next
  case (snoc c p)
  have h: "home d p" using assms snoc.prems by (auto simp: wf_tree_iff spot_def)
  show ?case
  proof (cases "p = []")
    case True
    then show ?thesis by (auto simp: dirs_above_def strict_prefix_def prefix_Cons)
  next
    case False
    then have "map_of d p \<noteq> None" using h by (auto simp: home_def is_dir_def split: option.splits)
    then have "dirs_above d p" by (rule snoc.IH)
    then show ?thesis using h by (auto simp: dirs_above_def home_def strict_prefix_def)
  qed
qed

lemma childless: "wf_tree d \<Longrightarrow> q \<noteq> [] \<Longrightarrow> \<not> is_dir d q \<Longrightarrow> \<not> has_children d q"
  using wf_above by (auto simp: has_children_iff dirs_above_def)

section \<open>Computations that keep it\<close>

definition shaped :: "'a step \<Rightarrow> bool" where
  "shaped m \<longleftrightarrow> triple wf_tree m (\<lambda>_. wf_tree) wf_tree"

named_theorems shaped_intros \<open>constructs that keep the shape of the tree\<close>

lemma shaped_basic [shaped_intros]:
  "shaped (sret a)" "shaped (serr e)" "shaped (look f)" "shaped (lift_result r)" "shaped (from_option e x)" "shaped (emit n c)"
  by (auto simp: shaped_def triple_def sret_def serr_def look_def lift_result_def from_option_def emit_def
      split: sum.splits option.splits list.splits fate.splits)

lemma shaped_bind [shaped_intros]: "shaped m \<Longrightarrow> (\<And>a. shaped (f a)) \<Longrightarrow> shaped (sbind m f)"
  unfolding shaped_def by (rule triple_bind)

lemma shaped_if [shaped_intros]: "(b \<Longrightarrow> shaped m) \<Longrightarrow> (\<not> b \<Longrightarrow> shaped n) \<Longrightarrow> shaped (if b then m else n)"
  by simp

lemma shaped_option [shaped_intros]: "shaped m \<Longrightarrow> (\<And>a. shaped (f a)) \<Longrightarrow> shaped (case x of None \<Rightarrow> m | Some a \<Rightarrow> f a)"
  by (cases x) simp_all

lemma shaped_each [shaped_intros]: "(\<And>x. x \<in> set xs \<Longrightarrow> shaped (f x)) \<Longrightarrow> shaped (each f xs)"
  unfolding shaped_def by (rule triple_each_inv)

lemma shaped_ignore [shaped_intros]: "shaped m \<Longrightarrow> shaped (ignore m)"
  unfolding shaped_def by (rule triple_ignore)

lemma shaped_on_error [shaped_intros]: "shaped m \<Longrightarrow> shaped h \<Longrightarrow> shaped (on_error m h)"
  unfolding shaped_def by (rule triple_on_error) (auto elim: triple_conseq)

lemma shaped_run: "shaped m \<Longrightarrow> wf_tree (disk w) \<Longrightarrow> wf_tree (disk (snd (m w)))"
  using triple_run [of wf_tree m "\<lambda>_. wf_tree" wf_tree w]
  by (cases "m w"; cases "fst (m w)") (auto simp: shaped_def)

section \<open>Names inside the root\<close>

text \<open>Components of a name and of a link target hold no separator; those the walks keep are clean.\<close>

definition bare :: "path \<Rightarrow> bool" where "bare p \<longleftrightarrow> list_all (\<lambda>c. CHR ''/'' \<notin> set c) p"

lemma bare_simps [simp]: "bare []" "bare (c # cs) \<longleftrightarrow> CHR ''/'' \<notin> set c \<and> bare cs" "bare (p @ q) \<longleftrightarrow> bare p \<and> bare q"
  by (auto simp: bare_def)

lemma bare_butlast: "bare p \<Longrightarrow> bare (butlast p)"
  by (auto simp: bare_def list_all_iff dest: in_set_butlastD)

lemma bare_last: "bare p \<Longrightarrow> p \<noteq> [] \<Longrightarrow> CHR ''/'' \<notin> set (last p)"
  by (auto simp: bare_def list_all_iff)

lemma bare_split [simp]: "bare (split_on (CHR ''/'') s)"
proof (induction s)
  case Nil
  then show ?case by (simp add: split_on_def)
next
  case (Cons x s)
  obtain y ys where "split_on (CHR ''/'') s = y # ys" by (metis list.exhaust split_pred_not_Nil split_on_def)
  with Cons show ?case by (auto simp: split_on_def)
qed

lemma bare_path_of [simp]: "bare (path_of s)"
  by (simp add: path_of_def)

text \<open>The directories a walk creates, one after the other, each below one that is there by then.\<close>

fun growing :: "disk \<Rightarrow> path list \<Rightarrow> path \<Rightarrow> bool" where
  "growing d [] r \<longleftrightarrow> home d r"
| "growing d (q # qs) r \<longleftrightarrow> spot d q \<and> growing (AList.update q (Directory 493) d) qs r"

lemma mk_walk_growing:
  "mk_walk k d acc cs = Some (qs, r) \<Longrightarrow> bare cs \<Longrightarrow> wf_tree e \<Longrightarrow> home e acc \<Longrightarrow> (\<And>q. is_dir d q \<Longrightarrow> is_dir e q) \<Longrightarrow> growing e qs r"
proof (induction k d acc cs arbitrary: qs e rule: mk_walk.induct)
  case (1 k d acc)
  then show ?case by simp
next
  case (2 k d acc c cs)
  have x: "bare cs" "CHR ''/'' \<notin> set c" using "2.prems"(2) by auto
  consider "c = [] \<or> c = ''.''" | "c = ''..''" | "\<not> (c = [] \<or> c = ''.'')" "c \<noteq> ''..''" by blast
  then show ?case
  proof cases
    case 1
    then have "mk_walk k d acc cs = Some (qs, r)" using "2.prems"(1) by (simp del: mk_walk.simps add: mk_walk.simps(2))
    from "2.IH"(1) [OF 1 this x(1) "2.prems"(3-5)] show ?thesis .
  next
    case 2
    then have a: "acc \<noteq> []" and w: "mk_walk k d (butlast acc) cs = Some (qs, r)"
      using "2.prems"(1) by (simp_all split: if_splits)
    have n: "\<not> (c = [] \<or> c = ''.'')" using 2 by simp
    from "2.IH"(2) [OF n 2 a w x(1) "2.prems"(3) home_butlast [OF "2.prems"(3,4)] "2.prems"(5)] show ?thesis .
  next
    case 3
    have "fine_name c" using 3 x(2) by (simp add: fine_name_def proper_def)
    then have sp: "spot e (acc @ [c])" by (rule spot_snoc [OF "2.prems"(3,4)])
    show ?thesis
    proof (cases "map_of d (acc @ [c])")
      case None
      then obtain qs' where w: "mk_walk k d (acc @ [c]) cs = Some (qs', r)" and qs: "qs = (acc @ [c]) # qs'"
        using "2.prems"(1) 3 by (cases "mk_walk k d (acc @ [c]) cs") auto
      let ?e = "AList.update (acc @ [c]) (Directory 493) e"
      have "wf_tree ?e" "home ?e (acc @ [c])" "is_dir d q \<Longrightarrow> is_dir ?e q" for q
        using wf_put_dir [OF "2.prems"(3) sp] "2.prems"(5) by (auto simp: home_def is_dir_put)
      from "2.IH"(3) [OF 3 None w x(1) this] show ?thesis using qs sp by simp
    next
      case (Some n)
      show ?thesis
      proof (cases n)
        case (File a b t)
        with Some 3 "2.prems"(1) show ?thesis by simp
      next
        case (Directory m)
        with Some 3 "2.prems"(1) have w: "mk_walk k d (acc @ [c]) cs = Some (qs, r)" by simp
        have "home e (acc @ [c])" using "2.prems"(5) Some Directory by (simp add: home_def is_dir_def)
        from "2.IH"(4) [OF 3 Some Directory w x(1) "2.prems"(3) this "2.prems"(5)] show ?thesis .
      next
        case (Symlink t)
        with Some 3 "2.prems"(1) obtain j where j: "k = Suc j" "\<not> has_prefix t ''/''"
            and w: "mk_walk j d acc (split_on (CHR ''/'') t @ cs) = Some (qs, r)"
          by (auto split: nat.splits if_splits)
        have b: "bare (split_on (CHR ''/'') t @ cs)" using x(1) by simp
        from "2.IH"(5) [OF 3 Some Symlink j w b "2.prems"(3-5)] show ?thesis .
      qed
    qed
  qed
qed

lemma resolve_fine:
  "resolve k d acc cs = Some r \<Longrightarrow> bare cs \<Longrightarrow> list_all fine_name acc \<Longrightarrow> list_all fine_name r"
proof (induction k d acc cs rule: resolve.induct)
  case (1 k d acc)
  then show ?case by simp
next
  case (2 k d acc c cs)
  have x: "bare cs" "CHR ''/'' \<notin> set c" using "2.prems"(2) by auto
  consider "c = [] \<or> c = ''.''" | "c = ''..''" | "\<not> (c = [] \<or> c = ''.'')" "c \<noteq> ''..''" by blast
  then show ?case
  proof cases
    case 1
    then have "resolve k d acc cs = Some r" using "2.prems"(1) by (simp del: resolve.simps add: resolve.simps(2))
    from "2.IH"(1) [OF 1 this x(1) "2.prems"(3)] show ?thesis .
  next
    case 2
    then have a: "acc \<noteq> []" and w: "resolve k d (butlast acc) cs = Some r"
      using "2.prems"(1) by (simp_all split: if_splits)
    have n: "\<not> (c = [] \<or> c = ''.'')" using 2 by simp
    have "list_all fine_name (butlast acc)" using "2.prems"(3) by (auto simp: list_all_iff dest: in_set_butlastD)
    from "2.IH"(2) [OF n 2 a w x(1) this] show ?thesis .
  next
    case 3
    have "fine_name c" using 3 x(2) by (simp add: fine_name_def proper_def)
    then have f: "list_all fine_name (acc @ [c])" using "2.prems"(3) by simp
    show ?thesis using "2.prems" "2.IH"(3-) 3 x(1) f
      by (auto split: option.splits node.splits nat.splits if_splits)
  qed
qed

section \<open>Operations\<close>

lemma mkdir_all_tree:
  assumes "bare p"
  shows "triple wf_tree (mkdir_all p) (\<lambda>q d. wf_tree d \<and> home d q) wf_tree"
  unfolding mkdir_all_def
proof (rule triple_look_then)
  fix r
  show "triple (\<lambda>d. wf_tree d \<and> r = root_walk d p)
     (case r of None \<Rightarrow> serr ''mkdir'' | Some (qs, q) \<Rightarrow> sbind (each (\<lambda>q. sys (AList.update q (Directory 493))) qs) (\<lambda>_. sret q))
     (\<lambda>q d. wf_tree d \<and> home d q) wf_tree"
  proof (cases r)
    case None
    then show ?thesis by (auto intro: triple_err)
  next
    case (Some qr)
    then obtain qs q where r: "r = Some (qs, q)" by (cases qr) auto
    let ?I = "\<lambda>xs d. wf_tree d \<and> growing d xs q"
    have "triple (?I qs) (each (\<lambda>q. sys (AList.update q (Directory 493))) qs) (\<lambda>_. ?I []) wf_tree"
      by (rule triple_each [where I = ?I], rule triple_sys) (auto intro: wf_put_dir)
    then have "triple (?I qs) (sbind (each (\<lambda>q. sys (AList.update q (Directory 493))) qs) (\<lambda>_. sret q)) (\<lambda>q d. wf_tree d \<and> home d q) wf_tree"
      by (rule triple_bind) (auto intro: triple_ret)
    moreover have "growing d qs q" if "wf_tree d" "r = root_walk d p" for d
      using mk_walk_growing [of root_links d "[]" p qs q d] that assms r
      by (auto simp: root_walk_def home_def split: if_splits)
    ultimately show ?thesis unfolding r by (auto elim!: triple_pre)
  qed
qed

lemma entry_path_tree:
  assumes "bare p"
  shows "triple wf_tree (entry_path p) (\<lambda>q d. wf_tree d \<and> spot d q) wf_tree"
proof (cases "p = [] \<or> \<not> proper (last p)")
  case True
  then show ?thesis by (auto simp: entry_path_def intro: triple_err)
next
  case False
  then have "fine_name (last p)" using bare_last [OF assms] by (simp add: fine_name_def)
  then have "triple (\<lambda>d. wf_tree d \<and> home d q) (sret (q @ [last p])) (\<lambda>q d. wf_tree d \<and> spot d q) wf_tree" for q
    by (auto intro!: triple_ret spot_snoc)
  with False show ?thesis
    unfolding entry_path_def by (simp add: triple_bind [OF mkdir_all_tree [OF bare_butlast [OF assms]]])
qed

text \<open>A file is gone after its removal, and the place it had is still a place.\<close>

lemma root_remove_tree:
  "triple (\<lambda>d. wf_tree d \<and> spot d q) (root_remove q) (\<lambda>_ d. wf_tree d \<and> spot d q \<and> \<not> is_dir d q) wf_tree"
  unfolding root_remove_def case_prod_beta
proof (rule triple_look_then)
  fix a :: "node option \<times> bool"
  let ?P = "\<lambda>d. (wf_tree d \<and> spot d q) \<and> a = (map_of d q, has_children d q)"
  let ?Q = "\<lambda>_::unit. \<lambda>d. wf_tree d \<and> spot d q \<and> \<not> is_dir d q"
  have del: "triple ?P (sys (AList.delete q)) ?Q wf_tree" if "snd a \<longrightarrow> fst a \<noteq> None \<and> (\<forall>m. fst a \<noteq> Some (Directory m))"
  proof (rule triple_sys)
    fix d assume d: "?P d"
    then have "q \<noteq> []" by (simp add: spot_def)
    moreover have "has_children d q \<Longrightarrow> \<not> is_dir d q" using that d by (auto simp: is_dir_def split: option.splits node.splits)
    ultimately have "\<not> has_children d q" using childless [of d q] d by blast
    then show "?Q () (AList.delete q d) \<and> wf_tree d" using d by (auto simp: wf_del is_dir_del)
  qed
  show "triple ?P (case fst a of None \<Rightarrow> sret () | Some (Directory _) \<Rightarrow> if snd a then serr ''directory not empty'' else sys (AList.delete q)
       | Some _ \<Rightarrow> sys (AList.delete q)) ?Q wf_tree"
  proof (cases "fst a")
    case None
    then show ?thesis by (auto intro!: triple_ret simp: is_dir_def)
  next
    case (Some n)
    with del show ?thesis by (cases n) (auto intro!: triple_err triple_if)
  qed
qed

lemma shaped_root_remove [shaped_intros]: "shaped (root_remove q)"
  unfolding shaped_def
proof (rule triple_fix)
  fix d assume d: "wf_tree d"
  show "triple (\<lambda>x. x = d) (root_remove q) (\<lambda>_. wf_tree) wf_tree"
  proof (cases "map_of d q")
    case None
    then show ?thesis using d by (simp add: root_remove_def triple_def sbind_def look_def sret_def)
  next
    case (Some n)
    then have "spot d q" using d by (simp add: wf_tree_iff)
    then show ?thesis by (intro triple_conseq [OF root_remove_tree]) (simp_all add: d)
  qed
qed

text \<open>Storing a node that is not a directory where there is none.\<close>

lemma put_tree:
  "triple (\<lambda>d. wf_tree d \<and> spot d q \<and> \<not> is_dir d q) (sys (AList.update q (File c m t))) (\<lambda>_ d. wf_tree d \<and> spot d q \<and> \<not> is_dir d q) wf_tree"
  "triple (\<lambda>d. wf_tree d \<and> spot d q \<and> \<not> is_dir d q) (sys_write (\<lambda>c. AList.update q (File (b @ c) m t)) c) (\<lambda>_ d. wf_tree d \<and> spot d q \<and> \<not> is_dir d q) wf_tree"
  by (rule triple_sys triple_sys_write, auto simp: wf_put_file is_dir_put)+

lemmas write_tree = put_tree(2) [where b = "[]", simplified]

lemma write_rest: "triple (\<lambda>d. wf_tree d \<and> spot d q \<and> \<not> is_dir d q)
   (sbind (sys (AList.update q (File [] m t))) (\<lambda>_. sbind (sys_write (\<lambda>c. AList.update q (File c m t)) c) (\<lambda>_. sys (AList.update q (File c m' t')))))
   (\<lambda>_. wf_tree) wf_tree"
  by (rule triple_conseq [OF triple_bind [OF put_tree(1) triple_bind [OF write_tree put_tree(1)]]]) auto

lemma shaped_writeEntry [shaped_intros]: "bare p \<Longrightarrow> shaped (writeEntry p c mode mtime)"
  unfolding shaped_def writeEntry_def
  by (rule triple_bind [OF entry_path_tree], assumption, rule triple_bind [OF root_remove_tree write_rest])

lemma shaped_write_dir [shaped_intros]: "bare p \<Longrightarrow> shaped (write_dir p mode)"
  unfolding shaped_def write_dir_def
  by (rule triple_bind [OF mkdir_all_tree], assumption, rule triple_sys) (auto simp: home_def intro: wf_put_dir wf_spot)

lemma shaped_write_symlink [shaped_intros]: "bare p \<Longrightarrow> shaped (write_symlink p target)"
  unfolding shaped_def write_symlink_def
  by (rule triple_bind [OF entry_path_tree], assumption, rule triple_bind [OF root_remove_tree], rule triple_sys) (simp add: wf_put_file)

lemma shaped_write_link [shaped_intros]:
  assumes "bare p"
  shows "shaped (write_link p target)"
  unfolding shaped_def write_link_def
proof (rule triple_bind [OF entry_path_tree [OF assms]], rule triple_bind [OF root_remove_tree], rule triple_look_then)
  fix q n
  show "triple (\<lambda>d. (wf_tree d \<and> spot d q \<and> \<not> is_dir d q) \<and> n = (case root_resolve d (butlast target) of None \<Rightarrow> None | Some r \<Rightarrow> map_of d (r @ [last target])))
     (case n of None \<Rightarrow> serr ''link'' | Some (Directory _) \<Rightarrow> serr ''link'' | Some x \<Rightarrow> sys (AList.update q x)) (\<lambda>_. wf_tree) wf_tree"
    by (cases n rule: option.exhaust [case_product node.exhaust [of "the n"]])
      (auto intro!: triple_err triple_sys wf_put_file split: node.splits)
qed

lemma shaped_write_entry [shaped_intros]: "shaped (write_entry strip rename e)"
  unfolding write_entry_def by (cases "e_kind e") (auto intro!: shaped_intros)

lemma shaped_untar [shaped_intros]: "shaped (untarFiltered st strip rename)" "shaped (untar st strip)" "shaped (untarSeed st)"
  unfolding untar_def untarSeed_def untarFiltered_def by (intro shaped_intros)+

section \<open>Patches\<close>

lemma shaped_root_write [shaped_intros]:
  assumes "bare p"
  shows "shaped (root_write p c mode)"
  unfolding shaped_def root_write_def
proof (rule triple_look_then, rule triple_option_then, simp, rule triple_look_then)
  fix r :: "path option" and q m assume r: "r = Some q"
  let ?g = "\<lambda>d. case root_resolve d p of None \<Rightarrow> None
     | Some q \<Rightarrow> if q = [] \<or> is_dir d q \<or> butlast q \<noteq> [] \<and> \<not> is_dir d (butlast q) then None else Some q"
  have "spot d q \<and> \<not> is_dir d q" if "r = ?g d" for d
    using that r resolve_fine [of root_links d "[]" p q] assms
    by (auto simp: spot_def home_def root_resolve_def split: option.splits if_splits)
  then show "triple (\<lambda>d. (wf_tree d \<and> r = ?g d) \<and> m = file_mode d q mode)
     (sbind (sys (AList.update q (File [] m 0))) (\<lambda>_. sbind (sys_write (\<lambda>c. AList.update q (File c m 0)) c) (\<lambda>_. sys (AList.update q (File c mode 0)))))
     (\<lambda>_. wf_tree) wf_tree"
    by (intro triple_pre [OF write_rest]) blast
qed

lemma shaped_root_unlink [shaped_intros]: "shaped (root_unlink p)"
  unfolding root_unlink_def by (intro shaped_intros)

section \<open>Single files\<close>

lemma shaped_write_file [shaped_intros]: "fine_name n \<Longrightarrow> shaped (write_file [n] c)"
  unfolding shaped_def put_content_def
  by (intro triple_write_file, unfold put_content_def, rule triple_conseq [OF triple_bind [OF put_tree(1) write_tree]]) auto

lemma shaped_remove_file [shaped_intros]: "shaped (remove_file p)"
  unfolding shaped_def by (rule triple_remove_file) (simp add: wf_del)

lemma shaped_rename_file [shaped_intros]:
  assumes "fine_name n"
  shows "shaped (rename_file p [n])"
  unfolding shaped_def rename_file_def
proof (rule triple_look_then, rule triple_option_then)
  fix r :: "node option" and x assume r: "r = Some x"
  show "triple (\<lambda>d. wf_tree d \<and> r = (if is_dir d p \<or> is_dir d [n] then None else map_of d p))
     (sys (\<lambda>d. AList.update [n] x (AList.delete p d))) (\<lambda>_. wf_tree) wf_tree"
  proof (rule triple_sys)
    fix d assume d: "wf_tree d \<and> r = (if is_dir d p \<or> is_dir d [n] then None else map_of d p)"
    then have p: "\<not> is_dir d p" "\<not> is_dir d [n]" "map_of d p = Some x" using r by (auto split: if_splits)
    have "p \<noteq> []" using d p(3) by (auto simp: wf_tree_iff spot_def)
    then have "wf_tree (AList.delete p d)" using d p(1) by (simp add: wf_del childless)
    then show "wf_tree (AList.update [n] x (AList.delete p d)) \<and> wf_tree d"
      using d p(2) assms by (simp add: wf_put_file is_dir_del)
  qed
qed auto

text \<open>A recursive removal takes the deepest entries first, so that it never leaves an entry without its directory.\<close>

definition removing :: "string \<Rightarrow> path list \<Rightarrow> disk \<Rightarrow> bool" where
  "removing n xs d \<longleftrightarrow> wf_tree d \<and> sorted_wrt (\<lambda>p q. length q \<le> length p) xs \<and> (\<forall>p \<in> set xs. take 1 p = [n]) \<and>
     (\<forall>p. map_of d p \<noteq> None \<longrightarrow> take 1 p = [n] \<longrightarrow> p \<in> set xs)"

lemma removing_step:
  assumes "removing n (x # xs) d"
  shows "removing n xs (AList.delete x d)"
proof -
  have x: "take 1 x = [n]" using assms by (simp add: removing_def)
  have "\<not> has_children d x"
    unfolding has_children_iff
  proof (intro notI, elim exE conjE)
    fix p assume p: "map_of d p \<noteq> None" "strict_prefix x p"
    then have "take 1 p = [n]" using x by (cases x) (auto simp: strict_prefix_def prefix_def)
    then have "p \<in> set xs" using assms p unfolding removing_def by auto
    then have "length p \<le> length x" using assms by (simp add: removing_def)
    then show False using prefix_length_less [OF p(2)] by simp
  qed
  then show ?thesis using assms by (auto simp: removing_def wf_del delete_conv')
qed

lemma shaped_remove_all [shaped_intros]: "shaped (remove_all n)"
  unfolding shaped_def remove_all_def
proof (rule triple_look_then)
  fix ps
  have "sorted_wrt (\<lambda>p q. length q \<le> length p) (rev (sort_key length qs))" for qs :: "path list"
    using sorted_sort_key [of length qs] by (simp only: sorted_wrt_rev sorted_map)
  then have b: "removing n (below n d) d" if "wf_tree d" for d
    using that by (auto simp: removing_def below_def map_of_eq_None_iff)
  have "triple (removing n ps) (each (\<lambda>p. sys (AList.delete p)) ps) (\<lambda>_. removing n []) wf_tree"
    by (rule triple_each [where I = "removing n"], rule triple_sys) (simp add: removing_step, simp add: removing_def)
  then show "triple (\<lambda>d. wf_tree d \<and> ps = below n d) (each (\<lambda>p. sys (AList.delete p)) ps) (\<lambda>_. wf_tree) wf_tree"
    by (rule triple_conseq) (auto simp: b, simp add: removing_def)
qed

lemma shaped_nukeTree [shaped_intros]: "shaped nukeTree"
  unfolding nukeTree_def by (intro shaped_intros)

section \<open>The step\<close>

text \<open>What is asked of make: each of its effects on the tree leaves a tree.\<close>

definition make_trees :: "step_env \<Rightarrow> bool" where
  "make_trees E \<longleftrightarrow> (\<forall>env args d. \<forall>f \<in> set (fst (run_make E env args d)). \<forall>x. wf_tree x \<longrightarrow> wf_tree (f x))"

lemma make_trees_setenv [simp]: "make_trees (setenv E k v) \<longleftrightarrow> make_trees E"
  by (simp add: make_trees_def setenv_def)

lemma shaped_runMake [shaped_intros]:
  assumes "make_trees E"
  shows "shaped (runMake E args)"
  unfolding shaped_def runMake_def case_prod_beta
proof (rule triple_look_then, rule triple_bind [where R = "\<lambda>_. wf_tree"])
  fix a :: "(disk \<Rightarrow> disk) list \<times> bool"
  show "triple wf_tree (if snd a then sret () else serr ''make'') (\<lambda>_. wf_tree) wf_tree"
    by (auto intro: triple_ret triple_err)
  show "triple (\<lambda>d. wf_tree d \<and> a = run_make E (getenv E) args d) (each sys (fst a)) (\<lambda>_. wf_tree) wf_tree"
  proof (rule triple_under [where A = "\<forall>f \<in> set (fst a). \<forall>x. wf_tree x \<longrightarrow> wf_tree (f x)"])
    show "\<forall>f \<in> set (fst a). \<forall>x. wf_tree x \<longrightarrow> wf_tree (f x)" if "wf_tree d \<and> a = run_make E (getenv E) args d" for d
      using assms that unfolding make_trees_def by blast
    assume "\<forall>f \<in> set (fst a). \<forall>x. wf_tree x \<longrightarrow> wf_tree (f x)"
    then have "triple wf_tree (each sys (fst a)) (\<lambda>_. wf_tree) wf_tree"
      by (intro triple_each_inv triple_sys) blast
    then show "triple (\<lambda>d. wf_tree d \<and> a = run_make E (getenv E) args d) (each sys (fst a)) (\<lambda>_. wf_tree) wf_tree"
      by (rule triple_pre) simp
  qed
qed

lemma fine_names [simp]:
  "fine_name ''.kbf-stamp''" "fine_name ''.kbf-config-src''" "fine_name ''.config''"
  by (simp_all add: fine_name_def proper_def)

lemma fine_cached: "src_ext url = Some ext \<Longrightarrow> fine_name (cached_name ext) \<and> fine_name (cached_name ext @ ''.part'')"
  by (auto simp: src_ext_def cached_name_def fine_name_def proper_def split: if_splits)

lemma shaped_fetch_source: "fine_name cached \<Longrightarrow> fine_name (cached @ ''.part'') \<Longrightarrow> shaped (fetch_source E url cached want_sum)"
  unfolding fetch_source_def store_part_def Let_def case_prod_beta by (intro shaped_intros)

lemma shaped_option_then: "(\<And>a. x = Some a \<Longrightarrow> shaped (g a)) \<Longrightarrow> shaped (sbind (from_option e x) g)"
  unfolding shaped_def by (intro triple_option_then) auto

lemma shaped_acquireSource [shaped_intros]: "shaped (acquireSource E)"
  unfolding acquireSource_def Let_def
proof (rule shaped_if)
  let ?cached = cached_name and ?url = "getenv E ''SRC_URL''" and ?sum = "getenv E ''SRC_SHA256''"
  show "shaped (sbind (from_option ''unsupported source'' (src_ext ?url)) (\<lambda>ext. sbind (look (\<lambda>d. read_file d [?cached ext])) (\<lambda>c.
      if ?sum \<noteq> [] \<and> map_option fileSHA256 c = Some ?sum then sret (In_Build (?cached ext))
      else sbind (fetch_source E ?url (?cached ext) ?sum) (\<lambda>_. sret (In_Build (?cached ext))))))"
  proof (rule shaped_option_then)
    fix ext assume "src_ext ?url = Some ext"
    from fine_cached [OF this] show "shaped (sbind (look (\<lambda>d. read_file d [?cached ext])) (\<lambda>c.
      if ?sum \<noteq> [] \<and> map_option fileSHA256 c = Some ?sum then sret (In_Build (?cached ext))
      else sbind (fetch_source E ?url (?cached ext) ?sum) (\<lambda>_. sret (In_Build (?cached ext)))))"
      by (intro shaped_intros shaped_fetch_source) simp_all
  qed
qed (intro shaped_intros)

lemma shaped_apply_file [shaped_intros]: "shaped (apply_file f)"
proof -
  have "shaped (mkdir_all (butlast (new_name f)))"
    unfolding shaped_def by (rule triple_conseq [OF mkdir_all_tree]) (auto simp: new_name_def intro: bare_butlast)
  then show ?thesis
    unfolding apply_file_def case_prod_beta by (intro shaped_intros) (simp_all add: new_name_def)
qed

lemma shaped_prepareTree [shaped_intros]: "shaped (prepareTree E seed)"
proof -
  have e: "shaped (extractTarball E s)" for s unfolding extractTarball_def by (intro shaped_intros)
  have a: "shaped (applyPatches E)" unfolding applyPatches_def by (intro shaped_intros)
  have c: "shaped (cold E want src)" for want src
    unfolding cold_def populate_def stamp_path_def by (intro shaped_intros e a) simp
  have p: "shaped (seedPull E c)" for c unfolding seedPull_def by (cases "get_object E c") (auto intro!: shaped_intros)
  have h: "shaped (hydrate E want c)" for want c
    unfolding hydrate_def stamp_path_def by (intro shaped_intros p) simp
  show ?thesis
    unfolding prepareTree_def replace_source_def unless_present_def by (intro shaped_intros c h)
qed

lemma shaped_configure [shaped_intros]:
  assumes "make_trees E"
  shows "shaped (configure E)"
proof -
  have a: "shaped (append_config cfg)" for cfg
    unfolding shaped_def append_config_def
  proof (rule triple_look_then)
    fix n
    have "triple (\<lambda>d. wf_tree d \<and> Some (File c m t) = map_of d config_path)
       (sys_write (\<lambda>x. AList.update config_path (File (c @ x) m t)) ([newline] @ cfg)) (\<lambda>_. wf_tree) wf_tree" for c m t
      by (rule triple_conseq [OF put_tree(2)]) (auto simp: config_path_def is_dir_def dest: sym)
    then show "triple (\<lambda>d. wf_tree d \<and> n = map_of d config_path)
       (case n of Some (File c m t) \<Rightarrow> sys_write (\<lambda>x. AList.update config_path (File (c @ x) m t)) ([newline] @ cfg) | _ \<Rightarrow> serr ''open'')
       (\<lambda>_. wf_tree) wf_tree"
      by (auto split: option.splits node.splits intro: triple_err)
  qed
  show ?thesis
    unfolding configure_def base_config_def Let_def
    by (intro shaped_intros a assms) (simp_all add: config_path_def marker_path_def shaped_intros)
qed

lemma shaped_seedPush:
  assumes "fine_name tmp"
  shows "shaped (seedPush E put tmp enc c)"
proof (cases "s3Client (aws_load E) put (secrets_of E) c")
  case (Inr x)
  obtain cl bucket where x: "x = (cl, bucket)" by fastforce
  let ?P = "\<lambda>d. wf_tree d \<and> spot d [tmp] \<and> \<not> is_dir d [tmp]"
  let ?body = "sbind (look (\<lambda>d. enc (seed_entries d))) (\<lambda>a. sbind (sys_write (\<lambda>b. AList.update [tmp] (File b 384 0)) a) (\<lambda>_.
     case cl bucket (sc_key c) a of None \<Rightarrow> sret () | Some e \<Rightarrow> serr e))"
  have rm: "shaped (ignore (remove_file [tmp]))" by (intro shaped_intros)
  have "triple ?P ?body (\<lambda>_. wf_tree) wf_tree"
  proof (rule triple_look_then, rule triple_bind [OF triple_pre [OF write_tree]])
    show "triple ?P (case cl bucket (sc_key c) a of None \<Rightarrow> sret () | Some e \<Rightarrow> serr e) (\<lambda>_. wf_tree) wf_tree" for a
      by (auto intro: triple_ret triple_err split: option.splits)
  qed auto
  then have body: "triple ?P (on_error ?body (ignore (remove_file [tmp]))) (\<lambda>_. wf_tree) wf_tree"
    by (rule triple_on_error) (use rm in \<open>simp_all add: shaped_def\<close>)
  have "shaped (sbind (look (\<lambda>d. map_of d [tmp] = None)) (\<lambda>free. if \<not> free then serr ''exists'' else
      sbind (sys (AList.update [tmp] (File [] 384 0))) (\<lambda>_. sbind (on_error ?body (ignore (remove_file [tmp]))) (\<lambda>_. ignore (remove_file [tmp])))))"
    unfolding shaped_def
  proof (rule triple_look_then, rule triple_if)
    fix fr assume "\<not> \<not> fr"
    then have "triple (\<lambda>d. wf_tree d \<and> fr = (map_of d [tmp] = None)) (sys (AList.update [tmp] (File [] 384 0))) (\<lambda>_. ?P) wf_tree"
      by (intro triple_pre [OF put_tree(1)]) (use assms in \<open>auto simp: is_dir_def\<close>)
    then show "triple (\<lambda>d. wf_tree d \<and> fr = (map_of d [tmp] = None)) (sbind (sys (AList.update [tmp] (File [] 384 0)))
        (\<lambda>_. sbind (on_error ?body (ignore (remove_file [tmp]))) (\<lambda>_. ignore (remove_file [tmp])))) (\<lambda>_. wf_tree) wf_tree"
      by (rule triple_bind) (rule triple_bind [OF body rm [unfolded shaped_def]])
  qed (auto intro: triple_err)
  then show ?thesis unfolding seedPush_def Let_def by (simp add: Inr x)
qed (simp add: seedPush_def shaped_intros)

lemma shaped_prepare: "make_trees E \<Longrightarrow> shaped (prepare R E seed)"
proof -
  have "shaped (halt_on x e)" for x :: "'e option" and e by (cases x) (simp_all add: halt_on_def shaped_intros)
  then show "make_trees E \<Longrightarrow> shaped (prepare R E seed)"
    unfolding prepare_def sweep_def gate_def by (intro shaped_intros)
qed

lemma shaped_compile: "make_trees E \<Longrightarrow> shaped (compile R E p)"
  unfolding compile_def bundleKconfigs_def by (intro shaped_intros)

lemma shaped_publish: "make_trees E \<Longrightarrow> fine_name (seed_tmp R) \<Longrightarrow> shaped (publish R E p seed)"
  unfolding publish_def packModules_def copyFile_def case_prod_beta by (intro shaped_intros shaped_seedPush)

lemma shaped_whole_run:
  assumes "make_trees (step_env_of R)" "fine_name (seed_tmp R)"
  shows "shaped (run R)"
  unfolding shaped_def run_def
proof (rule triple_bind [where R = "\<lambda>(E, p, seed) d. wf_tree d \<and> make_trees E"])
  show "triple wf_tree (contract R) (\<lambda>(E, p, seed) d. wf_tree d \<and> make_trees E) wf_tree"
    using assms(1) by (auto simp: triple_def contract_def Let_def sbind_def or_fail_def halt_on_def sret_def serr_def split: sum.splits option.splits)
  fix x :: "step_env \<times> plan \<times> seedCfg option"
  obtain E p seed where x: "x = (E, p, seed)" by (cases x)
  have "triple wf_tree (sbind (prepare R E seed) (\<lambda>_. sbind (compile R E p) (\<lambda>_. publish R E p seed))) (\<lambda>_. wf_tree) wf_tree" if "make_trees E"
    unfolding shaped_def [symmetric] by (intro shaped_intros shaped_prepare shaped_compile shaped_publish that assms(2))
  then show "triple (case x of (E, p, seed) \<Rightarrow> \<lambda>d. wf_tree d \<and> make_trees E)
     (case x of (E, p, seed) \<Rightarrow> sbind (prepare R E seed) (\<lambda>_. sbind (compile R E p) (\<lambda>_. publish R E p seed))) (\<lambda>_. wf_tree) wf_tree"
    unfolding x by (auto simp: triple_def)
qed



text \<open>The trees that a seed gives back are those of this shape whose own records are plain files.\<close>

lemma tree_ok_iff:
  "tree_ok d \<longleftrightarrow> wf_tree d \<and> (\<forall>p. map_of d p \<noteq> None \<longrightarrow> seed_skips p \<longrightarrow> \<not> is_dir d p) \<and>
     \<not> is_dir d [''.kbf-stamp''] \<and> map_of d [''.kbf-stamp.seed''] = None"
proof -
  have "spot d p" if "p \<noteq> []" "list_all fine_name p" "dirs_above d p" for p
    using that by (auto simp: spot_def home_def dirs_above_def) (metis append_butlast_last_id strict_prefixI')
  then show ?thesis
    using wf_above [of d] unfolding tree_ok_def wf_tree_def by (auto simp: list_all_iff spot_def map_of_eq_None_iff)
qed

end
