(* ===== verification/Spec2Isabelle.thy ===== *)
theory Spec2Isabelle
  imports Frontend PoolSafe Handover Dump Redact TreeShape
begin

text \<open>
  A verification development for \<^verbatim>\<open>kernelbuild-buildkit\<close>, which builds Linux kernels as BuildKit graphs.

  \<^bold>\<open>The program.\<close> A build is described by a \<^verbatim>\<open>Spec\<close> (\<^verbatim>\<open>spec.go\<close>), which comes from a Kernelfile (\<^verbatim>\<open>step.go\<close>) and from build
  options (\<^verbatim>\<open>cmd/kbuild-frontend\<close>). The frontend validates it, pins the base image, checks the build context
  (\<^verbatim>\<open>gateway.go\<close>) and turns it into a graph with one toolchain vertex and one compile vertex (\<^verbatim>\<open>llb.go\<close>). The compile vertex runs
  \<^verbatim>\<open>kbuild-step\<close> (\<^verbatim>\<open>cmd/kbuild-step\<close>) on a persistent object tree: it fetches and extracts the source or pulls a seed,
  applies patches, resolves the config, checks expectations, compiles, and lifts the artifacts. The parts talk through the
  environment of the vertex, its mounts and a secret file; the tree outlives the process, which may be killed at any
  point.

  \<^bold>\<open>The theories.\<close>
  \<^item> \<open>Prelude\<close>: results, strings as byte lists, Go's string functions (splitting, cutting, trimming, fields), shared
    lemmas and the collections \<open>go_simps\<close> and \<open>printable_intros\<close>.
  \<^item> \<open>Regexp\<close>: regular expressions with an executable matcher (derivatives) for Go's \<^verbatim>\<open>regexp\<close>.
  \<^item> \<open>Timestamp\<close>: \<^verbatim>\<open>Timestamp\<close> of \<^verbatim>\<open>step.go\<close> with the calendar behind Go's date format.
  \<^item> \<open>BuildSpec\<close>: \<^verbatim>\<open>Spec\<close>, its expressions, \<^verbatim>\<open>Validate\<close>, defaults and derived values. What a validated spec may contain.
  \<^item> \<open>Kernelfile\<close>: \<^verbatim>\<open>ParseKernelfile\<close> with the scanner's token limit. It refines a declarative meaning of key-value pairs,
    and the order of lines does not matter.
  \<^item> \<open>Sha256\<close>: SHA-256 on bytes, with the constants computed from primes.
  \<^item> \<open>Seed\<close>: toolchain hash, mount id, seed key, the seed configuration written by \<^verbatim>\<open>SeedCfg\<close> and read by \<^verbatim>\<open>loadSeedCfg\<close>.
  \<^item> \<open>Graph\<close>: \<^verbatim>\<open>KernelLLB\<close>. The llb calls are constructors of a datatype; a graph has a hashed part and a part BuildKit does
    not hash, and the hashed part is characterised exactly.
  \<^item> \<open>Targets\<close>, \<open>Expect\<close>: \<^verbatim>\<open>resolveTargets\<close>, make arguments, and the expectation gate of the step.
  \<^item> \<open>Gateway\<close>, \<open>Frontend\<close>: the solve path and the layering of build file and options, with the daemon as a record of
    functions and every request recorded.
  \<^item> \<open>Download\<close>: the resuming, retrying download and the guarded dialer.
  \<^item> \<open>Redact\<close>: \<^verbatim>\<open>redactURL\<close> and \<^verbatim>\<open>redactErr\<close> over \<^verbatim>\<open>net/url\<close>. What is printed of a URL does not depend on credentials, query
    and fragment; the error of a URL that makes no request is the exception.
  \<^item> \<open>FileSys\<close>: the disk below \<^verbatim>\<open>/build\<close>, system calls that may fail, write short or be the last, and triples with a crash
    condition. A file call fails where the operating system refuses it (a directory in the way, a directory that is not empty, no
    parent). The locale \<open>store\<close> states what the disk promises; it is interpreted on association lists.
  \<^item> \<open>Untar\<close>: extraction in stream order over the operations of \<^verbatim>\<open>os.Root\<close>.
  \<^item> \<open>Tree\<close>: \<^verbatim>\<open>prepareTree\<close>, \<^verbatim>\<open>configure\<close> and what they call. \<open>TreeLogic\<close> has one triple per operation, \<open>TreeSafe\<close> the crash
    safety of \<^verbatim>\<open>prepareTree\<close>, \<open>Configure\<close> that of the configuration marker.
  \<^item> \<open>Pack\<close>: \<^verbatim>\<open>copyFile\<close>, \<^verbatim>\<open>bundleKconfigs\<close>, \<^verbatim>\<open>packModules\<close> and \<^verbatim>\<open>seedPush\<close>. The module archive does not depend on when or in
    which order modules were installed.
  \<^item> \<open>Step\<close>: \<^verbatim>\<open>run\<close>. Contract errors come before any change, what is published passed every gate, and a run that returns
    has written exactly the files its targets ask for, with the contents of the tree the compilation left.
  \<^item> \<open>TreeShape\<close>: the shape of the tree (clean paths, every entry in a directory that is there) as an invariant of \<^verbatim>\<open>run\<close>, under
    errors and kills at any call.
  \<^item> \<open>Pool\<close>: the concurrent extraction (reader in \<^verbatim>\<open>main.go\<close>, workers in \<^verbatim>\<open>untarpool.go\<close>) as an inductive step relation whose steps are
    single file-system calls, with bounded channels, the blocked sender, the barrier of \<^verbatim>\<open>flush\<close> and the first error. The
    locale \<open>sharded\<close> states what makes queued work independent of the schedule; it is interpreted on the calls as \<open>calls\<close>.
  \<^item> \<open>Extract\<close>: what the entries of a stream do to a tree in serial order, and which streams are \<open>tidy\<close> (every entry's parent
    and old object leave no choice to the schedule). \<open>PoolSafe\<close>: every schedule of a tidy stream has the result and the tree of the
    serial extraction, every schedule ends, memory is bounded, and a packed seed extracts, under any schedule, to the tree it was
    packed from.
  \<^item> \<open>BuildLog\<close>: the count of compiled objects in a log, equal to a count of lines.
  \<^item> \<open>Client\<close>: \<^verbatim>\<open>client.go\<close> and \<^verbatim>\<open>kbuildctl\<close>: what is checked before the daemon is dialled, what a solve carries, the cache
    entry syntax (with the CSV reader), the report of the status stream and the exit status of the command.
  \<^item> \<open>Handover\<close>: one spec from the driver to the step. The vertex \<open>Build\<close> sends and its secrets pass the step's contract, the
    published files are those of the spec's targets, and the stamp tells the sources and patches of two builds apart.
  \<^item> \<open>Dump\<close>: \<^verbatim>\<open>llbdump\<close>.

  \<^bold>\<open>State and operations.\<close> The scanner state of the parser is \<open>pstate\<close>; the daemon's view of a solve is the list of
  requests; the state of a download is \<open>fetch\<close>; the state of the step is \<open>world\<close>: a disk, the fates of the coming
  system calls, and what was written to \<^verbatim>\<open>/out\<close>. A definition keeps the name of the function it models, and loops are
  recursive functions over the data the loop reads, so all of them end; the only fuel is the number of symbolic links
  a path lookup follows (40 in the kernel, 8 in \<^verbatim>\<open>os.Root\<close>), which is the bound of the operating system and of Go.

  \<^bold>\<open>Parameters.\<close> What is not under \<^verbatim>\<open>src/\<close> is an argument: the BuildKit client, \<^verbatim>\<open>platforms.Parse\<close>, the JSON decoder, the
  AWS loader, client and store, the HTTP server, resolver and dialer, the decompressors, \<^verbatim>\<open>go-gitdiff\<close>, \<^verbatim>\<open>make\<close>, BuildKit's
  \<^verbatim>\<open>subrequests\<close> package and the protobuf encoding of a graph. Theorems
  that rely on them say what they rely on (\<open>honest\<close> servers, \<open>clean_inputs\<close>, \<open>clean_seed\<close>, \<open>make_spares\<close>, \<open>make_trees\<close>). The rules of \<^verbatim>\<open>net/url\<close>
  for host names, which change between releases of Go, are an argument as well.

  \<^bold>\<open>Not modelled.\<close> Phase timing, wall time and tracing; the text of progress output and the widths of printed columns; the
  reuse of buffers in the write pool; timeouts of the HTTP client; the sharing behind hard links, and symbolic links under the step's
  own file names, which are replaced where \<^verbatim>\<open>os.WriteFile\<close> would follow them; the gRPC entry point and the panic recovery of the frontend; the flag parser; the init program of the boot test.
\<close>

end
